(* ===== verification/DRS_Prelude.thy ===== *)
theory DRS_Prelude
  imports Complex_Main "HOL-Library.Word" "HOL-Library.Sublist" "HOL-Library.AList"
begin

text \<open>
  Shared vocabulary of the development: machine integers and bytes, durations, float64 values
  as far as they are compared, and the combinators that model early returns, with the
  collection \<open>check_None\<close> of what it means that a sequence of checks raises no error.
\<close>

section \<open>Machine integers and early returns\<close>

type_synonym byte = "8 word"
type_synonym int64 = "64 word"
type_synonym uint64 = "64 word"

named_theorems check_None \<open>when a chain of checks raises no error\<close>

text \<open>
  A Go function that returns \<^verbatim>\<open>error\<close> is modelled by an option: \<open>None\<close> is \<open>nil\<close>. A body that is
  a sequence of guards with early returns is the first error of a list, and a loop whose
  body may return early is \<open>check_all\<close> (over the elements) or \<open>check_adjacent\<close> (over
  \<open>xs[i-1], xs[i]\<close>).
\<close>

fun first_error :: "'e option list \<Rightarrow> 'e option" where
  "first_error [] = None"
| "first_error (c # cs) = (case c of Some e \<Rightarrow> Some e | None \<Rightarrow> first_error cs)"

fun check_all :: "('a \<Rightarrow> 'e option) \<Rightarrow> 'a list \<Rightarrow> 'e option" where
  "check_all f [] = None"
| "check_all f (x # xs) = (case f x of Some e \<Rightarrow> Some e | None \<Rightarrow> check_all f xs)"

fun check_adjacent :: "('a \<Rightarrow> 'a \<Rightarrow> 'e option) \<Rightarrow> 'a list \<Rightarrow> 'e option" where
  "check_adjacent f [] = None"
| "check_adjacent f [x] = None"
| "check_adjacent f (x # y # zs) =
     (case f x y of Some e \<Rightarrow> Some e | None \<Rightarrow> check_adjacent f (y # zs))"

definition guard_err :: "bool \<Rightarrow> 'e \<Rightarrow> 'e option" where
  "guard_err bad e = (if bad then Some e else None)"

lemma guard_err_None [simp, check_None]: "guard_err bad e = None \<longleftrightarrow> \<not> bad"
  by (simp add: guard_err_def)

lemma guard_err_Some [simp]: "guard_err bad e = Some e' \<longleftrightarrow> bad \<and> e' = e"
  by (auto simp: guard_err_def)

lemma first_error_None [check_None]: "first_error cs = None \<longleftrightarrow> (\<forall>c \<in> set cs. c = None)"
  by (induction cs) (auto split: option.splits)

lemma early_return_None [simp, check_None]:
  "(case c of None \<Rightarrow> d | Some e \<Rightarrow> Some e) = None \<longleftrightarrow> c = None \<and> d = None"
  by (auto split: option.splits)

lemma first_error_Some_in: "first_error cs = Some e \<Longrightarrow> Some e \<in> set cs"
  by (induction cs) (auto split: option.splits)

lemma first_error_append:
  "first_error (as @ bs) = (case first_error as of Some e \<Rightarrow> Some e | None \<Rightarrow> first_error bs)"
  by (induction as) (auto split: option.splits)

lemma check_all_None [simp, check_None]: "check_all f xs = None \<longleftrightarrow> (\<forall>x \<in> set xs. f x = None)"
  by (induction xs) (auto split: option.splits)

lemma check_all_Some_in: "check_all f xs = Some e \<Longrightarrow> \<exists>x \<in> set xs. f x = Some e"
  by (induction xs) (auto split: option.splits)

lemma check_adjacent_None [check_None]:
  "check_adjacent f xs = None \<longleftrightarrow> successively (\<lambda>x y. f x y = None) xs"
  by (induction f xs rule: check_adjacent.induct) (auto split: option.splits)

lemma check_adjacent_sorted_wrt:
  assumes "check_adjacent f xs = None"
    and step: "\<And>x y. f x y = None \<Longrightarrow> R x y"
    and tr: "transp R"
  shows "sorted_wrt R xs"
proof -
  have "successively R xs"
    using assms(1) step by (auto simp: check_adjacent_None elim: successively_mono)
  with tr show ?thesis by (simp add: successively_conv_sorted_wrt)
qed

lemma sorted_wrt_hd_last:
  assumes "sorted_wrt R xs" and "reflp R" and "xs \<noteq> []"
  shows "R (hd xs) (last xs)"
  using assms by (cases xs) (auto simp: reflp_def)

lemma sorted_wrt_last:
  assumes "sorted_wrt R xs" and "reflp R" and "x \<in> set xs"
  shows "R x (last xs)"
  using assms by (induction xs) (auto simp: reflp_def split: if_splits)

section \<open>Signed 64-bit arithmetic\<close>

lemma sint_int64_bounds: "- (2 ^ 63) \<le> sint (a :: int64)" "sint a < 2 ^ 63"
  using sint_greater_eq [of a] sint_lt [of a] by simp_all

lemma sint_diff_exact:
  "- (2 ^ 63) \<le> sint a - sint b \<Longrightarrow> sint a - sint b < 2 ^ 63 \<Longrightarrow>
    sint (a - b :: int64) = sint a - sint b"
  by (simp add: sint_word_ariths signed_take_bit_int_eq_self)

lemma sint_sum_exact:
  "- (2 ^ 63) \<le> sint a + sint b \<Longrightarrow> sint a + sint b < 2 ^ 63 \<Longrightarrow>
    sint (a + b :: int64) = sint a + sint b"
  by (simp add: sint_word_ariths signed_take_bit_int_eq_self)

lemma sint_diff_wraps:
  assumes "2 ^ 63 \<le> sint a - sint b"
  shows "sint (a - b :: int64) = sint a - sint b - 2 ^ 64"
proof -
  have "sint a - sint b < 2 ^ 64" using sint_int64_bounds [of a] sint_int64_bounds [of b] by simp
  then have "(sint a - sint b + 2 ^ 63 - 2 ^ 64) mod 2 ^ 64 = sint a - sint b + 2 ^ 63 - 2 ^ 64"
    using assms by (intro mod_pos_pos_trivial) simp_all
  then have "(sint a - sint b + 2 ^ 63) mod 2 ^ 64 = sint a - sint b + 2 ^ 63 - 2 ^ 64"
    by (simp only: minus_mod_self2)
  then show ?thesis
    by (simp add: sint_word_ariths signed_take_bit_eq_take_bit_shift take_bit_eq_mod)
qed

section \<open>float64 values under comparison\<close>

text \<open>
  The verifier only compares and truncates float64 values, so a value is a finite number
  (binary64 values are rationals; \<open>-0\<close> and \<open>+0\<close> compare equal) or one of the three
  specials; comparison with NaN is false.
\<close>

datatype f64 = Finite rat | PosInf | NegInf | NaN

fun f64_less :: "f64 \<Rightarrow> f64 \<Rightarrow> bool" where
  "f64_less NaN _ = False"
| "f64_less _ NaN = False"
| "f64_less (Finite a) (Finite b) = (a < b)"
| "f64_less NegInf b = (b \<noteq> NegInf)"
| "f64_less _ NegInf = False"
| "f64_less a PosInf = (a \<noteq> PosInf)"
| "f64_less PosInf _ = False"

fun f64_finite :: "f64 \<Rightarrow> bool" where
  "f64_finite (Finite _) = True"
| "f64_finite _ = False"

text \<open>Conversion of an int64 to float64 rounds to 53 significant bits, ties to even.\<close>

definition round53 :: "int \<Rightarrow> int" where
  "round53 n =
     (let m = nat \<bar>n\<bar>;
          k = (case filter (\<lambda>k. m div 2 ^ k < 2 ^ 53) [0..<12] of [] \<Rightarrow> 11 | k # _ \<Rightarrow> k);
          q = m div 2 ^ k; r = 2 * (m mod 2 ^ k);
          q' = (if 2 ^ k < r \<or> (r = 2 ^ k \<and> odd q) then Suc q else q)
      in sgn n * int (q' * 2 ^ k))"

definition f64_of_int64 :: "int64 \<Rightarrow> f64" where
  "f64_of_int64 w = Finite (of_int (round53 (sint w)))"

lemma f64_less_irrefl [simp]: "\<not> f64_less x x"
  by (cases x) auto

lemma f64_less_trans: "f64_less x y \<Longrightarrow> f64_less y z \<Longrightarrow> f64_less x z"
  by (cases x; cases y; cases z) auto

text \<open>Not being greater is transitive on values that are not NaN.\<close>

lemma f64_not_greater_trans:
  "\<not> f64_less y x \<Longrightarrow> \<not> f64_less z y \<Longrightarrow> y \<noteq> NaN \<Longrightarrow> \<not> f64_less z x"
  by (cases x; cases y; cases z) auto

section \<open>Durations\<close>

text \<open>
  A \<open>time.Duration\<close> counts nanoseconds. \<open>int64(d.Seconds())\<close> truncates towards zero; the
  rounding of the intermediate float64 cannot be seen for durations below \<open>2 ^ 23\<close> seconds,
  nor for whole seconds.
\<close>

definition second :: int where
  "second = 1000000000"

definition duration_secs :: "int \<Rightarrow> int" where
  "duration_secs d = sgn d * (\<bar>d\<bar> div second)"

lemma duration_secs_whole [simp]: "duration_secs (n * second) = n"
  by (simp add: duration_secs_def second_def abs_mult sgn_mult sgn_if)

lemma duration_secs_nonpos: "d \<le> 0 \<Longrightarrow> duration_secs d \<le> 0"
  unfolding duration_secs_def
  by (rule mult_nonpos_nonneg) (auto simp: sgn_if second_def pos_imp_zdiv_nonneg_iff)

text \<open>\<open>time.Duration(n) * time.Second\<close> on int64, with its wrap-around.\<close>

definition seconds_duration :: "int64 \<Rightarrow> int" where
  "seconds_duration n = sint (n * 1000000000 :: int64)"

section \<open>Association lists as Go maps\<close>

text \<open>
  A Go map is an association list with distinct keys; the order is immaterial and its length
  is the length of the list.
\<close>

definition map_keys_distinct :: "('k \<times> 'v) list \<Rightarrow> bool" where
  "map_keys_distinct m = distinct (map fst m)"

lemma map_of_filter_snd:
  "map_keys_distinct m \<Longrightarrow>
    map_of (filter (\<lambda>e. P (snd e)) m) k =
      (case map_of m k of Some v \<Rightarrow> if P v then Some v else None | None \<Rightarrow> None)"
proof (induction m)
  case (Cons e m)
  then show ?case
    by (cases e) (auto simp: map_keys_distinct_def map_of_eq_None_iff split: option.splits)
qed simp

lemma map_keys_distinct_simps [simp]:
  "map_keys_distinct []"
  "map_keys_distinct m \<Longrightarrow> map_keys_distinct (AList.update k v m)"
  "map_keys_distinct m \<Longrightarrow> map_keys_distinct (AList.delete k m)"
  "map_keys_distinct m \<Longrightarrow> map_keys_distinct (filter Q m)"
  by (simp_all add: map_keys_distinct_def distinct_update distinct_delete distinct_map_filter)

lemma length_AList_update:
  "length (AList.update k v m) = (if map_of m k = None then Suc (length m) else length m)"
  by (induction m) auto

lemma length_AList_delete: "length (AList.delete k m) \<le> length m"
  by (simp add: AList.delete_eq)

section \<open>Ranks of interleaved calls\<close>

text \<open>A step that lowers the rank of one of several calls lowers the rank of the whole.\<close>

lemma sum_rank_update:
  fixes rank :: "'a \<Rightarrow> nat"
  assumes "i < length xs" and "rank y < rank (xs ! i)"
  shows "sum_list (map rank (xs[i := y])) < sum_list (map rank xs)"
proof -
  have "rank (xs ! i) \<le> sum_list (map rank xs)" using elem_le_sum_list [of i "map rank xs"] assms(1) by simp
  with assms show ?thesis by (simp add: map_update sum_list_update)
qed

end
