(* ===== verification/DRS_Text.thy ===== *)
theory DRS_Text
  imports DRS_Prelude
begin

text \<open>
  Go strings as byte strings (one \<^typ>\<open>char\<close> per byte) and the text functions of Go's
  standard library that the verifier calls: splitting, trimming, searching, percent
  decoding, unpadded base64url, lower-case hex, decimal integers and UTF-8 runes.
\<close>

section \<open>Searching, splitting and joining\<close>

fun index_byte :: "char \<Rightarrow> string \<Rightarrow> nat option" where
  "index_byte c [] = None"
| "index_byte c (x # xs) = (if x = c then Some 0 else map_option Suc (index_byte c xs))"

text \<open>\<open>strings.Index\<close>.\<close>

fun index_sub :: "string \<Rightarrow> string \<Rightarrow> nat option" where
  "index_sub pat [] = (if pat = [] then Some 0 else None)"
| "index_sub pat (x # xs) =
     (if prefix pat (x # xs) then Some 0 else map_option Suc (index_sub pat xs))"

definition contains_sub :: "string \<Rightarrow> string \<Rightarrow> bool" where
  "contains_sub s pat = (index_sub pat s \<noteq> None)"

text \<open>\<open>strings.ContainsAny\<close> for a set of ASCII characters.\<close>

definition contains_any :: "string \<Rightarrow> string \<Rightarrow> bool" where
  "contains_any s cs = list_ex (\<lambda>c. c \<in> set cs) s"

text \<open>\<open>strings.Split\<close> on a one-byte separator.\<close>

fun split_on :: "char \<Rightarrow> string \<Rightarrow> string list" where
  "split_on c [] = [[]]"
| "split_on c (x # xs) =
     (if x = c then [] # split_on c xs
      else (case split_on c xs of [] \<Rightarrow> [[x]] | p # ps \<Rightarrow> (x # p) # ps))"

text \<open>\<open>strings.SplitN\<close>: at most \<open>n\<close> pieces, the last one holds the rest.\<close>

fun split_n :: "char \<Rightarrow> nat \<Rightarrow> string \<Rightarrow> string list" where
  "split_n c 0 s = []"
| "split_n c (Suc n) s =
     (if n = 0 then [s]
      else case index_byte c s of
             None \<Rightarrow> [s]
           | Some i \<Rightarrow> take i s # split_n c n (drop (Suc i) s))"

fun join_with :: "string \<Rightarrow> string list \<Rightarrow> string" where
  "join_with sep [] = []"
| "join_with sep [p] = p"
| "join_with sep (p # q # ps) = p @ sep @ join_with sep (q # ps)"

lemma split_on_nonempty [simp]: "split_on c s \<noteq> []"
  by (cases s) (auto split: list.splits)

lemma split_on_no_sep: "p \<in> set (split_on c s) \<Longrightarrow> c \<notin> set p"
  by (induction s arbitrary: p) (auto split: list.splits if_splits)

lemma join_with_ConsCons: "ps \<noteq> [] \<Longrightarrow> join_with sep (p # ps) = p @ sep @ join_with sep ps"
  by (cases ps) auto

lemma join_split_on: "join_with [c] (split_on c s) = s"
proof (induction s)
  case (Cons x xs)
  obtain p ps where "split_on c xs = p # ps" by (cases "split_on c xs") auto
  with Cons show ?case by (cases ps) auto
qed simp

lemma split_on_id: "c \<notin> set s \<Longrightarrow> split_on c s = [s]"
  by (induction s) auto

lemma split_on_append: "c \<notin> set p \<Longrightarrow> split_on c (p @ c # s) = p # split_on c s"
  by (induction p) auto

lemma split_join:
  "ps \<noteq> [] \<Longrightarrow> \<forall>p \<in> set ps. c \<notin> set p \<Longrightarrow> split_on c (join_with [c] ps) = ps"
  by (induction "[c]" ps rule: join_with.induct) (auto simp: split_on_id split_on_append)

lemma index_byte_None: "index_byte c s = None \<longleftrightarrow> c \<notin> set s"
  by (induction s) auto

lemma index_byte_Some:
  "index_byte c s = Some i \<Longrightarrow> i < length s \<and> s ! i = c \<and> c \<notin> set (take i s)"
  by (induction s arbitrary: i) (auto split: if_splits)

lemma index_byte_split:
  assumes "index_byte c s = Some i"
  shows "s = take i s @ c # drop (Suc i) s"
  using index_byte_Some [OF assms] by (auto simp: id_take_nth_drop)

lemma index_sub_Some: "index_sub pat s = Some i \<Longrightarrow> i \<le> length s \<and> prefix pat (drop i s)"
  by (induction s arbitrary: i) (auto split: if_splits)

text \<open>A token that splits into exactly three parts has exactly two dots.\<close>

lemma split_n_three:
  assumes "split_n c 4 s = [a, b, d]"
  shows "s = a @ c # b @ c # d \<and> c \<notin> set a \<and> c \<notin> set b \<and> c \<notin> set d"
proof -
  have n4: "split_n c (Suc (Suc (Suc (Suc 0)))) s = [a, b, d]"
    using assms by (simp add: eval_nat_numeral)
  then obtain i where i: "index_byte c s = Some i" "a = take i s"
      "split_n c (Suc (Suc (Suc 0))) (drop (Suc i) s) = [b, d]"
    by (auto split: option.splits)
  let ?r = "drop (Suc i) s"
  from i(3) obtain j where j: "index_byte c ?r = Some j" "b = take j ?r"
      "split_n c (Suc (Suc 0)) (drop (Suc j) ?r) = [d]"
    by (auto simp del: drop_drop split: option.splits)
  let ?t = "drop (Suc j) ?r"
  from j(3) have d: "d = ?t" "index_byte c ?t = None"
    by (auto simp del: drop_drop split: option.splits)
  show ?thesis
    using index_byte_split [OF i(1)] index_byte_split [OF j(1)]
      index_byte_Some [OF i(1)] index_byte_Some [OF j(1)] d i(2) j(2)
    by (auto simp: index_byte_None simp del: drop_drop)
qed

section \<open>Trimming white space\<close>

text \<open>
  \<open>strings.TrimSpace\<close> strips code points with \<open>unicode.IsSpace\<close>; each is matched here in
  its UTF-8 encoding (the ASCII ones, U+0085, U+00A0, U+1680, U+2000 to U+200A, U+2028,
  U+2029, U+202F, U+205F, U+3000).
\<close>

definition bytes_of :: "nat list \<Rightarrow> string" where
  "bytes_of = map char_of"

definition go_spaces :: "string list" where
  "go_spaces =
     map (\<lambda>n. bytes_of [n]) [9, 10, 11, 12, 13, 32] @
     [bytes_of [0xC2, 0x85], bytes_of [0xC2, 0xA0], bytes_of [0xE1, 0x9A, 0x80]] @
     map (\<lambda>n. bytes_of [0xE2, 0x80, n]) ([0x80..<0x8B] @ [0xA8, 0xA9, 0xAF]) @
     [bytes_of [0xE2, 0x81, 0x9F], bytes_of [0xE3, 0x80, 0x80]]"

definition space_prefix :: "string \<Rightarrow> nat" where
  "space_prefix s = (case filter (\<lambda>w. prefix w s) go_spaces of [] \<Rightarrow> 0 | w # _ \<Rightarrow> length w)"

definition space_suffix :: "string \<Rightarrow> nat" where
  "space_suffix s = (case filter (\<lambda>w. suffix w s) go_spaces of [] \<Rightarrow> 0 | w # _ \<Rightarrow> length w)"

lemma go_spaces_nonempty: "w \<in> set go_spaces \<Longrightarrow> w \<noteq> []"
  by (auto simp: go_spaces_def bytes_of_def)

lemma space_prefix_pos: "s = [] \<Longrightarrow> space_prefix s = 0"
proof -
  assume "s = []"
  then have "filter (\<lambda>w. prefix w s) go_spaces = []"
    using go_spaces_nonempty by (auto simp: filter_empty_conv)
  then show ?thesis by (simp add: space_prefix_def)
qed

lemma space_suffix_pos: "s = [] \<Longrightarrow> space_suffix s = 0"
proof -
  assume "s = []"
  then have "filter (\<lambda>w. suffix w s) go_spaces = []"
    using go_spaces_nonempty by (auto simp: filter_empty_conv)
  then show ?thesis by (simp add: space_suffix_def)
qed

function trim_left :: "string \<Rightarrow> string" where
  "trim_left s = (if space_prefix s = 0 then s else trim_left (drop (space_prefix s) s))"
  by pat_completeness auto
termination
proof (relation "measure length", goal_cases)
  case (2 s)
  then show ?case using space_prefix_pos [of s] by (cases s) auto
qed auto

function trim_right :: "string \<Rightarrow> string" where
  "trim_right s =
     (if space_suffix s = 0 then s else trim_right (take (length s - space_suffix s) s))"
  by pat_completeness auto
termination
proof (relation "measure length", goal_cases)
  case (2 s)
  then show ?case using space_suffix_pos [of s] by (cases s) auto
qed auto

declare trim_left.simps [simp del] trim_right.simps [simp del]

definition trim_space :: "string \<Rightarrow> string" where
  "trim_space s = trim_right (trim_left s)"

lemma go_spaces_ends:
  "w \<in> set go_spaces \<Longrightarrow>
    (of_char (hd w) \<le> (32 :: nat) \<or> 128 \<le> (of_char (hd w) :: nat)) \<and>
    (of_char (last w) \<le> (32 :: nat) \<or> 128 \<le> (of_char (last w) :: nat))"
  by (auto simp: go_spaces_def bytes_of_def)

definition visible :: "char \<Rightarrow> bool" where
  "visible c = (32 < (of_char c :: nat) \<and> (of_char c :: nat) < 128)"

lemma trim_space_visible: "visible (hd s) \<Longrightarrow> visible (last s) \<Longrightarrow> trim_space s = s"
proof -
  assume v: "visible (hd s)" "visible (last s)"
  have "\<not> prefix w s \<and> \<not> suffix w s" if "w \<in> set go_spaces" for w
    using go_spaces_ends [OF that] go_spaces_nonempty [OF that] v
    by (auto simp: prefix_def suffix_def visible_def)
  then have "space_prefix s = 0" "space_suffix s = 0"
    by (auto simp: space_prefix_def space_suffix_def filter_empty_conv split: list.split
        dest!: filter_eq_ConsD)
  then show ?thesis by (simp add: trim_space_def trim_left.simps trim_right.simps)
qed

section \<open>Percent decoding\<close>

definition code_of :: "char \<Rightarrow> nat" where
  "code_of c = of_char c"

definition is_digit :: "char \<Rightarrow> bool" where
  "is_digit c = (48 \<le> code_of c \<and> code_of c \<le> 57)"

definition is_lower_hex :: "char \<Rightarrow> bool" where
  "is_lower_hex c = (is_digit c \<or> (97 \<le> code_of c \<and> code_of c \<le> 102))"

definition hex_val :: "char \<Rightarrow> nat option" where
  "hex_val c =
     (if is_digit c then Some (code_of c - 48)
      else if 97 \<le> code_of c \<and> code_of c \<le> 102 then Some (code_of c - 87)
      else if 65 \<le> code_of c \<and> code_of c \<le> 70 then Some (code_of c - 55)
      else None)"

text \<open>\<open>url.PathUnescape\<close>: \<open>None\<close> is the \<^verbatim>\<open>EscapeError\<close> of a \<open>%\<close> without two hex digits.\<close>

fun path_unescape :: "string \<Rightarrow> string option" where
  "path_unescape [] = Some []"
| "path_unescape (c # cs) =
     (if c = CHR ''%'' then
        (case cs of
           a # b # rest \<Rightarrow>
             (case (hex_val a, hex_val b) of
                (Some x, Some y) \<Rightarrow> map_option (Cons (char_of (16 * x + y))) (path_unescape rest)
              | _ \<Rightarrow> None)
         | _ \<Rightarrow> None)
      else map_option (Cons c) (path_unescape cs))"

lemma path_unescape_plain: "CHR ''%'' \<notin> set s \<Longrightarrow> path_unescape s = Some s"
  by (induction s rule: path_unescape.induct) auto

section \<open>Unpadded base64url\<close>

definition b64_val :: "char \<Rightarrow> nat option" where
  "b64_val c =
     (let n = code_of c in
      if 65 \<le> n \<and> n \<le> 90 then Some (n - 65)
      else if 97 \<le> n \<and> n \<le> 122 then Some (n - 71)
      else if 48 \<le> n \<and> n \<le> 57 then Some (n + 4)
      else if n = 45 then Some 62
      else if n = 95 then Some 63
      else None)"

definition b64_char :: "nat \<Rightarrow> char" where
  "b64_char v =
     char_of (if v < 26 then v + 65 else if v < 52 then v + 71 else if v < 62 then v - 4
              else if v = 62 then 45 else 95)"

fun b64_groups :: "nat list \<Rightarrow> string option" where
  "b64_groups [] = Some []"
| "b64_groups [a] = None"
| "b64_groups [a, b] = Some [char_of (a * 4 + b div 16)]"
| "b64_groups [a, b, c] = Some [char_of (a * 4 + b div 16), char_of (b mod 16 * 16 + c div 4)]"
| "b64_groups (a # b # c # d # rest) =
     map_option (\<lambda>r. char_of (a * 4 + b div 16) # char_of (b mod 16 * 16 + c div 4)
                       # char_of (c mod 4 * 64 + d) # r)
       (b64_groups rest)"

text \<open>
  \<open>base64.RawURLEncoding.DecodeString\<close>: line breaks are skipped, unused trailing bits are not
  checked (the encoding is not in strict mode), padding is not accepted.
\<close>

definition raw_url_decode :: "string \<Rightarrow> string option" where
  "raw_url_decode s =
     (case those (map b64_val (filter (\<lambda>c. code_of c \<noteq> 10 \<and> code_of c \<noteq> 13) s)) of
        None \<Rightarrow> None
      | Some vs \<Rightarrow> b64_groups vs)"

text \<open>The encoder of the standard library, to state that decoding inverts it.\<close>

fun b64_split :: "nat list \<Rightarrow> nat list" where
  "b64_split [] = []"
| "b64_split [x] = [x div 4, x mod 4 * 16]"
| "b64_split [x, y] = [x div 4, x mod 4 * 16 + y div 16, y mod 16 * 4]"
| "b64_split (x # y # z # rest) =
     x div 4 # (x mod 4 * 16 + y div 16) # (y mod 16 * 4 + z div 64) # z mod 64 # b64_split rest"

definition raw_url_encode :: "string \<Rightarrow> string" where
  "raw_url_encode s = map b64_char (b64_split (map code_of s))"

lemma code_of_less [simp]: "code_of c < 256"
  by (simp add: code_of_def)

lemma code_of_char_of [simp]: "code_of (char_of n) = n mod 256"
  by (simp add: code_of_def)

lemma char_of_code_of [simp]: "char_of (code_of c) = c"
  by (simp add: code_of_def)

lemma b64_val_char: "v < 64 \<Longrightarrow> b64_val (b64_char v) = Some v"
  by (auto simp: b64_val_def b64_char_def Let_def)

lemma b64_char_visible: "v < 64 \<Longrightarrow> code_of (b64_char v) \<noteq> 10 \<and> code_of (b64_char v) \<noteq> 13"
  by (auto simp: b64_char_def)

lemma b64_split_small: "\<forall>x \<in> set xs. x < 256 \<Longrightarrow> \<forall>v \<in> set (b64_split xs). v < 64"
  by (induction xs rule: b64_split.induct) auto

lemma b64_groups_split:
  "\<forall>x \<in> set xs. x < 256 \<Longrightarrow> b64_groups (b64_split xs) = Some (map char_of xs)"
proof (induction xs rule: b64_split.induct)
  case (4 x y z rest)
  have "x div 4 * 4 + (x mod 4 * 16 + y div 16) div 16 = x"
    "(x mod 4 * 16 + y div 16) mod 16 * 16 + (y mod 16 * 4 + z div 64) div 4 = y"
    "(y mod 16 * 4 + z div 64) mod 4 * 64 + z mod 64 = z"
    using "4.prems" by auto
  with 4 show ?case by simp
next
  case (3 x y)
  have "x div 4 * 4 + (x mod 4 * 16 + y div 16) div 16 = x"
    "(x mod 4 * 16 + y div 16) mod 16 * 16 + (y mod 16 * 4) div 4 = y"
    using "3.prems" by auto
  then show ?case by simp
qed auto

lemma those_map_Some: "\<forall>v \<in> set vs. f (g v) = Some v \<Longrightarrow> those (map f (map g vs)) = Some vs"
  by (induction vs) auto

lemma raw_url_decode_encode: "raw_url_decode (raw_url_encode s) = Some s"
proof -
  let ?vs = "b64_split (map code_of s)"
  have small: "\<forall>v \<in> set ?vs. v < 64" by (rule b64_split_small) auto
  then have "filter (\<lambda>c. code_of c \<noteq> 10 \<and> code_of c \<noteq> 13) (map b64_char ?vs) = map b64_char ?vs"
    by (auto simp: filter_id_conv b64_char_visible)
  moreover have "those (map b64_val (map b64_char ?vs)) = Some ?vs"
    using small by (intro those_map_Some) (auto simp: b64_val_char)
  ultimately have "raw_url_decode (raw_url_encode s) = b64_groups ?vs"
    by (simp add: raw_url_decode_def raw_url_encode_def del: map_map)
  also have "\<dots> = Some (map char_of (map code_of s))"
    by (rule b64_groups_split) auto
  finally show ?thesis by (simp add: comp_def)
qed

section \<open>Hexadecimal and decimal numbers\<close>

definition hex_digit :: "nat \<Rightarrow> char" where
  "hex_digit n = char_of (if n < 10 then n + 48 else n + 87)"

text \<open>\<open>hex.EncodeToString\<close> and the \<^verbatim>\<open>%x\<close> verb on bytes.\<close>

definition hex_encode :: "byte list \<Rightarrow> string" where
  "hex_encode bs = concat (map (\<lambda>b. [hex_digit (unat b div 16), hex_digit (unat b mod 16)]) bs)"

lemma hex_digit_lower: "n < 16 \<Longrightarrow> is_lower_hex (hex_digit n)"
  by (auto simp: is_lower_hex_def is_digit_def hex_digit_def)

lemma hex_digit_inj: "m < 16 \<Longrightarrow> n < 16 \<Longrightarrow> hex_digit m = hex_digit n \<longleftrightarrow> m = n"
proof -
  assume mn: "m < 16" "n < 16"
  have code: "code_of (hex_digit k) = (if k < 10 then k + 48 else k + 87)" if "k < 16" for k
    using that by (simp add: hex_digit_def)
  show ?thesis
  proof
    assume "hex_digit m = hex_digit n"
    with code [OF mn(1)] code [OF mn(2)]
    have "(if m < 10 then m + 48 else m + 87) = (if n < 10 then n + 48 else n + 87)" by metis
    then show "m = n" using mn by (simp split: if_splits)
  qed simp
qed

lemma unat_byte_less: "unat (b :: byte) < 256"
  using unsigned_less [of b, where 'a = nat] by simp

lemma length_hex_encode [simp]: "length (hex_encode bs) = 2 * length bs"
  by (induction bs) (auto simp: hex_encode_def)

lemma hex_encode_lower: "c \<in> set (hex_encode bs) \<Longrightarrow> is_lower_hex c"
proof -
  have "unat b div 16 < 16" for b :: byte using unat_byte_less [of b] by simp
  then show "c \<in> set (hex_encode bs) \<Longrightarrow> is_lower_hex c"
    by (auto simp: hex_encode_def intro: hex_digit_lower)
qed

lemma hex_encode_inj: "hex_encode as = hex_encode bs \<longleftrightarrow> as = bs"
proof
  show "hex_encode as = hex_encode bs \<Longrightarrow> as = bs"
  proof (induction as arbitrary: bs)
    case Nil
    then show ?case by (cases bs) (auto simp: hex_encode_def)
  next
    case (Cons a as)
    then obtain b bs' where bs: "bs = b # bs'" by (cases bs) (auto simp: hex_encode_def)
    have lt: "unat a div 16 < 16" "unat b div 16 < 16"
      using unat_byte_less [of a] unat_byte_less [of b] by simp_all
    from Cons.prems bs have "unat a div 16 = unat b div 16" "unat a mod 16 = unat b mod 16"
        and tl: "hex_encode as = hex_encode bs'"
      using lt by (auto simp: hex_encode_def hex_digit_inj)
    then have "unat a = unat b" by (metis div_mult_mod_eq)
    then have "a = b" by (rule unsigned_word_eqI)
    with Cons.IH [OF tl] bs show ?case by simp
  qed
qed auto

fun dec_digits :: "nat \<Rightarrow> string" where
  "dec_digits n =
     (if n < 10 then [char_of (n + 48)] else dec_digits (n div 10) @ [char_of (n mod 10 + 48)])"

declare dec_digits.simps [simp del]

definition dec_value :: "string \<Rightarrow> nat" where
  "dec_value s = foldl (\<lambda>v c. v * 10 + (code_of c - 48)) 0 s"

text \<open>\<open>strconv.FormatUint(n, 10)\<close> and \<open>strconv.ParseUint(s, 10, 64)\<close>.\<close>

definition format_uint :: "uint64 \<Rightarrow> string" where
  "format_uint w = dec_digits (unat w)"

definition parse_uint :: "string \<Rightarrow> uint64 option" where
  "parse_uint s =
     (if s = [] \<or> \<not> list_all is_digit s then None
      else if dec_value s < 2 ^ 64 then Some (of_nat (dec_value s)) else None)"

text \<open>\<open>strconv.ParseInt(s, 10, 64)\<close>, which \<open>strconv.Atoi\<close> agrees with where \<^verbatim>\<open>int\<close> has 64 bits.\<close>

definition parse_int :: "string \<Rightarrow> int64 option" where
  "parse_int s =
     (let neg = (s \<noteq> [] \<and> hd s = CHR ''-'');
          digits = (if s \<noteq> [] \<and> hd s \<in> set ''+-'' then tl s else s)
      in if digits = [] \<or> \<not> list_all is_digit digits then None
         else if neg then (if dec_value digits \<le> 2 ^ 63
                           then Some (word_of_int (- int (dec_value digits))) else None)
         else (if dec_value digits < 2 ^ 63 then Some (of_nat (dec_value digits)) else None))"

lemma dec_digits_props:
  "dec_digits n \<noteq> [] \<and> list_all is_digit (dec_digits n) \<and> dec_value (dec_digits n) = n"
proof (induction n rule: dec_digits.induct)
  case (1 n)
  show ?case
  proof (cases "n < 10")
    case True
    then show ?thesis by (subst (1 2 3) dec_digits.simps) (auto simp: is_digit_def dec_value_def)
  next
    case False
    with 1 have IH: "list_all is_digit (dec_digits (n div 10))"
        "dec_value (dec_digits (n div 10)) = n div 10" by auto
    have eq: "dec_digits n = dec_digits (n div 10) @ [char_of (n mod 10 + 48)]"
      using False by (subst dec_digits.simps) simp
    have "n mod 10 < 10" by simp
    then have "code_of (char_of (n mod 10 + 48)) = n mod 10 + 48"
      by (simp del: mod_less_divisor)
    then have "is_digit (char_of (n mod 10 + 48))"
        "code_of (char_of (n mod 10 + 48)) - 48 = n mod 10"
      by (auto simp: is_digit_def)
    with IH show ?thesis unfolding eq by (auto simp: dec_value_def)
  qed
qed

lemma parse_format_uint: "parse_uint (format_uint w) = Some w"
  using dec_digits_props [of "unat w"] unsigned_less [of w, where 'a = nat]
  by (simp add: parse_uint_def format_uint_def)

lemma format_uint_digits: "c \<in> set (format_uint w) \<Longrightarrow> is_digit c"
  using dec_digits_props [of "unat w"] by (auto simp: format_uint_def list_all_iff)

section \<open>UTF-8 runes\<close>

definition utf8_cont :: "nat \<Rightarrow> bool" where
  "utf8_cont b = (0x80 \<le> b \<and> b \<le> 0xBF)"

text \<open>
  \<open>utf8.DecodeRune\<close>: the rune and its width; an invalid encoding yields U+FFFD with width 1.
\<close>

definition decode_rune :: "nat list \<Rightarrow> nat \<times> nat" where
  "decode_rune bs =
     (case bs of
        [] \<Rightarrow> (0xFFFD, 0)
      | b # cs \<Rightarrow>
          if b < 0x80 then (b, 1)
          else if 0xC2 \<le> b \<and> b \<le> 0xDF \<and> 1 \<le> length cs \<and> utf8_cont (cs ! 0)
            then ((b - 0xC0) * 64 + (cs ! 0 - 0x80), 2)
          else if 0xE0 \<le> b \<and> b \<le> 0xEF \<and> 2 \<le> length cs \<and> utf8_cont (cs ! 0) \<and> utf8_cont (cs ! 1)
              \<and> (b = 0xE0 \<longrightarrow> 0xA0 \<le> cs ! 0) \<and> (b = 0xED \<longrightarrow> cs ! 0 \<le> 0x9F)
            then ((b - 0xE0) * 4096 + (cs ! 0 - 0x80) * 64 + (cs ! 1 - 0x80), 3)
          else if 0xF0 \<le> b \<and> b \<le> 0xF4 \<and> 3 \<le> length cs \<and> utf8_cont (cs ! 0) \<and> utf8_cont (cs ! 1)
              \<and> utf8_cont (cs ! 2) \<and> (b = 0xF0 \<longrightarrow> 0x90 \<le> cs ! 0) \<and> (b = 0xF4 \<longrightarrow> cs ! 0 \<le> 0x8F)
            then ((b - 0xF0) * 262144 + (cs ! 0 - 0x80) * 4096 + (cs ! 1 - 0x80) * 64
                   + (cs ! 2 - 0x80), 4)
          else (0xFFFD, 1))"

text \<open>The runes a Go \<^verbatim>\<open>range\<close> loop over a string visits.\<close>

fun runes_of :: "nat list \<Rightarrow> nat list" where
  "runes_of [] = []"
| "runes_of (b # bs) = fst (decode_rune (b # bs)) # runes_of (drop (snd (decode_rune (b # bs)) - 1) bs)"

definition go_runes :: "string \<Rightarrow> nat list" where
  "go_runes s = runes_of (map code_of s)"

definition ascii :: "string \<Rightarrow> bool" where
  "ascii s = list_all (\<lambda>c. code_of c < 128) s"

lemma go_runes_ascii: "ascii s \<Longrightarrow> go_runes s = map code_of s"
  by (induction s) (auto simp: go_runes_def ascii_def decode_rune_def)

section \<open>Quoting\<close>

definition hex_pad :: "nat \<Rightarrow> nat \<Rightarrow> string" where
  "hex_pad width n = map (\<lambda>i. hex_digit (n div 16 ^ i mod 16)) (rev [0..<width])"

definition escape_ascii :: "nat \<Rightarrow> string" where
  "escape_ascii b =
     (if b = 34 then bytes_of [92, 34] else if b = 92 then bytes_of [92, 92]
      else if b = 7 then bytes_of [92, 97] else if b = 8 then bytes_of [92, 98]
      else if b = 12 then bytes_of [92, 102] else if b = 10 then bytes_of [92, 110]
      else if b = 13 then bytes_of [92, 114] else if b = 9 then bytes_of [92, 116]
      else if b = 11 then bytes_of [92, 118]
      else if b < 32 \<or> b = 127 then bytes_of [92, 120] @ hex_pad 2 b
      else bytes_of [b])"

text \<open>
  The \<^verbatim>\<open>%q\<close> verb (\<open>strconv.Quote\<close>); whether a rune beyond ASCII is printable is decided by a
  Unicode table of the standard library, the parameter \<open>printable\<close>.
\<close>

fun quote_bytes :: "(nat \<Rightarrow> bool) \<Rightarrow> nat list \<Rightarrow> string" where
  "quote_bytes printable [] = []"
| "quote_bytes printable (b # bs) =
     (let (r, w) = decode_rune (b # bs);
          here = (if b < 128 then escape_ascii b
                  else if r = 0xFFFD \<and> w = 1 then bytes_of [92, 120] @ hex_pad 2 b
                  else if printable r then bytes_of (take w (b # bs))
                  else if r < 0x10000 then bytes_of [92, 117] @ hex_pad 4 r
                  else bytes_of [92, 85] @ hex_pad 8 r)
      in here @ quote_bytes printable (drop (w - 1) bs))"

definition go_quote :: "(nat \<Rightarrow> bool) \<Rightarrow> string \<Rightarrow> string" where
  "go_quote printable s = bytes_of [34] @ quote_bytes printable (map code_of s) @ bytes_of [34]"

section \<open>Host and port\<close>

fun last_index_byte :: "char \<Rightarrow> string \<Rightarrow> nat option" where
  "last_index_byte c [] = None"
| "last_index_byte c (x # xs) =
     (case last_index_byte c xs of
        Some i \<Rightarrow> Some (Suc i)
      | None \<Rightarrow> if x = c then Some 0 else None)"

text \<open>\<open>net.SplitHostPort\<close>; \<open>None\<close> is any of its address errors.\<close>

definition split_host_port :: "string \<Rightarrow> (string \<times> string) option" where
  "split_host_port s =
     (case last_index_byte CHR '':'' s of
        None \<Rightarrow> None
      | Some i \<Rightarrow>
          let port = drop (Suc i) s in
          if hd s = CHR ''['' then
            (case index_byte CHR '']'' s of
               None \<Rightarrow> None
             | Some e \<Rightarrow>
                 if Suc e = i \<and> CHR ''['' \<notin> set (drop 1 s) \<and> CHR '']'' \<notin> set (drop (Suc e) s)
                 then Some (take (e - 1) (drop 1 s), port) else None)
          else
            let host = take i s in
            if CHR '':'' \<in> set host \<or> CHR ''['' \<in> set s \<or> CHR '']'' \<in> set s then None
            else Some (host, port))"

text \<open>\<open>net.JoinHostPort\<close>.\<close>

definition join_host_port :: "string \<Rightarrow> string \<Rightarrow> string" where
  "join_host_port host port =
     (if CHR '':'' \<in> set host then ''['' @ host @ '']:'' @ port else host @ '':'' @ port)"

text \<open>\<open>strconv.QuoteRune\<close>, for the runes below 256 that the verifier quotes.\<close>

definition quote_rune :: "(nat \<Rightarrow> bool) \<Rightarrow> nat \<Rightarrow> string" where
  "quote_rune printable r =
     bytes_of [39] @
     (if r = 39 then bytes_of [92, 39] else if r = 34 then bytes_of [34]
      else if r < 128 then escape_ascii r
      else if printable r then bytes_of [0xC0 + r div 64, 0x80 + r mod 64]
      else bytes_of [92, 117] @ hex_pad 4 r) @
     bytes_of [39]"

end
