(* ===== verification/DRS_Types.thy ===== *)
theory DRS_Types
  imports DRS_Text
begin

text \<open>
  The data of \<^verbatim>\<open>pkg/types/types.go\<close>: policies, consent records, receipts, bundles and
  verification results. Go pointers that may be nil are options; a nil slice and an empty
  slice are both \<open>[]\<close> (the code only looks at the length). Field names carry a prefix where
  two structs share one.
\<close>

text \<open>
  Values of type \<^verbatim>\<open>interface{}\<close>. \<^verbatim>\<open>json.Unmarshal\<close> produces nil, bool, float64, string,
  slices and maps; the other numeric types are the remaining cases of the type switches.
\<close>

datatype gval =
    GNil
  | GBool bool
  | GFloat64 f64
  | GFloat32 f64
  | GInt int64
  | GInt64 int64
  | GString string
  | GSlice "gval list"
  | GMap "(string \<times> gval) list"

type_synonym args = "string \<rightharpoonup> gval"

record policy =
  MaxCostUSD :: "f64 option"
  PIIAccess :: "bool option"
  WriteAccess :: "bool option"
  MaxCalls :: "uint64 option"
  AllowedTools :: "string list"
  AllowedResources :: "string list"
  AllowedDataClasses :: "string list"

record consent_record =
  Method :: string
  Timestamp :: string
  SessionID :: string
  PolicyHash :: string
  Locale :: string

record regulatory_metadata =
  Frameworks :: "string list"
  RiskLevel :: string
  RetentionDays :: uint64

record delegation_receipt =
  dr_Iss :: string
  dr_Sub :: string
  dr_Aud :: string
  dr_DrsV :: string
  dr_DrsType :: string
  dr_Cmd :: string
  dr_Policy :: policy
  dr_Nbf :: int64
  dr_Exp :: "int64 option"
  dr_Iat :: int64
  dr_Jti :: string
  dr_PrevDRHash :: "string option"
  dr_DrsConsent :: "consent_record option"
  dr_DrsRootType :: "string option"
  dr_DrsRegulatory :: "regulatory_metadata option"
  dr_DrsStatusListIndex :: "uint64 option"
  dr_CorrelationID :: "string option"
  dr_Budget :: "string option"

record invocation_receipt =
  inv_Iss :: string
  inv_Sub :: string
  inv_DrsV :: string
  inv_DrsType :: string
  inv_Cmd :: string
  inv_Args :: args
  inv_DrChain :: "string list"
  inv_ToolServer :: string
  inv_Iat :: int64
  inv_Jti :: string
  inv_ResultHash :: "string option"
  inv_PolicyEvaluation :: "string option"
  inv_CorrelationID :: "string option"

record chain_bundle =
  BundleVersion :: string
  Invocation :: string
  Receipts :: "string list"

record verification_context =
  RootPrincipal :: string
  RootType :: "string option"
  ConsentRecord :: "consent_record option"
  Regulatory :: "regulatory_metadata option"
  LeafPolicy :: policy
  ChainDepth :: nat
  ctx_SessionID :: "string option"
  ctx_CorrelationID :: "string option"

text \<open>The machine-readable codes that the verifier reports.\<close>

datatype vcode =
    EMPTY_CHAIN | CHAIN_TOO_DEEP | MISSING_INVOCATION
  | MALFORMED_RECEIPT | MALFORMED_INVOCATION
  | WRONG_TYPE | VERSION_MISMATCH | INVALID_JTI | CHAIN_STRUCTURE
  | MISSING_CONSENT | INVALID_CONSENT | CHAIN_BREAK | ISSUER_MISMATCH
  | INVOKER_MISMATCH | CHAIN_REFERENCE_MISMATCH
  | SIGNATURE_MALLEABILITY | UNRESOLVABLE_DID | INVALID_SIGNATURE
  | INVALID_INVOCATION_SIGNATURE
  | INVALID_ROOT_CMD | COMMAND_MISMATCH | SUBJECT_MISMATCH
  | INVOCATION_SUBJECT_MISMATCH | TOOL_SERVER_MISMATCH
  | POLICY_ESCALATION | TEMPORAL_BOUNDS_VIOLATION | POLICY_VIOLATION
  | INVOCATION_NOT_YET_VALID | INVOCATION_STALE | NOT_YET_VALID | EXPIRED
  | REVOCATION_CHECK_FAILED | REVOKED

text \<open>
  A \<^verbatim>\<open>VerificationError\<close> carries its code; the message and the suggestion are prose for
  humans and are not modelled.
\<close>

record timestamp_result =
  ts_Index :: nat
  ts_Valid :: bool
  ts_Time :: "int option"
  ts_Error :: "string option"

datatype binding_label = BindNone | BindMatch | BindMismatch | BindEmptyMatch | BindInvalidBody

record verification_result =
  Valid :: bool
  Context :: "verification_context option"
  Error :: "vcode option"
  Timestamps :: "timestamp_result list"
  StoreWarnings :: "string list"
  Binding :: binding_label

definition valid_result :: "verification_context \<Rightarrow> verification_result" where
  "valid_result ctx =
     \<lparr>Valid = True, Context = Some ctx, Error = None, Timestamps = [], StoreWarnings = [],
      Binding = BindNone\<rparr>"

definition invalid_result :: "vcode \<Rightarrow> verification_result" where
  "invalid_result code =
     \<lparr>Valid = False, Context = None, Error = Some code, Timestamps = [], StoreWarnings = [],
      Binding = BindNone\<rparr>"

lemma Valid_invalid_result [simp]: "\<not> Valid (invalid_result c)" "Error (invalid_result c) = Some c"
  by (simp_all add: invalid_result_def)

lemma Valid_valid_result [simp]:
  "Valid (valid_result ctx)" "Context (valid_result ctx) = Some ctx" "Error (valid_result ctx) = None"
  by (simp_all add: valid_result_def)

lemma invalid_result_inject [simp]: "invalid_result c = invalid_result d \<longleftrightarrow> c = d"
  by (simp add: invalid_result_def)

text \<open>Concrete data that the worked examples of the other theories share.\<close>

definition open_policy :: policy where
  "open_policy =
     \<lparr>MaxCostUSD = None, PIIAccess = None, WriteAccess = None, MaxCalls = None,
      AllowedTools = [], AllowedResources = [], AllowedDataClasses = []\<rparr>"

end
