(* ===== verification/DRS_Config.thy ===== *)
theory DRS_Config
  imports DRS_Types
begin

text \<open>
  \<^verbatim>\<open>pkg/config/config.go\<close>, the configuration read from the environment, and
  \<^verbatim>\<open>pkg/operator/config.go\<close>, the operator configuration read from a JSON file. \<^verbatim>\<open>os.Getenv\<close> is a
  function that returns the empty string for unset variables; \<^verbatim>\<open>strconv.ParseFloat\<close>, the file
  system and the JSON decoder are parameters. Of an error message the key and the rejected value
  are kept.
\<close>

section \<open>Environment configuration\<close>

record config =
  ListenAddr :: string
  TLSCertFile :: string
  TLSKeyFile :: string
  DidCacheSize :: int64
  DidCacheTTLSecs :: int64
  StatusListCacheTTLSecs :: int64
  StatusListBaseURL :: string
  MaxBodyBytes :: int64
  LogLevel :: string
  LogFormat :: string
  AdminToken :: string
  TSAURL :: string
  StoreDir :: string
  cfg_ServerIdentity :: string
  NonceStoreMaxEntries :: int64
  NonceStoreTTLSecs :: int64
  TSARootCertPEM :: string
  RateLimitPerIP :: f64
  RateLimitGlobal :: f64
  TrustProxy :: bool
  CircuitBreakerThreshold :: int64
  CircuitBreakerCooldownSecs :: int64
  RevocationStorePath :: string
  NonceStoreBackend :: string
  RedisURL :: string
  MetricsAddr :: string

datatype config_error =
    NotAnInteger string string
  | NotANumber string string
  | RedisWithoutURL
  | UnknownBackend string
  | MemoryBehindProxy

type_synonym environment = "string \<Rightarrow> string"

definition get_env_or_default :: "environment \<Rightarrow> string \<Rightarrow> string \<Rightarrow> string" where
  "get_env_or_default getenv key def = (let v = getenv key in if v \<noteq> '''' then v else def)"

definition get_env_int64 :: "environment \<Rightarrow> string \<Rightarrow> int64 \<Rightarrow> config_error + int64" where
  "get_env_int64 getenv key def =
     (let v = getenv key in
      if v = '''' then Inr def
      else case parse_int v of None \<Rightarrow> Inl (NotAnInteger key v) | Some n \<Rightarrow> Inr n)"

text \<open>\<^verbatim>\<open>int\<close> has 64 bits on the supported platforms, where \<^verbatim>\<open>strconv.Atoi\<close> agrees with \<^verbatim>\<open>ParseInt\<close>.\<close>

definition get_env_int :: "environment \<Rightarrow> string \<Rightarrow> int64 \<Rightarrow> config_error + int64" where
  "get_env_int getenv key def =
     (let v = getenv key in
      if v = '''' then Inr def
      else case parse_int v of None \<Rightarrow> Inl (NotAnInteger key v) | Some n \<Rightarrow> Inr n)"

definition get_env_float64 ::
  "(string \<Rightarrow> f64 option) \<Rightarrow> environment \<Rightarrow> string \<Rightarrow> f64 \<Rightarrow> config_error + f64" where
  "get_env_float64 parse_float getenv key def =
     (let v = getenv key in
      if v = '''' then Inr def
      else case parse_float v of None \<Rightarrow> Inl (NotANumber key v) | Some x \<Rightarrow> Inr x)"

text \<open>The early return on an error.\<close>

fun or_return :: "'e + 'a \<Rightarrow> ('a \<Rightarrow> 'e + 'b) \<Rightarrow> 'e + 'b" where
  "or_return (Inl e) f = Inl e"
| "or_return (Inr x) f = f x"

lemma or_return_Inr: "or_return r f = Inr y \<longleftrightarrow> (\<exists>x. r = Inr x \<and> f x = Inr y)"
  by (cases r) auto

definition backend_error :: "bool \<Rightarrow> string \<Rightarrow> string \<Rightarrow> config_error option" where
  "backend_error trust_proxy backend redis_url = first_error
     [guard_err (backend = ''redis'' \<and> redis_url = '''') RedisWithoutURL,
      guard_err (backend \<noteq> ''memory'' \<and> backend \<noteq> ''redis'') (UnknownBackend backend),
      guard_err (trust_proxy \<and> backend = ''memory'') MemoryBehindProxy]"

definition load_config :: "(string \<Rightarrow> f64 option) \<Rightarrow> environment \<Rightarrow> config_error + config" where
  "load_config parse_float getenv =
     or_return (get_env_int getenv ''DID_CACHE_SIZE'' 10000) (\<lambda>didCacheSize.
     or_return (get_env_int64 getenv ''DID_CACHE_TTL_SECS'' 3600) (\<lambda>didCacheTTL.
     or_return (get_env_int64 getenv ''STATUS_CACHE_TTL_SECS'' 300) (\<lambda>statusCacheTTL.
     or_return (get_env_int64 getenv ''MAX_BODY_BYTES'' 1048576) (\<lambda>maxBodyBytes.
     or_return (get_env_int getenv ''NONCE_STORE_MAX_ENTRIES'' 100000) (\<lambda>nonceMax.
     or_return (get_env_int64 getenv ''NONCE_STORE_TTL_SECS'' 900) (\<lambda>nonceTTL.
     or_return (get_env_float64 parse_float getenv ''RATE_LIMIT_PER_IP'' (Finite 100)) (\<lambda>perIP.
     or_return (get_env_float64 parse_float getenv ''RATE_LIMIT_GLOBAL'' (Finite 1000)) (\<lambda>global.
     or_return (get_env_int getenv ''CIRCUIT_BREAKER_THRESHOLD'' 5) (\<lambda>cbThreshold.
     or_return (get_env_int64 getenv ''CIRCUIT_BREAKER_COOLDOWN_SECS'' 60) (\<lambda>cbCooldown.
       let trustProxy = (getenv ''TRUST_PROXY'' = ''true'');
           backend = get_env_or_default getenv ''NONCE_STORE_BACKEND'' ''memory'';
           redisURL = getenv ''REDIS_URL''
       in case backend_error trustProxy backend redisURL of
            Some e \<Rightarrow> Inl e
          | None \<Rightarrow> Inr
              \<lparr>ListenAddr = get_env_or_default getenv ''LISTEN_ADDR'' '':8080'',
               TLSCertFile = getenv ''TLS_CERT_FILE'', TLSKeyFile = getenv ''TLS_KEY_FILE'',
               DidCacheSize = didCacheSize, DidCacheTTLSecs = didCacheTTL,
               StatusListCacheTTLSecs = statusCacheTTL,
               StatusListBaseURL = getenv ''STATUS_LIST_BASE_URL'', MaxBodyBytes = maxBodyBytes,
               LogLevel = get_env_or_default getenv ''LOG_LEVEL'' ''info'',
               LogFormat = get_env_or_default getenv ''LOG_FORMAT'' ''text'',
               AdminToken = getenv ''DRS_ADMIN_TOKEN'', TSAURL = getenv ''TSA_URL'',
               StoreDir = getenv ''STORE_DIR'', cfg_ServerIdentity = getenv ''SERVER_IDENTITY'',
               NonceStoreMaxEntries = nonceMax, NonceStoreTTLSecs = nonceTTL,
               TSARootCertPEM = getenv ''TSA_ROOT_CERT_PEM'',
               RateLimitPerIP = perIP, RateLimitGlobal = global, TrustProxy = trustProxy,
               CircuitBreakerThreshold = cbThreshold, CircuitBreakerCooldownSecs = cbCooldown,
               RevocationStorePath = getenv ''REVOCATION_STORE_PATH'', NonceStoreBackend = backend,
               RedisURL = redisURL, MetricsAddr = getenv ''METRICS_ADDR''\<rparr>))))))))))"

section \<open>What a loaded configuration guarantees\<close>

lemma get_env_int64_Inr:
  "get_env_int64 getenv key def = Inr n \<longleftrightarrow>
     (if getenv key = '''' then n = def else parse_int (getenv key) = Some n)"
  by (auto simp: get_env_int64_def Let_def split: option.splits)

lemma get_env_int_is_int64: "get_env_int = get_env_int64"
  by (intro ext) (simp add: get_env_int_def get_env_int64_def)

lemma get_env_float64_Inr:
  "get_env_float64 pf getenv key def = Inr x \<longleftrightarrow>
     (if getenv key = '''' then x = def else pf (getenv key) = Some x)"
  by (auto simp: get_env_float64_def Let_def split: option.splits)

lemma backend_error_None:
  "backend_error tp backend url = None \<longleftrightarrow>
     (backend = ''redis'' \<and> url \<noteq> '''') \<or> (backend = ''memory'' \<and> \<not> tp)"
  by (auto simp: backend_error_def check_None)

definition integer_variables :: "string list" where
  "integer_variables =
     [''DID_CACHE_SIZE'', ''DID_CACHE_TTL_SECS'', ''STATUS_CACHE_TTL_SECS'', ''MAX_BODY_BYTES'',
      ''NONCE_STORE_MAX_ENTRIES'', ''NONCE_STORE_TTL_SECS'', ''CIRCUIT_BREAKER_THRESHOLD'',
      ''CIRCUIT_BREAKER_COOLDOWN_SECS'']"

definition number_variables :: "string list" where
  "number_variables = [''RATE_LIMIT_PER_IP'', ''RATE_LIMIT_GLOBAL'']"

definition readable :: "(string \<Rightarrow> 'a option) \<Rightarrow> environment \<Rightarrow> string \<Rightarrow> bool" where
  "readable parse getenv key = (getenv key = '''' \<or> parse (getenv key) \<noteq> None)"

lemma get_env_readable:
  "(\<exists>n. get_env_int64 getenv key def = Inr n) \<longleftrightarrow> readable parse_int getenv key"
  "(\<exists>x. get_env_float64 pf getenv key fdef = Inr x) \<longleftrightarrow> readable pf getenv key"
  by (auto simp: get_env_int64_Inr get_env_float64_Inr readable_def)

text \<open>
  The server starts exactly on consistent environments: every numeric variable that is set
  parses, and replay state is either in Redis with a URL, or in memory without a proxy in front.
  Nothing else can make loading fail.
\<close>

theorem load_config_iff:
  "(\<exists>cfg. load_config pf getenv = Inr cfg) \<longleftrightarrow>
     list_all (readable parse_int getenv) integer_variables \<and> list_all (readable pf getenv) number_variables \<and>
     (let backend = get_env_or_default getenv ''NONCE_STORE_BACKEND'' ''memory''
      in backend = ''redis'' \<and> getenv ''REDIS_URL'' \<noteq> '''' \<or>
         backend = ''memory'' \<and> getenv ''TRUST_PROXY'' \<noteq> ''true'')"
proof -
  have fin: "(\<exists>cfg. (case e of Some err \<Rightarrow> Inl err | None \<Rightarrow> Inr (c :: config)) = Inr cfg) \<longleftrightarrow> e = None"
    for e :: "config_error option" and c by (cases e) auto
  have step: "(\<exists>cfg. or_return r f = Inr cfg) \<longleftrightarrow> (\<exists>x. r = Inr x \<and> (\<exists>cfg. f x = Inr cfg))"
    for r :: "config_error + 'x" and f :: "'x \<Rightarrow> config_error + config" by (auto simp: or_return_Inr)
  show ?thesis
    unfolding load_config_def Let_def step fin get_env_int_is_int64 backend_error_None
    by (simp add: integer_variables_def number_variables_def get_env_readable) blast
qed

text \<open>
  An empty environment gives the documented defaults: replay protection in memory for 15
  minutes and 100000 invocations, a body limit of 1 MiB, no proxy trusted, the admin endpoint, the
  status list, timestamps and the metrics listener disabled.
\<close>

theorem load_config_defaults:
  "load_config pf (\<lambda>_. '''') = Inr
     \<lparr>ListenAddr = '':8080'', TLSCertFile = '''', TLSKeyFile = '''', DidCacheSize = 10000,
      DidCacheTTLSecs = 3600, StatusListCacheTTLSecs = 300, StatusListBaseURL = '''',
      MaxBodyBytes = 1048576, LogLevel = ''info'', LogFormat = ''text'', AdminToken = '''', TSAURL = '''',
      StoreDir = '''', cfg_ServerIdentity = '''', NonceStoreMaxEntries = 100000, NonceStoreTTLSecs = 900,
      TSARootCertPEM = '''', RateLimitPerIP = Finite 100, RateLimitGlobal = Finite 1000, TrustProxy = False,
      CircuitBreakerThreshold = 5, CircuitBreakerCooldownSecs = 60, RevocationStorePath = '''',
      NonceStoreBackend = ''memory'', RedisURL = '''', MetricsAddr = ''''\<rparr>"
proof -
  have "backend_error False ''memory'' '''' = None" by (simp add: backend_error_None)
  then show ?thesis
    by (simp add: load_config_def get_env_int_def get_env_int64_def get_env_float64_def get_env_or_default_def
        Let_def)
qed

lemma load_config_backend:
  assumes "load_config pf getenv = Inr cfg"
  shows "NonceStoreBackend cfg = ''redis'' \<and> RedisURL cfg \<noteq> '''' \<or> NonceStoreBackend cfg = ''memory'' \<and> \<not> TrustProxy cfg"
  using assms by (auto simp: load_config_def or_return_Inr Let_def backend_error_None split: option.splits)

section \<open>Operator configuration\<close>

record renewal_rules =
  AutoRenew :: bool
  SessionTTLHours :: int
  MaxRenewalCount :: int

record escalation =
  TargetType :: string
  SupervisorDID :: string
  Fallback :: string

record operator_config =
  DrsRootType :: string
  OperatorDID :: string
  OperatorKeyPath :: string
  OperatorKeyManagement :: string
  StandingPolicy :: policy
  RenewalRules :: renewal_rules
  Escalation :: escalation
  StorageTier :: int

definition ValidRootTypes :: "string list" where
  "ValidRootTypes = [''human'', ''organisation'', ''automated-system'']"

definition ValidKeyManagements :: "string list" where
  "ValidKeyManagements = [''file'', ''env'']"

definition ImplementedStorageTiers :: "int list" where
  "ImplementedStorageTiers = [0, 1, 3, 4]"

datatype operator_error =
    InvalidRootType | HumanRoot | NoOperatorDID | NoKeyManagement | KeyManagementNotImplemented
  | NoKeyPath | NegativeSessionTTL | TierNotImplemented
  | ConfigUnreadable string | ConfigNotJSON string

definition validate_operator :: "operator_config \<Rightarrow> operator_error option" where
  "validate_operator c = first_error
     [guard_err (DrsRootType c \<notin> set ValidRootTypes) InvalidRootType,
      guard_err (DrsRootType c = ''human'') HumanRoot,
      guard_err (OperatorDID c = '''') NoOperatorDID,
      guard_err (OperatorKeyManagement c = '''') NoKeyManagement,
      guard_err (OperatorKeyManagement c \<notin> set ValidKeyManagements) KeyManagementNotImplemented,
      guard_err (OperatorKeyManagement c = ''file'' \<and> OperatorKeyPath c = '''') NoKeyPath,
      guard_err (SessionTTLHours (RenewalRules c) < 0) NegativeSessionTTL,
      guard_err (StorageTier c \<notin> set ImplementedStorageTiers) TierNotImplemented]"

definition load_operator_file ::
  "(string \<Rightarrow> string + string) \<Rightarrow> (string \<Rightarrow> string + operator_config) \<Rightarrow> string \<Rightarrow>
   operator_error + operator_config" where
  "load_operator_file read_file unmarshal path =
     (case read_file path of
        Inl e \<Rightarrow> Inl (ConfigUnreadable e)
      | Inr data \<Rightarrow>
          (case unmarshal data of
             Inl e \<Rightarrow> Inl (ConfigNotJSON e)
           | Inr c \<Rightarrow> (case validate_operator c of Some e \<Rightarrow> Inl e | None \<Rightarrow> Inr c)))"

definition load_operator_env ::
  "(string \<Rightarrow> string + string) \<Rightarrow> (string \<Rightarrow> string + operator_config) \<Rightarrow> environment \<Rightarrow>
   operator_error + operator_config option" where
  "load_operator_env read_file unmarshal getenv =
     (let path = getenv ''DRS_OPERATOR_CONFIG'' in
      if path = '''' then Inr None
      else case load_operator_file read_file unmarshal path of Inl e \<Rightarrow> Inl e | Inr c \<Rightarrow> Inr (Some c))"

text \<open>
  The operator configuration that is loaded, if any, is the decoded content of the named
  file and satisfies every documented constraint of the trust anchor, the key backend, the session
  lifetime and the storage tier; and no such configuration is refused.
\<close>

theorem load_operator_exact:
  "load_operator_env read_file unmarshal getenv = Inr (Some c) \<longleftrightarrow>
     getenv ''DRS_OPERATOR_CONFIG'' \<noteq> '''' \<and>
     (\<exists>data. read_file (getenv ''DRS_OPERATOR_CONFIG'') = Inr data \<and> unmarshal data = Inr c) \<and>
     DrsRootType c \<in> {''organisation'', ''automated-system''} \<and> OperatorDID c \<noteq> '''' \<and>
     (OperatorKeyManagement c = ''env'' \<or> OperatorKeyManagement c = ''file'' \<and> OperatorKeyPath c \<noteq> '''') \<and>
     0 \<le> SessionTTLHours (RenewalRules c) \<and> StorageTier c \<in> {0, 1, 3, 4}"
proof -
  have "validate_operator c = None \<longleftrightarrow>
     DrsRootType c \<in> {''organisation'', ''automated-system''} \<and> OperatorDID c \<noteq> '''' \<and>
     (OperatorKeyManagement c = ''env'' \<or> OperatorKeyManagement c = ''file'' \<and> OperatorKeyPath c \<noteq> '''') \<and>
     0 \<le> SessionTTLHours (RenewalRules c) \<and> StorageTier c \<in> {0, 1, 3, 4}"
    by (auto simp: validate_operator_def check_None ValidRootTypes_def ValidKeyManagements_def
        ImplementedStorageTiers_def)
  moreover have "load_operator_env read_file unmarshal getenv = Inr (Some c) \<longleftrightarrow>
     getenv ''DRS_OPERATOR_CONFIG'' \<noteq> '''' \<and>
     (\<exists>data. read_file (getenv ''DRS_OPERATOR_CONFIG'') = Inr data \<and> unmarshal data = Inr c) \<and>
     validate_operator c = None"
    by (auto simp: load_operator_env_def load_operator_file_def Let_def split: sum.splits option.splits)
  ultimately show ?thesis by (simp only:)
qed

end
