(* ===== verification/DRS_Http.thy ===== *)
theory DRS_Http
  imports DRS_Types
begin

text \<open>
  What the handlers use of \<^verbatim>\<open>net/http\<close>: requests with their headers and body streams,
  \<^verbatim>\<open>http.MaxBytesReader\<close>, responses, and handlers as functions from a request and the server
  state to a response and the next state. A response of \<open>None\<close> is a crash of the process.
\<close>

section \<open>Headers\<close>

definition is_letter_in :: "nat \<Rightarrow> char \<Rightarrow> bool" where
  "is_letter_in base c = (base \<le> code_of c \<and> code_of c < base + 26)"

definition is_token_char :: "char \<Rightarrow> bool" where
  "is_token_char c =
     (is_digit c \<or> is_letter_in 65 c \<or> is_letter_in 97 c \<or>
      c \<in> set ''!#$%&*+-.^_`|~'' \<or> code_of c = 39)"

text \<open>\<open>http.CanonicalHeaderKey\<close>: a name with other bytes than token characters is left alone.\<close>

fun canonical_letters :: "bool \<Rightarrow> string \<Rightarrow> string" where
  "canonical_letters upper [] = []"
| "canonical_letters upper (c # cs) =
     (if upper \<and> is_letter_in 97 c then char_of (code_of c - 32)
      else if \<not> upper \<and> is_letter_in 65 c then char_of (code_of c + 32)
      else c) # canonical_letters (c = CHR ''-'') cs"

definition canonical_header_key :: "string \<Rightarrow> string" where
  "canonical_header_key k = (if list_all is_token_char k then canonical_letters True k else k)"

section \<open>Requests and responses\<close>

datatype stream_end = AtEOF | TooLarge | ReadFailed string

text \<open>A body stream: the bytes that can be read and what comes after them.\<close>

type_synonym body_stream = "string \<times> stream_end"

record request =
  rq_method :: string
  rq_path :: string
  rq_header :: "(string \<times> string) list"
  rq_remote :: string
  rq_body :: body_stream
  rq_context :: "verification_context option"

definition header_values :: "string \<Rightarrow> request \<Rightarrow> string list" where
  "header_values k r = map snd (filter (\<lambda>h. fst h = canonical_header_key k) (rq_header r))"

definition header_get :: "string \<Rightarrow> request \<Rightarrow> string" where
  "header_get k r = (case header_values k r of [] \<Rightarrow> '''' | v # _ \<Rightarrow> v)"

definition max_bytes_reader :: "int \<Rightarrow> body_stream \<Rightarrow> body_stream" where
  "max_bytes_reader n b =
     (if nat n < length (fst b) then (take (nat n) (fst b), TooLarge) else b)"

definition read_all :: "body_stream \<Rightarrow> stream_end + string" where
  "read_all b = (case snd b of AtEOF \<Rightarrow> Inr (fst b) | e \<Rightarrow> Inl e)"

text \<open>
  Bodies of responses: the \<^verbatim>\<open>error\<close> field of an error object (its \<^verbatim>\<open>detail\<close> and \<^verbatim>\<open>suggestion\<close>
  are prose), the encoded result of a verification, and what the other endpoints write.
\<close>

datatype payload =
    NoPayload
  | ErrorText string
  | VerifyBody verification_result
  | HealthBody string
  | RevokedIndex uint64
  | AppBody string

type_synonym response = "nat \<times> payload"

type_synonym 's handler = "request \<Rightarrow> 's \<Rightarrow> response option \<times> 's"

lemma read_all_Inr: "read_all b = Inr bytes \<longleftrightarrow> b = (bytes, AtEOF)"
  by (cases b) (auto simp: read_all_def split: stream_end.splits)

lemma max_bytes_reader_complete:
  "max_bytes_reader n b = (bytes, AtEOF) \<longleftrightarrow> b = (bytes, AtEOF) \<and> length bytes \<le> nat n"
  by (cases b) (auto simp: max_bytes_reader_def)

lemma header_get_single: "header_values k r = [v] \<Longrightarrow> header_get k r = v"
  by (simp add: header_get_def)

lemma bundle_header_key: "canonical_header_key ''X-DRS-Bundle'' = ''X-Drs-Bundle''"
  by code_simp

lemma forwarded_header_key: "canonical_header_key ''X-Forwarded-For'' = ''X-Forwarded-For''"
  by code_simp

end
