(* ===== verification/DRS_Nonce.thy ===== *)
theory DRS_Nonce
  imports DRS_Types
begin

text \<open>
  \<^verbatim>\<open>pkg/nonce\<close>: the \<^verbatim>\<open>Checker\<close> contract (claim a JTI if it is new) as the locale
  \<open>nonce_checker\<close>, the bounded in-memory store and the Redis store that provide it. Clock
  readings are Unix seconds and are arguments of the operations.
\<close>

datatype nonce_error =
    ErrReplayDetected
  | ErrStoreExhausted
  | ErrEmptyJti
  | ErrBackend string

section \<open>The interface\<close>

text \<open>A run of \<^verbatim>\<open>Check\<close> calls, each with its clock reading.\<close>

fun check_run ::
  "(int \<Rightarrow> string \<Rightarrow> 's \<Rightarrow> nonce_error option \<times> 's) \<Rightarrow> (int \<times> string) list \<Rightarrow> 's \<Rightarrow>
   nonce_error option list \<times> 's" where
  "check_run check [] s = ([], s)"
| "check_run check ((now, jti) # calls) s =
     (let (r, s') = check now jti s; (rs, s'') = check_run check calls s' in (r # rs, s''))"

text \<open>The states that any number of checks with clock readings up to \<open>T\<close> lead to.\<close>

inductive check_path ::
  "(int \<Rightarrow> string \<Rightarrow> 's \<Rightarrow> nonce_error option \<times> 's) \<Rightarrow> int \<Rightarrow> 's \<Rightarrow> 's \<Rightarrow> bool" for check T where
  path_stay: "check_path check T s s"
| path_check: "check now jti s = (r, s1) \<Longrightarrow> now \<le> T \<Longrightarrow> check_path check T s1 s' \<Longrightarrow> check_path check T s s'"

lemma check_path_trans: "check_path check T s s' \<Longrightarrow> check_path check T s' s'' \<Longrightarrow> check_path check T s s''"
  by (induction rule: check_path.induct) (auto intro: check_path.path_check)

lemma check_path_mono: "check_path check T s s' \<Longrightarrow> T \<le> T' \<Longrightarrow> check_path check T' s s'"
  by (induction rule: check_path.induct) (auto intro: check_path.intros)

text \<open>
  \<open>claimed s jti t\<close>: the JTI is reserved at time \<open>t\<close>. A successful check reserves it for
  \<open>window\<close> seconds, no call releases it earlier, and a reserved JTI is never accepted.
\<close>

locale nonce_checker =
  fixes check :: "int \<Rightarrow> string \<Rightarrow> 's \<Rightarrow> nonce_error option \<times> 's"
    and claimed :: "'s \<Rightarrow> string \<Rightarrow> int \<Rightarrow> bool"
    and invar :: "'s \<Rightarrow> bool"
    and window :: "'s \<Rightarrow> int"
  assumes check_invar: "invar s \<Longrightarrow> check now jti s = (r, s') \<Longrightarrow> invar s'"
    and check_window: "invar s \<Longrightarrow> check now jti s = (r, s') \<Longrightarrow> window s' = window s"
    and check_fresh: "invar s \<Longrightarrow> check now jti s = (None, s') \<Longrightarrow> \<not> claimed s jti now"
    and check_claims: "invar s \<Longrightarrow> check now jti s = (None, s') \<Longrightarrow> now \<le> t \<Longrightarrow>
        t < now + window s \<Longrightarrow> claimed s' jti t"
    and check_keeps: "invar s \<Longrightarrow> check now j s = (r, s') \<Longrightarrow> claimed s jti t \<Longrightarrow> now \<le> t \<Longrightarrow>
        claimed s' jti t"
begin

lemma run_keeps:
  assumes "invar s" "claimed s jti t" "\<forall>c \<in> set calls. fst c \<le> t"
    and "check_run check calls s = (rs, s')"
  shows "invar s' \<and> claimed s' jti t"
  using assms
proof (induction calls arbitrary: s rs)
  case (Cons c calls)
  obtain now j where c: "c = (now, j)" by (cases c)
  obtain r s1 where step: "check now j s = (r, s1)" by (cases "check now j s")
  with Cons.prems c obtain rs1 where "check_run check calls s1 = (rs1, s')"
    by (auto split: prod.splits)
  moreover have "invar s1" "claimed s1 jti t"
    using Cons.prems c step check_invar check_keeps by auto
  ultimately show ?case using Cons.IH Cons.prems(3) by auto
qed simp

lemma path_keeps:
  assumes "check_path check T s s'" and "invar s"
  shows "invar s' \<and> window s' = window s \<and> (claimed s jti t \<longrightarrow> T \<le> t \<longrightarrow> claimed s' jti t)"
  using assms
proof (induction rule: check_path.induct)
  case (path_check now j s r s1 s')
  then have "invar s1" "window s1 = window s" using check_invar check_window by blast+
  with path_check show ?case using check_keeps [of s now j r s1 jti t] by auto
qed simp

lemma no_double_accept_path:
  assumes "invar s" and "check t1 jti s = (None, s1)" and "check_path check t2 s1 s2"
    and "check t2 jti s2 = (None, s3)" and "t1 \<le> t2"
  shows "t1 + window s \<le> t2"
proof (rule ccontr)
  assume "\<not> t1 + window s \<le> t2"
  with assms have "invar s1" "claimed s1 jti t2" using check_invar check_claims by auto
  with path_keeps [OF assms(3)] have "invar s2" "claimed s2 jti t2" by blast+
  with assms(4) check_fresh show False by blast
qed

lemma no_double_accept:
  assumes "invar s" and "check t1 jti s = (None, s1)"
    and "check_run check calls s1 = (rs, s2)" and "\<forall>c \<in> set calls. fst c \<le> t2"
    and "check t2 jti s2 = (None, s3)" and "t1 \<le> t2"
  shows "t1 + window s \<le> t2"
proof (rule ccontr)
  assume "\<not> t1 + window s \<le> t2"
  with assms have "invar s1" "claimed s1 jti t2"
    using check_invar check_claims by auto
  then have "invar s2" "claimed s2 jti t2"
    using run_keeps assms by blast+
  with assms(5) check_fresh show False by blast
qed

end

section \<open>The in-memory store\<close>

record nonce_store =
  seen :: "(string \<times> int) list"
  maxEntries :: int
  ttl :: int

definition nonce_new :: "int \<Rightarrow> int \<Rightarrow> nonce_store" where
  "nonce_new max_entries ttl_ns = \<lparr>seen = [], maxEntries = max_entries, ttl = ttl_ns\<rparr>"

definition nonce_evict :: "int \<Rightarrow> nonce_store \<Rightarrow> nonce_store" where
  "nonce_evict now s =
     (if maxEntries s \<le> int (length (seen s))
      then s\<lparr>seen := filter (\<lambda>e. \<not> duration_secs (ttl s) \<le> now - snd e) (seen s)\<rparr> else s)"

definition nonce_insert :: "int \<Rightarrow> string \<Rightarrow> nonce_store \<Rightarrow> nonce_error option \<times> nonce_store" where
  "nonce_insert now jti s =
     (let s = nonce_evict now s
      in if maxEntries s \<le> int (length (seen s)) then (Some ErrStoreExhausted, s)
         else (None, s\<lparr>seen := AList.update jti now (seen s)\<rparr>))"

definition nonce_check :: "int \<Rightarrow> string \<Rightarrow> nonce_store \<Rightarrow> nonce_error option \<times> nonce_store" where
  "nonce_check now jti s =
     (let ttlSecs = duration_secs (ttl s)
      in case map_of (seen s) jti of
           Some insertedAt \<Rightarrow>
             if now - insertedAt < ttlSecs then (Some ErrReplayDetected, s)
             else nonce_insert now jti (s\<lparr>seen := AList.delete jti (seen s)\<rparr>)
         | None \<Rightarrow> nonce_insert now jti s)"

definition nonce_claimed :: "nonce_store \<Rightarrow> string \<Rightarrow> int \<Rightarrow> bool" where
  "nonce_claimed s jti t = (\<exists>v. map_of (seen s) jti = Some v \<and> t - v < duration_secs (ttl s))"

definition nonce_invar :: "nonce_store \<Rightarrow> bool" where
  "nonce_invar s = (map_keys_distinct (seen s) \<and> int (length (seen s)) \<le> max 0 (maxEntries s))"

lemma nonce_new_invar: "nonce_invar (nonce_new n d)"
  by (simp add: nonce_invar_def nonce_new_def)

lemma nonce_evict_simps [simp]:
  "maxEntries (nonce_evict now s) = maxEntries s" "ttl (nonce_evict now s) = ttl s"
  by (simp_all add: nonce_evict_def)

lemma nonce_evict_distinct [simp]:
  "map_keys_distinct (seen s) \<Longrightarrow> map_keys_distinct (seen (nonce_evict now s))"
  by (simp add: nonce_evict_def)

lemma nonce_evict_lookup:
  assumes "map_keys_distinct (seen s)"
  shows "map_of (seen (nonce_evict now s)) k = map_of (seen s) k \<or>
    (\<exists>v. map_of (seen s) k = Some v \<and> duration_secs (ttl s) \<le> now - v \<and>
         map_of (seen (nonce_evict now s)) k = None)"
  using map_of_filter_snd [OF assms, of "\<lambda>v. \<not> duration_secs (ttl s) \<le> now - v" k]
  by (cases "map_of (seen s) k") (auto simp: nonce_evict_def)

lemma nonce_evict_claimed:
  assumes "map_keys_distinct (seen s)" "nonce_claimed s jti t" "now \<le> t"
  shows "nonce_claimed (nonce_evict now s) jti t"
  using nonce_evict_lookup [OF assms(1), of now jti] assms(2,3)
  by (auto simp: nonce_claimed_def)

lemma nonce_insert_cases:
  obtains (full) "nonce_insert now jti s = (Some ErrStoreExhausted, nonce_evict now s)"
      "maxEntries s \<le> int (length (seen (nonce_evict now s)))"
  | (stored) "nonce_insert now jti s =
        (None, (nonce_evict now s)\<lparr>seen := AList.update jti now (seen (nonce_evict now s))\<rparr>)"
      "int (length (seen (nonce_evict now s))) < maxEntries s"
  by (cases "maxEntries s \<le> int (length (seen (nonce_evict now s)))")
    (auto simp: nonce_insert_def Let_def)

text \<open>What \<^verbatim>\<open>Check\<close> does, as an elimination rule over its three outcomes.\<close>

lemma nonce_check_cases:
  assumes "nonce_check now jti s = (r, s')" and "map_keys_distinct (seen s)"
  obtains (replay) "r = Some ErrReplayDetected" "s' = s" "nonce_claimed s jti now"
  | (inserted) s0 where "nonce_insert now jti s0 = (r, s')" "\<not> nonce_claimed s jti now"
      "map_keys_distinct (seen s0)" "map_of (seen s0) = (map_of (seen s))(jti := None)"
      "maxEntries s0 = maxEntries s" "ttl s0 = ttl s" "length (seen s0) \<le> length (seen s)"
proof (cases "map_of (seen s) jti")
  case None
  with assms show ?thesis
    by (intro inserted [of s]) (auto simp: nonce_check_def nonce_claimed_def fun_upd_idem_iff)
next
  case (Some v)
  show ?thesis
  proof (cases "now - v < duration_secs (ttl s)")
    case True
    with Some assms replay show ?thesis by (auto simp: nonce_check_def nonce_claimed_def)
  next
    case False
    with Some assms show ?thesis
      by (intro inserted [of "s\<lparr>seen := AList.delete jti (seen s)\<rparr>"])
        (auto simp: nonce_check_def nonce_claimed_def delete_conv' length_AList_delete)
  qed
qed

lemma nonce_insert_invar:
  assumes "nonce_insert now jti s = (r, s')" "nonce_invar s"
  shows "nonce_invar s' \<and> maxEntries s' = maxEntries s \<and> ttl s' = ttl s"
proof (cases rule: nonce_insert_cases [of now jti s])
  case full
  moreover have "length (seen (nonce_evict now s)) \<le> length (seen s)"
    by (simp add: nonce_evict_def)
  ultimately show ?thesis using assms by (auto simp: nonce_invar_def)
next
  case stored
  have "length (AList.update jti now (seen (nonce_evict now s))) \<le> Suc (length (seen (nonce_evict now s)))"
    using assms(2) by (simp add: nonce_invar_def length_AList_update)
  with stored assms show ?thesis by (auto simp: nonce_invar_def)
qed

lemma nonce_check_invar:
  assumes "nonce_check now jti s = (r, s')" "nonce_invar s"
  shows "nonce_invar s' \<and> maxEntries s' = maxEntries s \<and> ttl s' = ttl s"
proof -
  have dist: "map_keys_distinct (seen s)" using assms(2) by (simp add: nonce_invar_def)
  show ?thesis
    using assms(1) dist
  proof (cases rule: nonce_check_cases)
    case (inserted s0)
    with assms(2) have "nonce_invar s0" by (auto simp: nonce_invar_def)
    with inserted nonce_insert_invar show ?thesis by metis
  qed (use assms in auto)
qed

lemma nonce_check_accepts:
  assumes "nonce_check now jti s = (None, s')" "map_keys_distinct (seen s)"
  shows "map_of (seen s') jti = Some now \<and> ttl s' = ttl s"
  using assms
proof (cases rule: nonce_check_cases)
  case (inserted s0)
  then show ?thesis by (cases rule: nonce_insert_cases [of now jti s0]) (auto simp: update_conv')
qed simp

lemma nonce_check_keeps:
  assumes "nonce_check now j s = (r, s')" "map_keys_distinct (seen s)"
    and "nonce_claimed s jti t" "now \<le> t"
  shows "nonce_claimed s' jti t"
  using assms(1,2)
proof (cases rule: nonce_check_cases)
  case (inserted s0)
  have "jti \<noteq> j" using inserted(2) assms(3,4) by (auto simp: nonce_claimed_def)
  then have "nonce_claimed s0 jti t" using inserted assms(3) by (auto simp: nonce_claimed_def)
  then have "nonce_claimed (nonce_evict now s0) jti t"
    using inserted assms(4) by (intro nonce_evict_claimed)
  then show ?thesis using inserted(1) \<open>jti \<noteq> j\<close>
    by (cases rule: nonce_insert_cases [of now j s0]) (auto simp: nonce_claimed_def update_conv')
qed (use assms in auto)

interpretation mem: nonce_checker nonce_check nonce_claimed nonce_invar "\<lambda>s. duration_secs (ttl s)"
proof unfold_locales
  fix s now jti s' assume "nonce_invar s" "nonce_check now jti s = (None, s')"
  then show "\<not> nonce_claimed s jti now"
    by (auto simp: nonce_invar_def elim: nonce_check_cases)
next
  fix s now jti s' t
  assume "nonce_invar s" "nonce_check now jti s = (None, s')" "t < now + duration_secs (ttl s)"
  then show "nonce_claimed s' jti t"
    using nonce_check_accepts by (fastforce simp: nonce_invar_def nonce_claimed_def)
next
  fix s now j r s' jti t
  assume "nonce_invar s" "nonce_check now j s = (r, s')" "nonce_claimed s jti t" "now \<le> t"
  then show "nonce_claimed s' jti t"
    using nonce_check_keeps by (auto simp: nonce_invar_def)
qed (use nonce_check_invar in auto)

lemma check_run_invar:
  "check_run nonce_check calls s = (rs, s') \<Longrightarrow> nonce_invar s \<Longrightarrow>
    nonce_invar s' \<and> maxEntries s' = maxEntries s \<and> ttl s' = ttl s"
proof (induction calls arbitrary: s rs)
  case (Cons c calls)
  obtain now j where c: "c = (now, j)" by (cases c)
  obtain r s1 where step: "nonce_check now j s = (r, s1)" by (cases "nonce_check now j s")
  with Cons.prems c obtain rs1 where "check_run nonce_check calls s1 = (rs1, s')"
    by (auto split: prod.splits)
  then show ?case using Cons.IH nonce_check_invar [OF step] Cons.prems(2) by metis
qed simp

text \<open>
  Replay protection of the in-memory store: starting from an empty store, whatever calls
  were made before and in between, two successful checks of one JTI are at least the TTL
  apart.
\<close>

theorem nonce_single_use:
  assumes "check_run nonce_check before (nonce_new n d) = (rs0, s0)"
    and "nonce_check t1 jti s0 = (None, s1)"
    and "check_run nonce_check between s1 = (rs, s2)" and "\<forall>c \<in> set between. fst c \<le> t2"
    and "nonce_check t2 jti s2 = (None, s3)" and "t1 \<le> t2"
  shows "t1 + duration_secs d \<le> t2"
proof -
  have "nonce_invar s0" "ttl s0 = d"
    using check_run_invar [OF assms(1) nonce_new_invar] by (auto simp: nonce_new_def)
  with mem.no_double_accept [OF _ assms(2-6)] show ?thesis by simp
qed

theorem nonce_single_use_witness:
  "\<exists>s0 s1 s2 s3.
     nonce_check 100 ''inv:1'' (nonce_new 2 (10 * second)) = (None, s1) \<and>
     check_run nonce_check [(105, ''inv:2''), (106, ''inv:1'')] s1 =
       ([None, Some ErrReplayDetected], s2) \<and>
     nonce_check 111 ''inv:1'' s2 = (None, s3) \<and> 100 + duration_secs (10 * second) \<le> 111"
proof -
  let ?s = "nonce_new 2 (10 * second)"
  let ?s1 = "?s\<lparr>seen := [(''inv:1'', 100)]\<rparr>"
  let ?s2 = "?s\<lparr>seen := [(''inv:1'', 100), (''inv:2'', 105)]\<rparr>"
  let ?s3 = "?s\<lparr>seen := [(''inv:2'', 105), (''inv:1'', 111)]\<rparr>"
  note defs = nonce_check_def nonce_insert_def nonce_evict_def nonce_new_def Let_def
  have 1: "nonce_check 100 ''inv:1'' ?s = (None, ?s1)" by (simp add: defs)
  have 2: "check_run nonce_check [(105, ''inv:2''), (106, ''inv:1'')] ?s1
      = ([None, Some ErrReplayDetected], ?s2)" by (simp add: defs)
  have 3: "nonce_check 111 ''inv:1'' ?s2 = (None, ?s3)" by (simp add: defs)
  have "100 + duration_secs (10 * second) \<le> 111"
    by (rule nonce_single_use [of "[]", OF _ 1 2 _ 3]) auto
  with 1 2 3 show ?thesis by blast
qed

text \<open>
  The store stays bounded: after any run of checks on a store created with capacity
  \<open>n\<close>, it holds at most \<open>n\<close> entries, each JTI once.
\<close>

theorem nonce_bounded:
  "let s = snd (check_run nonce_check calls (nonce_new n d))
   in int (length (seen s)) \<le> max 0 n \<and> map_keys_distinct (seen s)"
proof -
  obtain rs s where run: "check_run nonce_check calls (nonce_new n d) = (rs, s)"
    by (cases "check_run nonce_check calls (nonce_new n d)")
  have "nonce_invar s \<and> maxEntries s = n"
    using check_run_invar [OF run nonce_new_invar] by (simp add: nonce_new_def)
  with run show ?thesis by (auto simp: nonce_invar_def)
qed

definition live_others :: "int \<Rightarrow> string \<Rightarrow> nonce_store \<Rightarrow> nat" where
  "live_others now jti s =
     length (filter (\<lambda>e. fst e \<noteq> jti \<and> now - snd e < duration_secs (ttl s)) (seen s))"

lemma nonce_insert_outcome:
  "fst (nonce_insert now jti s) =
     (if maxEntries s \<le> int (length (filter (\<lambda>e. now - snd e < duration_secs (ttl s)) (seen s)))
      then Some ErrStoreExhausted else None)"
proof -
  have le: "length (filter (\<lambda>e. now - snd e < duration_secs (ttl s)) (seen s)) \<le> length (seen s)"
    by (rule length_filter_le)
  show ?thesis
    by (simp add: nonce_insert_def nonce_evict_def Let_def not_le) (use le in linarith)
qed

text \<open>
  The outcome of a check is exact: replay if the JTI was recorded less than the TTL ago;
  otherwise exhausted if the unexpired entries of other JTIs fill the capacity; otherwise the
  JTI is accepted. Expired entries never cause a rejection.
\<close>

theorem nonce_check_outcome:
  "fst (nonce_check now jti s) =
     (if nonce_claimed s jti now then Some ErrReplayDetected
      else if maxEntries s \<le> int (live_others now jti s) then Some ErrStoreExhausted
      else None)"
proof (cases "map_of (seen s) jti")
  case None
  then have "\<And>e. e \<in> set (seen s) \<Longrightarrow> fst e \<noteq> jti"
    by (auto simp: map_of_eq_None_iff)
  then have "live_others now jti s = length (filter (\<lambda>e. now - snd e < duration_secs (ttl s)) (seen s))"
    by (auto simp: live_others_def intro!: arg_cong [where f = length] filter_cong)
  with None show ?thesis by (simp add: nonce_check_def nonce_claimed_def nonce_insert_outcome)
next
  case (Some v)
  have "live_others now jti s =
      length (filter (\<lambda>e. now - snd e < duration_secs (ttl s)) (AList.delete jti (seen s)))"
    by (simp add: live_others_def AList.delete_eq split_beta eq_commute [of jti])
  with Some show ?thesis by (auto simp: nonce_check_def nonce_claimed_def nonce_insert_outcome)
qed

text \<open>
  A TTL below one second switches replay protection off: no JTI is then ever reported as
  a replay, whatever the store holds. (The server accepts such a TTL for this store.)
\<close>

theorem nonce_ttl_zero_no_protection:
  assumes "ttl s < second" and "nonce_invar s" and "\<forall>e \<in> set (seen s). snd e \<le> now"
  shows "fst (nonce_check now jti s) \<noteq> Some ErrReplayDetected"
proof -
  have "duration_secs (ttl s) \<le> 0"
  proof (cases "ttl s \<le> 0")
    case False
    with assms(1) show ?thesis by (simp add: duration_secs_def second_def)
  qed (rule duration_secs_nonpos)
  with assms(3) have "\<not> nonce_claimed s jti now"
    by (fastforce simp: nonce_claimed_def dest: map_of_SomeD)
  then show ?thesis by (simp add: nonce_check_outcome)
qed

theorem nonce_ttl_zero_no_protection_witness:
  "fst (nonce_check 100 ''inv:1'' \<lparr>seen = [(''inv:1'', 100)], maxEntries = 5, ttl = 0\<rparr>)
     \<noteq> Some ErrReplayDetected"
  by (rule nonce_ttl_zero_no_protection)
    (simp_all add: second_def nonce_invar_def map_keys_distinct_def)

section \<open>The Redis store\<close>

text \<open>
  The Redis client is a third-party package: its \<^verbatim>\<open>SetNX\<close> is a parameter that takes the time,
  the key and the TTL and returns an error or whether the key was set.
\<close>

type_synonym 'r setnx = "int \<Rightarrow> string \<Rightarrow> int \<Rightarrow> 'r \<Rightarrow> (string + bool) \<times> 'r"

record redis_store =
  redis_prefix :: string
  redis_ttl :: int
  redis_ctxTimeout :: int

record redis_config =
  rc_URL :: string
  rc_KeyPrefix :: string
  rc_TTL :: int
  rc_CheckTimeout :: int

datatype redis_new_error = UrlRequired | TtlNotPositive | ParseUrl string | Ping string

text \<open>\<open>parse_url\<close> and \<open>ping\<close> return an error message or nothing, as the client library does.\<close>

definition new_redis_store ::
  "(string \<Rightarrow> string option) \<Rightarrow> string option \<Rightarrow> redis_config \<Rightarrow> redis_new_error + redis_store" where
  "new_redis_store parse_url ping cfg =
     (if rc_URL cfg = '''' then Inl UrlRequired
      else if rc_TTL cfg \<le> 0 then Inl TtlNotPositive
      else case parse_url (rc_URL cfg) of
             Some e \<Rightarrow> Inl (ParseUrl e)
           | None \<Rightarrow>
               let prefix = (if rc_KeyPrefix cfg = '''' then ''drs:nonce:'' else rc_KeyPrefix cfg);
                   timeout = (if rc_CheckTimeout cfg \<le> 0 then 250000000 else rc_CheckTimeout cfg)
               in case ping of
                    Some e \<Rightarrow> Inl (Ping e)
                  | None \<Rightarrow> Inr \<lparr>redis_prefix = prefix, redis_ttl = rc_TTL cfg,
                                 redis_ctxTimeout = timeout\<rparr>)"

definition redis_check ::
  "'r setnx \<Rightarrow> redis_store \<Rightarrow> int \<Rightarrow> string \<Rightarrow> 'r \<Rightarrow> nonce_error option \<times> 'r" where
  "redis_check setnx rs now jti r =
     (if jti = '''' then (Some ErrEmptyJti, r)
      else case setnx now (redis_prefix rs @ jti) (redis_ttl rs) r of
             (Inl e, r') \<Rightarrow> (Some (ErrBackend e), r')
           | (Inr ok, r') \<Rightarrow> ((if \<not> ok then Some ErrReplayDetected else None), r'))"

text \<open>
  The documented behaviour of \<^verbatim>\<open>SET key value NX EX ttl\<close>: it sets the key only when the key is
  not present, a key that was set stays present for its TTL (in seconds), and no such command
  removes a present key. \<open>present r k t\<close> says that the server state \<open>r\<close> holds \<open>k\<close> at \<open>t\<close>.
\<close>

definition setnx_ok :: "'r setnx \<Rightarrow> ('r \<Rightarrow> string \<Rightarrow> int \<Rightarrow> bool) \<Rightarrow> bool" where
  "setnx_ok setnx present =
     ((\<forall>now k d r r'. setnx now k d r = (Inr True, r') \<longrightarrow> \<not> present r k now) \<and>
      (\<forall>now k d r r' t. setnx now k d r = (Inr True, r') \<longrightarrow> now \<le> t \<longrightarrow> t < now + duration_secs d
          \<longrightarrow> present r' k t) \<and>
      (\<forall>now k k' d r res r' t. setnx now k d r = (res, r') \<longrightarrow> present r k' t \<longrightarrow> now \<le> t
          \<longrightarrow> present r' k' t))"

lemma redis_nonce_checker:
  assumes "setnx_ok setnx present"
  shows "nonce_checker (redis_check setnx rs) (\<lambda>r jti t. present r (redis_prefix rs @ jti) t)
           (\<lambda>_. True) (\<lambda>_. duration_secs (redis_ttl rs))"
  using assms unfolding nonce_checker_def setnx_ok_def redis_check_def
  by (auto split: if_splits prod.splits sum.splits)

text \<open>
  C25. The Redis store gives the same guarantee as the in-memory store, across restarts and
  replicas: if the server honours \<^verbatim>\<open>SET NX EX\<close>, two successful checks of one JTI are at least
  the TTL apart, whatever checks the replicas issue in between.
\<close>

theorem redis_single_use:
  assumes "setnx_ok setnx present"
    and "redis_check setnx rs t1 jti r0 = (None, r1)"
    and "check_run (redis_check setnx rs) between r1 = (res, r2)"
    and "\<forall>c \<in> set between. fst c \<le> t2"
    and "redis_check setnx rs t2 jti r2 = (None, r3)" and "t1 \<le> t2"
  shows "t1 + duration_secs (redis_ttl rs) \<le> t2"
  using nonce_checker.no_double_accept [OF redis_nonce_checker [OF assms(1)] TrueI assms(2-6)]
  by simp

text \<open>A server that keeps the expiry of each key, to show the hypothesis can hold.\<close>

definition table_setnx :: "(string \<rightharpoonup> int) setnx" where
  "table_setnx now k d r =
     (case r k of
        Some expiry \<Rightarrow> (if now < expiry then (Inr False, r)
                        else (Inr True, r(k \<mapsto> now + duration_secs d)))
      | None \<Rightarrow> (Inr True, r(k \<mapsto> now + duration_secs d)))"

lemma table_setnx_ok: "setnx_ok table_setnx (\<lambda>r k t. \<exists>e. r k = Some e \<and> t < e)"
  by (auto simp: setnx_ok_def table_setnx_def split: option.splits if_splits)

theorem redis_single_use_witness:
  "\<exists>r1 r3. let rs = \<lparr>redis_prefix = ''drs:nonce:'', redis_ttl = 10 * second, redis_ctxTimeout = 1\<rparr> in
     redis_check table_setnx rs 100 ''inv:1'' Map.empty = (None, r1) \<and>
     redis_check table_setnx rs 110 ''inv:1'' r1 = (None, r3) \<and> 100 + duration_secs (redis_ttl rs) \<le> 110"
proof -
  let ?rs = "\<lparr>redis_prefix = ''drs:nonce:'', redis_ttl = 10 * second, redis_ctxTimeout = 1\<rparr>"
  let ?r1 = "[''drs:nonce:inv:1'' \<mapsto> 110] :: string \<rightharpoonup> int"
  let ?r3 = "?r1(''drs:nonce:inv:1'' \<mapsto> 120)"
  have 1: "redis_check table_setnx ?rs 100 ''inv:1'' Map.empty = (None, ?r1)"
    by (simp add: redis_check_def table_setnx_def)
  have 2: "redis_check table_setnx ?rs 110 ''inv:1'' ?r1 = (None, ?r3)"
    by (simp add: redis_check_def table_setnx_def)
  have "100 + duration_secs (redis_ttl ?rs) \<le> 110"
    by (rule redis_single_use [OF table_setnx_ok 1 _ _ 2, of "[]"]) simp_all
  with 1 2 show ?thesis unfolding Let_def by blast
qed

end
