(* ===== verification/DRS_Policy.thy ===== *)
theory DRS_Policy
  imports DRS_Types
begin

text \<open>
  \<^verbatim>\<open>pkg/policy/evaluate.go\<close>: evaluation of the invocation arguments against a policy,
  attenuation between a parent and a child policy, and the resource URI matcher with its
  normalisation. A value of type \<open>policy_error\<close> names the branch that returned the error.
\<close>

section \<open>Helpers\<close>

datatype capability = Cost | Pii | Write | Calls | Tools | Resources | DataClasses

datatype policy_error =
    Missing capability            \<comment> \<open>a required argument is absent\<close>
  | BadType capability            \<comment> \<open>an argument has the wrong dynamic type\<close>
  | NegativeCost
  | NotPermitted capability       \<comment> \<open>the argument exceeds the policy\<close>
  | ChildOmits capability
  | ChildLoosens capability
  | ChildWildcard capability
  | ChildAdds capability string

fun has_wildcard :: "string list \<Rightarrow> bool" where
  "has_wildcard [] = False"
| "has_wildcard (v # vs) = (if v = ''*'' then True else has_wildcard vs)"

fun contains :: "string list \<Rightarrow> string \<Rightarrow> bool" where
  "contains [] item = False"
| "contains (v # vs) item = (if v = item then True else contains vs item)"

fun tool_covered :: "string \<Rightarrow> string list \<Rightarrow> bool" where
  "tool_covered tool [] = False"
| "tool_covered tool (t # ts) = (if t = ''*'' \<or> t = tool then True else tool_covered tool ts)"

fun class_covered :: "string \<Rightarrow> string list \<Rightarrow> bool" where
  "class_covered cls [] = False"
| "class_covered cls (c # cs) = (if c = ''*'' \<or> c = cls then True else class_covered cls cs)"

definition to_float64 :: "gval \<Rightarrow> f64 option" where
  "to_float64 v =
     (let f = (case v of
                 GFloat64 x \<Rightarrow> Some x
               | GFloat32 x \<Rightarrow> Some x
               | GInt n \<Rightarrow> Some (f64_of_int64 n)
               | GInt64 n \<Rightarrow> Some (f64_of_int64 n)
               | _ \<Rightarrow> None)
      in case f of Some x \<Rightarrow> (if f64_finite x then Some x else None) | None \<Rightarrow> None)"

lemma has_wildcard_iff [simp]: "has_wildcard xs \<longleftrightarrow> ''*'' \<in> set xs"
  by (induction xs) auto

lemma contains_iff [simp]: "contains xs x \<longleftrightarrow> x \<in> set xs"
  by (induction xs) auto

lemma tool_covered_iff [simp]: "tool_covered t xs \<longleftrightarrow> ''*'' \<in> set xs \<or> t \<in> set xs"
  by (induction xs) auto

lemma class_covered_iff [simp]: "class_covered t xs \<longleftrightarrow> ''*'' \<in> set xs \<or> t \<in> set xs"
  by (induction xs) auto

lemma to_float64_finite: "to_float64 v = Some x \<Longrightarrow> f64_finite x"
  by (auto simp: to_float64_def Let_def split: option.splits if_splits)

section \<open>Resource URIs\<close>

definition uri_split :: "string \<Rightarrow> string \<times> string" where
  "uri_split uri =
     (case index_sub ''://'' uri of
        Some idx \<Rightarrow> (take (idx + 3) uri, drop (idx + 3) uri)
      | None \<Rightarrow> ('''', uri))"

definition decode_segment :: "string \<Rightarrow> string" where
  "decode_segment seg = (case path_unescape seg of Some d \<Rightarrow> d | None \<Rightarrow> seg)"

fun normalize_segments :: "string list \<Rightarrow> string list \<Rightarrow> string list" where
  "normalize_segments parts [] = parts"
| "normalize_segments parts (seg # segs) =
     (let decoded = decode_segment seg in
      if decoded = ''..'' then
        normalize_segments (if 0 < length parts then butlast parts else parts) segs
      else if decoded = ''.'' \<or> decoded = '''' then normalize_segments parts segs
      else normalize_segments (parts @ [decoded]) segs)"

definition normalize_resource_uri :: "string \<Rightarrow> string" where
  "normalize_resource_uri uri =
     (let (scheme, path) = uri_split uri
      in scheme @ join_with ''/'' (normalize_segments [] (split_on CHR ''/'' path)))"

definition pattern_covers :: "string \<Rightarrow> string \<Rightarrow> string \<Rightarrow> bool" where
  "pattern_covers uri norm_uri p =
     (p = ''*'' \<or> p = uri \<or> p = norm_uri \<or>
      (1 < length p \<and> p ! (length p - 1) = CHR ''*'' \<and> p ! (length p - 2) = CHR ''/'' \<and>
       (let np = normalize_resource_uri (take (length p - 1) p);
            norm_prefix = (if \<not> suffix ''/'' np then np @ ''/'' else np)
        in prefix norm_prefix norm_uri)))"

fun covered_by_any :: "string \<Rightarrow> string \<Rightarrow> string list \<Rightarrow> bool" where
  "covered_by_any uri norm_uri [] = False"
| "covered_by_any uri norm_uri (p # ps) =
     (if pattern_covers uri norm_uri p then True else covered_by_any uri norm_uri ps)"

definition resource_covered :: "string \<Rightarrow> string list \<Rightarrow> bool" where
  "resource_covered uri patterns = covered_by_any uri (normalize_resource_uri uri) patterns"

lemma covered_by_any_iff: "covered_by_any u n ps \<longleftrightarrow> (\<exists>p \<in> set ps. pattern_covers u n p)"
  by (induction ps) auto

lemma resource_covered_iff:
  "resource_covered uri ps \<longleftrightarrow> (\<exists>p \<in> set ps. pattern_covers uri (normalize_resource_uri uri) p)"
  by (simp add: resource_covered_def covered_by_any_iff)

lemma resource_covered_mono: "resource_covered u ps \<Longrightarrow> set ps \<subseteq> set qs \<Longrightarrow> resource_covered u qs"
  by (auto simp: resource_covered_iff)

section \<open>Evaluation\<close>

definition eval_cost :: "policy \<Rightarrow> args \<Rightarrow> policy_error option" where
  "eval_cost pol as =
     (case MaxCostUSD pol of
        None \<Rightarrow> None
      | Some limit \<Rightarrow>
          (case as ''estimated_cost_usd'' of
             None \<Rightarrow> Some (Missing Cost)
           | Some raw \<Rightarrow>
               (case to_float64 raw of
                  None \<Rightarrow> Some (BadType Cost)
                | Some cost \<Rightarrow>
                    if f64_less cost (Finite 0) then Some NegativeCost
                    else if f64_less limit cost then Some (NotPermitted Cost)
                    else None)))"

definition eval_flag :: "bool option \<Rightarrow> string \<Rightarrow> capability \<Rightarrow> args \<Rightarrow> policy_error option" where
  "eval_flag flag key cap as =
     (if flag = Some False then
        (case as key of
           None \<Rightarrow> Some (Missing cap)
         | Some (GBool b) \<Rightarrow> (if b then Some (NotPermitted cap) else None)
         | Some _ \<Rightarrow> Some (BadType cap))
      else None)"

definition eval_list ::
  "string list \<Rightarrow> (string \<Rightarrow> string list \<Rightarrow> bool) \<Rightarrow> string \<Rightarrow> capability \<Rightarrow> args \<Rightarrow> policy_error option"
where
  "eval_list allowed covered key cap as =
     (if 0 < length allowed \<and> \<not> has_wildcard allowed then
        (case as key of
           None \<Rightarrow> Some (Missing cap)
         | Some (GString s) \<Rightarrow> (if \<not> covered s allowed then Some (NotPermitted cap) else None)
         | Some _ \<Rightarrow> Some (BadType cap))
      else None)"

definition evaluate :: "policy \<Rightarrow> args \<Rightarrow> policy_error option" where
  "evaluate pol as = first_error
     [eval_cost pol as,
      eval_flag (PIIAccess pol) ''pii_access'' Pii as,
      eval_flag (WriteAccess pol) ''write_access'' Write as,
      eval_list (AllowedTools pol) tool_covered ''tool'' Tools as,
      eval_list (AllowedResources pol) resource_covered ''resource_uri'' Resources as,
      eval_list (AllowedDataClasses pol) class_covered ''data_class'' DataClasses as]"

section \<open>Attenuation\<close>

definition attenuate_cost :: "policy \<Rightarrow> policy \<Rightarrow> policy_error option" where
  "attenuate_cost parent child =
     (case MaxCostUSD parent of
        None \<Rightarrow> None
      | Some p \<Rightarrow>
          (case MaxCostUSD child of
             None \<Rightarrow> Some (ChildOmits Cost)
           | Some c \<Rightarrow> guard_err (f64_less p c) (ChildLoosens Cost)))"

definition attenuate_flag :: "bool option \<Rightarrow> bool option \<Rightarrow> capability \<Rightarrow> policy_error option" where
  "attenuate_flag parent child cap =
     (if parent = Some False then guard_err (child = Some True) (ChildLoosens cap) else None)"

definition attenuate_calls :: "policy \<Rightarrow> policy \<Rightarrow> policy_error option" where
  "attenuate_calls parent child =
     (case MaxCalls parent of
        None \<Rightarrow> None
      | Some p \<Rightarrow>
          (case MaxCalls child of
             None \<Rightarrow> Some (ChildOmits Calls)
           | Some c \<Rightarrow> guard_err (p < c) (ChildLoosens Calls)))"

definition attenuate_list :: "string list \<Rightarrow> string list \<Rightarrow> capability \<Rightarrow> policy_error option" where
  "attenuate_list parent child cap =
     (if 0 < length parent \<and> \<not> has_wildcard parent then
        (if length child = 0 then Some (ChildOmits cap)
         else check_all (\<lambda>item. if item = ''*'' then Some (ChildWildcard cap)
                                else guard_err (\<not> contains parent item) (ChildAdds cap item)) child)
      else None)"

text \<open>The data class loop reports a wildcard with the same message as any other addition.\<close>

definition attenuate_classes :: "string list \<Rightarrow> string list \<Rightarrow> policy_error option" where
  "attenuate_classes parent child =
     (if 0 < length parent \<and> \<not> has_wildcard parent then
        (if length child = 0 then Some (ChildOmits DataClasses)
         else check_all (\<lambda>cls. guard_err (cls = ''*'' \<or> \<not> contains parent cls)
                                 (ChildAdds DataClasses cls)) child)
      else None)"

definition check_attenuation :: "policy \<Rightarrow> policy \<Rightarrow> policy_error option" where
  "check_attenuation parent child = first_error
     [attenuate_cost parent child,
      attenuate_flag (PIIAccess parent) (PIIAccess child) Pii,
      attenuate_flag (WriteAccess parent) (WriteAccess child) Write,
      attenuate_calls parent child,
      attenuate_list (AllowedTools parent) (AllowedTools child) Tools,
      attenuate_list (AllowedResources parent) (AllowedResources child) Resources,
      attenuate_classes (AllowedDataClasses parent) (AllowedDataClasses child)]"

lemmas attenuate_defs =
  attenuate_cost_def attenuate_flag_def attenuate_calls_def attenuate_list_def
  attenuate_classes_def

section \<open>What evaluation and attenuation establish\<close>

definition cost_ok :: "f64 option \<Rightarrow> args \<Rightarrow> bool" where
  "cost_ok limit as =
     (case limit of None \<Rightarrow> True
      | Some l \<Rightarrow> (case as ''estimated_cost_usd'' of None \<Rightarrow> False
          | Some raw \<Rightarrow> (case to_float64 raw of None \<Rightarrow> False
              | Some c \<Rightarrow> \<not> f64_less c (Finite 0) \<and> \<not> f64_less l c)))"

definition flag_ok :: "bool option \<Rightarrow> string \<Rightarrow> args \<Rightarrow> bool" where
  "flag_ok flag key as = (flag = Some False \<longrightarrow> as key = Some (GBool False))"

definition list_ok :: "string list \<Rightarrow> (string \<Rightarrow> bool) \<Rightarrow> string \<Rightarrow> args \<Rightarrow> bool" where
  "list_ok allowed admits key as =
     (allowed = [] \<or> ''*'' \<in> set allowed \<or> (\<exists>s. as key = Some (GString s) \<and> admits s))"

lemma eval_cost_None: "eval_cost pol as = None \<longleftrightarrow> cost_ok (MaxCostUSD pol) as"
  by (auto simp: eval_cost_def cost_ok_def split: option.splits)

lemma eval_flag_None: "eval_flag flag key cap as = None \<longleftrightarrow> flag_ok flag key as"
  by (auto simp: eval_flag_def flag_ok_def split: option.splits gval.splits)

lemma eval_list_None:
  "eval_list allowed cov key cap as = None \<longleftrightarrow> list_ok allowed (\<lambda>s. cov s allowed) key as"
  by (auto simp: eval_list_def list_ok_def split: option.splits gval.splits)

lemmas eval_None = eval_cost_None eval_flag_None eval_list_None

lemma list_ok_set: "list_ok allowed (\<lambda>s. ''*'' \<in> set allowed \<or> s \<in> set allowed) key as \<longleftrightarrow>
    list_ok allowed (\<lambda>s. s \<in> set allowed) key as"
  by (auto simp: list_ok_def)

lemma evaluate_None:
  "evaluate pol as = None \<longleftrightarrow>
     cost_ok (MaxCostUSD pol) as \<and>
     flag_ok (PIIAccess pol) ''pii_access'' as \<and>
     flag_ok (WriteAccess pol) ''write_access'' as \<and>
     list_ok (AllowedTools pol) (\<lambda>s. s \<in> set (AllowedTools pol)) ''tool'' as \<and>
     list_ok (AllowedResources pol) (\<lambda>s. resource_covered s (AllowedResources pol)) ''resource_uri'' as \<and>
     list_ok (AllowedDataClasses pol) (\<lambda>s. s \<in> set (AllowedDataClasses pol)) ''data_class'' as"
  by (simp add: evaluate_def eval_None list_ok_set)

definition list_narrows :: "string list \<Rightarrow> string list \<Rightarrow> bool" where
  "list_narrows parent child =
     (parent = [] \<or> ''*'' \<in> set parent \<or>
      (child \<noteq> [] \<and> ''*'' \<notin> set child \<and> set child \<subseteq> set parent))"

lemma attenuate_list_None [simp]: "attenuate_list p c cap = None \<longleftrightarrow> list_narrows p c"
  by (auto simp: attenuate_list_def list_narrows_def)

lemma attenuate_classes_None [simp]: "attenuate_classes p c = None \<longleftrightarrow> list_narrows p c"
  by (auto simp: attenuate_classes_def list_narrows_def)

lemma attenuate_cost_None [simp]: "attenuate_cost p c = None \<longleftrightarrow>
    MaxCostUSD p = None \<or> (\<exists>l m. MaxCostUSD p = Some l \<and> MaxCostUSD c = Some m \<and> \<not> f64_less l m)"
  by (simp add: attenuate_cost_def split: option.splits)

lemma attenuate_flag_None [simp]:
  "attenuate_flag p c cap = None \<longleftrightarrow> \<not> (p = Some False \<and> c = Some True)"
  by (simp add: attenuate_flag_def)

lemma attenuate_calls_None [simp]: "attenuate_calls p c = None \<longleftrightarrow>
    MaxCalls p = None \<or> (\<exists>l m. MaxCalls p = Some l \<and> MaxCalls c = Some m \<and> m \<le> l)"
  by (simp add: attenuate_calls_def not_less split: option.splits)

lemma check_attenuation_None:
  "check_attenuation p c = None \<longleftrightarrow>
     (MaxCostUSD p = None \<or>
        (\<exists>l m. MaxCostUSD p = Some l \<and> MaxCostUSD c = Some m \<and> \<not> f64_less l m)) \<and>
     \<not> (PIIAccess p = Some False \<and> PIIAccess c = Some True) \<and>
     \<not> (WriteAccess p = Some False \<and> WriteAccess c = Some True) \<and>
     (MaxCalls p = None \<or> (\<exists>l m. MaxCalls p = Some l \<and> MaxCalls c = Some m \<and> m \<le> l)) \<and>
     list_narrows (AllowedTools p) (AllowedTools c) \<and>
     list_narrows (AllowedResources p) (AllowedResources c) \<and>
     list_narrows (AllowedDataClasses p) (AllowedDataClasses c)"
  by (simp add: check_attenuation_def)

lemma list_narrows_refl_not_wild: "''*'' \<notin> set xs \<Longrightarrow> list_narrows xs xs"
  by (auto simp: list_narrows_def)

lemma list_narrows_trans: "list_narrows p c \<Longrightarrow> list_narrows c d \<Longrightarrow> list_narrows p d"
  by (auto simp: list_narrows_def)

lemma list_ok_narrow:
  assumes "list_narrows p c" and "list_ok c adm_c key as"
    and "\<And>s. adm_c s \<Longrightarrow> set c \<subseteq> set p \<Longrightarrow> adm_p s"
  shows "list_ok p adm_p key as"
  using assms by (auto simp: list_narrows_def list_ok_def)

lemma cost_ok_narrow:
  assumes "cost_ok (Some m) as" and "\<not> f64_less l m" and "m \<noteq> NaN"
  shows "cost_ok (Some l) as"
  using assms by (auto simp: cost_ok_def dest: f64_not_greater_trans split: option.splits)

text \<open>
  C12. Evaluation is fail-closed and exact: \<^verbatim>\<open>Evaluate\<close> returns nil if and only if every
  constrained capability is met, that is, a finite non-negative cost claim within the limit,
  an explicit boolean false for each denied flag, and a string argument that the list (or, for
  resources, the matcher) admits for each restricted list. In particular a missing or badly
  typed argument is always an error.
\<close>

theorem evaluate_exact:
  "evaluate pol as = None \<longleftrightarrow>
     cost_ok (MaxCostUSD pol) as \<and>
     flag_ok (PIIAccess pol) ''pii_access'' as \<and>
     flag_ok (WriteAccess pol) ''write_access'' as \<and>
     list_ok (AllowedTools pol) (\<lambda>s. s \<in> set (AllowedTools pol)) ''tool'' as \<and>
     list_ok (AllowedResources pol) (\<lambda>s. resource_covered s (AllowedResources pol)) ''resource_uri'' as \<and>
     list_ok (AllowedDataClasses pol) (\<lambda>s. s \<in> set (AllowedDataClasses pol)) ''data_class'' as"
  by (rule evaluate_None)

text \<open>
  C11. Attenuation is sound for children that state the denied flags. If \<^verbatim>\<open>CheckAttenuation\<close> accepts a
  child policy, the child states \<^verbatim>\<open>pii_access\<close> and \<^verbatim>\<open>write_access\<close> wherever its parent denies them, its
  cost limit is not NaN (which JSON cannot express), and the arguments satisfy the child policy,
  then they satisfy the parent policy. Without the condition on the flags this is false, as
  \<open>attenuation_flag_gap\<close> shows.
\<close>

theorem attenuation_sound:
  assumes att: "check_attenuation parent child = None"
    and ev: "evaluate child as = None"
    and pii: "PIIAccess parent = Some False \<Longrightarrow> PIIAccess child \<noteq> None"
    and wr: "WriteAccess parent = Some False \<Longrightarrow> WriteAccess child \<noteq> None"
    and num: "MaxCostUSD child \<noteq> Some NaN"
  shows "evaluate parent as = None"
proof -
  from att have narrow:
      "list_narrows (AllowedTools parent) (AllowedTools child)"
      "list_narrows (AllowedResources parent) (AllowedResources child)"
      "list_narrows (AllowedDataClasses parent) (AllowedDataClasses child)"
    by (simp_all add: check_attenuation_None)
  note parts = ev [unfolded evaluate_None]
  have "cost_ok (MaxCostUSD parent) as"
  proof (cases "MaxCostUSD parent")
    case None
    then show ?thesis by (simp add: cost_ok_def)
  next
    case (Some l)
    with att obtain m where "MaxCostUSD child = Some m" "\<not> f64_less l m"
      by (auto simp: check_attenuation_None)
    with parts num Some show ?thesis using cost_ok_narrow by auto
  qed
  moreover have "flag_ok (PIIAccess parent) ''pii_access'' as"
      "flag_ok (WriteAccess parent) ''write_access'' as"
    using att parts pii wr by (auto simp: flag_ok_def check_attenuation_None)
  moreover have "list_ok (AllowedTools parent) (\<lambda>s. s \<in> set (AllowedTools parent)) ''tool'' as"
    using narrow(1) parts by (auto intro: list_ok_narrow)
  moreover have "list_ok (AllowedResources parent)
      (\<lambda>s. resource_covered s (AllowedResources parent)) ''resource_uri'' as"
    using narrow(2) parts by (auto intro: list_ok_narrow resource_covered_mono)
  moreover have "list_ok (AllowedDataClasses parent)
      (\<lambda>s. s \<in> set (AllowedDataClasses parent)) ''data_class'' as"
    using narrow(3) parts by (auto intro: list_ok_narrow)
  ultimately show ?thesis by (simp add: evaluate_None)
qed

definition demo_parent :: policy where
  "demo_parent = open_policy\<lparr>MaxCostUSD := Some (Finite 10), PIIAccess := Some False,
     MaxCalls := Some 5, AllowedTools := [''search'', ''fetch'']\<rparr>"

definition demo_child :: policy where
  "demo_child = open_policy\<lparr>MaxCostUSD := Some (Finite 3), PIIAccess := Some False,
     MaxCalls := Some 2, AllowedTools := [''search'']\<rparr>"

definition demo_args :: args where
  "demo_args = [''tool'' \<mapsto> GString ''search'', ''estimated_cost_usd'' \<mapsto> GFloat64 (Finite 2),
     ''pii_access'' \<mapsto> GBool False]"

lemmas demo_defs = demo_parent_def demo_child_def demo_args_def open_policy_def

lemma demo_evaluate: "evaluate demo_child demo_args = None"
  by (simp add: evaluate_None cost_ok_def flag_ok_def list_ok_def demo_defs to_float64_def)

lemma demo_attenuates: "check_attenuation demo_parent demo_child = None"
  by (simp add: check_attenuation_None list_narrows_def demo_defs)

theorem attenuation_sound_witness: "evaluate demo_parent demo_args = None"
  by (rule attenuation_sound [OF demo_attenuates demo_evaluate]) (simp_all add: demo_defs)

text \<open>
  The flag hypotheses of the previous property are needed: a child that merely omits
  \<^verbatim>\<open>pii_access\<close> is accepted under a parent that denies it, and its own policy then admits
  arguments that request PII and that the parent rejects. Attenuation of the boolean flags is
  therefore not transitive either: through such a child, a grandchild may grant PII again.
\<close>

theorem attenuation_flag_gap:
  "\<exists>parent child grandchild as.
     check_attenuation parent child = None \<and> check_attenuation child grandchild = None \<and>
     PIIAccess parent = Some False \<and> PIIAccess grandchild = Some True \<and>
     check_attenuation parent grandchild = Some (ChildLoosens Pii) \<and>
     evaluate child as = None \<and> evaluate parent as = Some (NotPermitted Pii)"
proof -
  let ?p = "open_policy\<lparr>PIIAccess := Some False\<rparr>"
  let ?c = "open_policy"
  let ?g = "open_policy\<lparr>PIIAccess := Some True\<rparr>"
  let ?as = "[''pii_access'' \<mapsto> GBool True] :: args"
  have "check_attenuation ?p ?c = None" "check_attenuation ?c ?g = None" "evaluate ?c ?as = None"
    by (simp_all add: check_attenuation_None evaluate_None cost_ok_def flag_ok_def list_ok_def
        list_narrows_def open_policy_def)
  moreover have "check_attenuation ?p ?g = Some (ChildLoosens Pii)"
    by (simp add: check_attenuation_def attenuate_defs guard_err_def open_policy_def)
  moreover have "evaluate ?p ?as = Some (NotPermitted Pii)"
    by (simp add: evaluate_def eval_cost_def eval_flag_def open_policy_def)
  ultimately show ?thesis by (intro exI [of _ ?p] exI [of _ ?c] exI [of _ ?g] exI [of _ ?as]) simp
qed

section \<open>What resource normalisation establishes\<close>

definition uri_scheme :: "string \<Rightarrow> string" where
  "uri_scheme uri = fst (uri_split uri)"

definition uri_segments :: "string \<Rightarrow> string list" where
  "uri_segments uri = normalize_segments [] (split_on CHR ''/'' (snd (uri_split uri)))"

definition dot_free :: "string list \<Rightarrow> bool" where
  "dot_free parts = (\<forall>p \<in> set parts. p \<noteq> '''' \<and> p \<noteq> ''.'' \<and> p \<noteq> ''..'')"

definition slash_free :: "string list \<Rightarrow> bool" where
  "slash_free parts = (\<forall>p \<in> set parts. CHR ''/'' \<notin> set p)"

text \<open>No path segment of the URI hides a slash behind percent-encoding.\<close>

definition no_hidden_slash :: "string \<Rightarrow> bool" where
  "no_hidden_slash uri =
     (\<forall>seg \<in> set (split_on CHR ''/'' (snd (uri_split uri))). CHR ''/'' \<notin> set (decode_segment seg))"

lemma normalize_resource_uri_eq:
  "normalize_resource_uri uri = uri_scheme uri @ join_with ''/'' (uri_segments uri)"
  by (simp add: normalize_resource_uri_def uri_scheme_def uri_segments_def split_beta)

text \<open>A predicate that the kept segments satisfy holds of every segment of the result.\<close>

lemma normalize_segments_keeps:
  assumes "\<forall>p \<in> set parts. P p"
    and "\<And>s. s \<in> set segs \<Longrightarrow> decode_segment s \<notin> {'''', ''.'', ''..''} \<Longrightarrow> P (decode_segment s)"
  shows "\<forall>p \<in> set (normalize_segments parts segs). P p"
  using assms
proof (induction segs arbitrary: parts)
  case (Cons s segs)
  have rest: "\<And>s. s \<in> set segs \<Longrightarrow> decode_segment s \<notin> {'''', ''.'', ''..''} \<Longrightarrow> P (decode_segment s)"
    using Cons.prems(2) by simp
  consider "decode_segment s = ''..''" | "decode_segment s = ''.'' \<or> decode_segment s = ''''"
    | "decode_segment s \<notin> {'''', ''.'', ''..''}" by blast
  then show ?case
  proof cases
    case 1
    have "\<forall>p \<in> set (butlast parts). P p" using Cons.prems(1) by (auto dest: in_set_butlastD)
    with Cons.prems(1) show ?thesis using Cons.IH [OF _ rest] 1 by (simp add: Let_def)
  next
    case 2
    then show ?thesis using Cons.IH [OF Cons.prems(1) rest] by (auto simp: Let_def)
  next
    case 3
    then have "\<forall>p \<in> set (parts @ [decode_segment s]). P p" using Cons.prems by simp
    from Cons.IH [OF this rest] 3 show ?thesis by (simp add: Let_def)
  qed
qed simp

lemma uri_segments_dot_free: "dot_free (uri_segments uri)"
  unfolding uri_segments_def dot_free_def by (rule normalize_segments_keeps) simp_all

lemma uri_segments_slash_free: "no_hidden_slash uri \<Longrightarrow> slash_free (uri_segments uri)"
  unfolding uri_segments_def slash_free_def no_hidden_slash_def
  by (rule normalize_segments_keeps) simp_all

lemma split_on_join_prefix:
  "slash_free ps \<Longrightarrow> ps \<noteq> [] \<Longrightarrow>
    split_on CHR ''/'' (join_with ''/'' ps @ CHR ''/'' # rest) = ps @ split_on CHR ''/'' rest"
proof (induction ps)
  case (Cons p ps)
  then show ?case by (cases ps) (auto simp: slash_free_def split_on_append)
qed simp

lemma join_prefix_segments:
  assumes "prefix (join_with ''/'' ps @ ''/'') (join_with ''/'' qs)"
    and "slash_free ps" "slash_free qs" "ps \<noteq> []"
  shows "prefix ps qs"
proof -
  from assms(1) obtain rest where eq: "join_with ''/'' qs = join_with ''/'' ps @ CHR ''/'' # rest"
    by (auto simp: prefix_def)
  then have "qs \<noteq> []" by (cases qs) auto
  then have "qs = split_on CHR ''/'' (join_with ''/'' qs)"
    using assms(3) by (simp add: split_join slash_free_def)
  with eq assms(2,4) show ?thesis by (simp add: split_on_join_prefix prefix_def)
qed

lemma join_ends_slash:
  assumes "slash_free ps" "dot_free ps" "ps \<noteq> []"
  shows "join_with ''/'' ps \<noteq> [] \<and> last (join_with ''/'' ps) \<noteq> CHR ''/''"
  using assms
proof (induction ps)
  case (Cons p ps)
  show ?case
  proof (cases ps)
    case Nil
    with Cons.prems have p: "p \<noteq> []" "CHR ''/'' \<notin> set p"
      by (auto simp: slash_free_def dot_free_def)
    then have "last p \<noteq> CHR ''/''" using last_in_set [of p] by metis
    with Nil p show ?thesis by simp
  next
    case (Cons q qs)
    with Cons.IH Cons.prems show ?thesis by (auto simp: slash_free_def dot_free_def)
  qed
qed simp

lemma not_suffix_slash:
  assumes "slash_free ps" "dot_free ps" "ps \<noteq> []"
  shows "\<not> suffix ''/'' (sch @ join_with ''/'' ps)"
  using join_ends_slash [OF assms] by (auto simp: suffix_def dest!: arg_cong [where f = last])

text \<open>
  Wildcard patterns respect directory structure: when a pattern \<^verbatim>\<open>P/*\<close> covers a URI of the
  same scheme that it does not match literally, and neither hides a slash in an encoded
  segment, the normalised segments of \<^verbatim>\<open>P/\<close> are a list prefix of those of the URI, and no
  segment of the URI is empty, \<^verbatim>\<open>.\<close> or \<^verbatim>\<open>..\<close>; so neither \<^verbatim>\<open>../\<close> traversal nor a sibling
  such as \<^verbatim>\<open>toolsadmin\<close> escapes the granted directory.
\<close>

theorem wildcard_stays_inside:
  assumes cov: "pattern_covers uri (normalize_resource_uri uri) (dir @ ''/*'')"
    and lit: "dir @ ''/*'' \<noteq> uri" "dir @ ''/*'' \<noteq> normalize_resource_uri uri"
    and hid: "no_hidden_slash uri" "no_hidden_slash (dir @ ''/'')"
    and sch: "uri_scheme uri = uri_scheme (dir @ ''/'')"
  shows "prefix (uri_segments (dir @ ''/'')) (uri_segments uri) \<and>
         dot_free (uri_segments uri) \<and> slash_free (uri_segments uri)"
proof -
  let ?ps = "uri_segments (dir @ ''/'')" and ?qs = "uri_segments uri"
  let ?np = "normalize_resource_uri (dir @ ''/'')"
  have free: "slash_free ?ps" "slash_free ?qs" "dot_free ?ps" "dot_free ?qs"
    using hid by (simp_all add: uri_segments_slash_free uri_segments_dot_free)
  have "dir @ ''/*'' \<noteq> ''*''" by (cases dir) auto
  then have pre: "prefix (if \<not> suffix ''/'' ?np then ?np @ ''/'' else ?np) (normalize_resource_uri uri)"
    using cov lit by (auto simp: pattern_covers_def Let_def)
  have "prefix ?ps ?qs"
  proof (cases "?ps = []")
    case False
    then have "\<not> suffix ''/'' ?np"
      using free by (simp add: normalize_resource_uri_eq not_suffix_slash)
    with pre sch have "prefix (join_with ''/'' ?ps @ ''/'') (join_with ''/'' ?qs)"
      by (simp add: normalize_resource_uri_eq)
    then show ?thesis using free False by (intro join_prefix_segments)
  qed simp
  with free show ?thesis by simp
qed

lemma demo_uri:
  "uri_split ''mcp://tools/a/../web'' = (''mcp://'', ''tools/a/../web'')"
  "uri_split ''mcp://tools/'' = (''mcp://'', ''tools/'')"
  by (simp_all add: uri_split_def)

lemma demo_segments:
  "uri_segments ''mcp://tools/a/../web'' = [''tools'', ''web'']"
  "uri_segments ''mcp://tools/'' = [''tools'']"
  by (simp_all add: uri_segments_def demo_uri decode_segment_def)

theorem wildcard_stays_inside_witness:
  "prefix (uri_segments ''mcp://tools/'') (uri_segments ''mcp://tools/a/../web'') \<and>
   dot_free (uri_segments ''mcp://tools/a/../web'')"
proof -
  let ?u = "''mcp://tools/a/../web''"
  have n: "normalize_resource_uri ?u = ''mcp://tools/web''"
      "normalize_resource_uri ''mcp://tools/'' = ''mcp://tools''"
    by (simp_all add: normalize_resource_uri_eq demo_segments uri_scheme_def demo_uri)
  have "pattern_covers ?u (normalize_resource_uri ?u) (''mcp://tools'' @ ''/*'')"
    by (simp add: pattern_covers_def n suffix_def prefix_def eval_nat_numeral)
  from wildcard_stays_inside [OF this] show ?thesis
    by (simp add: n no_hidden_slash_def demo_uri decode_segment_def uri_scheme_def)
qed

text \<open>
  The hypothesis on encoded slashes is needed: the segment \<^verbatim>\<open>..%2Fadmin\<close> decodes to
  \<^verbatim>\<open>../admin\<close> and is kept whole, so the pattern \<^verbatim>\<open>mcp://tools/*\<close> covers a URI whose
  normalised form still contains a traversal, and normalising that form once more leaves the
  granted directory. The matcher is not a fixed point of its own normalisation.
\<close>

theorem encoded_slash_escapes:
  "resource_covered ''mcp://tools/..%2Fadmin'' [''mcp://tools/*''] \<and>
   normalize_resource_uri ''mcp://tools/..%2Fadmin'' = ''mcp://tools/../admin'' \<and>
   normalize_resource_uri (normalize_resource_uri ''mcp://tools/..%2Fadmin'') = ''mcp://admin'' \<and>
   \<not> resource_covered ''mcp://tools/../admin'' [''mcp://tools/*'']"
proof -
  have dec: "path_unescape ''..%2Fadmin'' = Some ''../admin''"
    by code_simp
  have s1: "uri_split ''mcp://tools/..%2Fadmin'' = (''mcp://'', ''tools/..%2Fadmin'')"
    "uri_split ''mcp://tools/../admin'' = (''mcp://'', ''tools/../admin'')"
    by (simp_all add: uri_split_def)
  have n1: "normalize_resource_uri ''mcp://tools/..%2Fadmin'' = ''mcp://tools/../admin''"
    using dec by (simp add: normalize_resource_uri_def s1 decode_segment_def)
  have n2: "normalize_resource_uri ''mcp://tools/../admin'' = ''mcp://admin''"
    by (simp add: normalize_resource_uri_def s1 decode_segment_def)
  have n3: "normalize_resource_uri ''mcp://tools/'' = ''mcp://tools''"
    by (simp add: normalize_resource_uri_eq demo_segments uri_scheme_def demo_uri)
  show ?thesis
    by (simp add: resource_covered_iff pattern_covers_def n1 n2 n3 suffix_def prefix_def
        eval_nat_numeral)
qed

end
