(* ===== verification/DRS_Base58.thy ===== *)
theory DRS_Base58
  imports DRS_Text
begin

text \<open>
  \<^verbatim>\<open>base58Decode\<close> of \<^verbatim>\<open>pkg/resolver/did.go\<close>, with its indexing of a 256-entry table by a rune
  (a panic beyond the table), and the proof that it inverts base58 encoding: on success the
  bytes determine the string and conversely.
\<close>

section \<open>The decoder\<close>

definition b58_alphabet :: string where
  "b58_alphabet = ''123456789ABCDEFGHJKLMNPQRSTUVWXYZabcdefghijkmnopqrstuvwxyz''"

datatype b58_outcome = B58Bytes "nat list" | B58Invalid nat | B58Panic

text \<open>The table entry of a rune below 256: its index in the alphabet, or \<open>None\<close> for \<open>-1\<close>.\<close>

definition b58_lookup :: "nat \<Rightarrow> nat option" where
  "b58_lookup r = index_byte (char_of r) b58_alphabet"

text \<open>\<open>result = result * 58 + carry\<close>, from the last byte to the first.\<close>

definition b58_shift :: "nat list \<Rightarrow> nat \<Rightarrow> nat \<times> nat list" where
  "b58_shift result carry =
     foldr (\<lambda>b (carry, acc). let c = carry + 58 * b in (c div 256, (c mod 256) # acc)) result (carry, [])"

fun b58_prepend :: "nat \<Rightarrow> nat list \<Rightarrow> nat list" where
  "b58_prepend carry result =
     (if carry = 0 then result else b58_prepend (carry div 256) ((carry mod 256) # result))"

declare b58_prepend.simps [simp del]

lemma b58_prepend_0 [simp]: "b58_prepend 0 result = result"
  by (subst b58_prepend.simps) simp

definition b58_step :: "nat list \<Rightarrow> nat \<Rightarrow> nat list" where
  "b58_step result digit = (let (carry, result') = b58_shift result digit in b58_prepend carry result')"

fun b58_loop :: "nat list \<Rightarrow> nat list \<Rightarrow> b58_outcome" where
  "b58_loop [] result = B58Bytes result"
| "b58_loop (r # rs) result =
     (if 256 \<le> r then B58Panic
      else case b58_lookup r of
             None \<Rightarrow> B58Invalid r
           | Some digit \<Rightarrow> b58_loop rs (b58_step result digit))"

definition base58_decode :: "string \<Rightarrow> b58_outcome" where
  "base58_decode s =
     (case b58_loop (go_runes s) [] of
        B58Bytes result \<Rightarrow> B58Bytes (map (\<lambda>_. 0) (takeWhile (\<lambda>r. r = 49) (go_runes s)) @ result)
      | out \<Rightarrow> out)"

section \<open>Positional numbers\<close>

definition be_value :: "nat \<Rightarrow> nat list \<Rightarrow> nat" where
  "be_value B ds = foldl (\<lambda>v d. v * B + d) 0 ds"

lemma be_value_snoc: "be_value B (ds @ [d]) = be_value B ds * B + d"
  by (simp add: be_value_def)

lemma be_value_Nil [simp]: "be_value B [] = 0"
  by (simp add: be_value_def)

lemma be_value_append: "be_value B (as @ bs) = be_value B as * B ^ length bs + be_value B bs"
proof (induction bs rule: rev_induct)
  case (snoc b bs)
  have "be_value B (as @ bs @ [b]) = be_value B (as @ bs) * B + b"
    using be_value_snoc [of B "as @ bs" b] by simp
  then show ?case by (simp add: snoc be_value_snoc algebra_simps)
qed simp

lemma be_value_Cons: "be_value B (d # ds) = d * B ^ length ds + be_value B ds"
  using be_value_append [of B "[d]" ds] by (simp add: be_value_def)

lemma be_value_less: "\<forall>d \<in> set ds. d < B \<Longrightarrow> be_value B ds < B ^ length ds"
proof (induction ds)
  case (Cons d ds)
  then have "d + 1 \<le> B" by auto
  then have "(d + 1) * B ^ length ds \<le> B * B ^ length ds" by (rule mult_right_mono) simp
  with Cons show ?case by (simp add: be_value_Cons)
qed simp

definition canonical :: "nat \<Rightarrow> nat list \<Rightarrow> bool" where
  "canonical B ds = ((\<forall>d \<in> set ds. d < B) \<and> (ds \<noteq> [] \<longrightarrow> hd ds \<noteq> 0))"

lemma canonical_ge: "canonical B ds \<Longrightarrow> ds \<noteq> [] \<Longrightarrow> B ^ (length ds - 1) \<le> be_value B ds"
proof (cases ds)
  case (Cons d t)
  assume "canonical B ds"
  with Cons have "1 \<le> d" by (auto simp: canonical_def)
  then have "1 * B ^ length t \<le> d * B ^ length t" by (rule mult_right_mono) simp
  then have "B ^ length t \<le> d * B ^ length t + be_value B t" by (simp only: mult_1 trans_le_add1)
  with Cons show ?thesis by (simp only: be_value_Cons length_Cons diff_Suc_1)
qed simp

lemma canonical_length:
  assumes "canonical B as" "canonical B bs" "be_value B as = be_value B bs" "length as < length bs" "1 < B"
  shows False
proof -
  have "be_value B as < B ^ length as" using assms(1) by (auto simp: canonical_def intro: be_value_less)
  also have "B ^ length as \<le> B ^ (length bs - 1)"
    using assms(4,5) by (intro power_increasing) auto
  also have "\<dots> \<le> be_value B bs" using assms by (intro canonical_ge) auto
  finally show False using assms(3) by simp
qed

lemma be_value_inj:
  "length as = length bs \<Longrightarrow> \<forall>d \<in> set as. d < B \<Longrightarrow> \<forall>d \<in> set bs. d < B \<Longrightarrow>
    be_value B as = be_value B bs \<Longrightarrow> as = bs"
proof (induction as bs rule: rev_induct2)
  case (4 a as b bs)
  then have "be_value B as * B + a = be_value B bs * B + b" "a < B" "b < B"
    by (simp_all add: be_value_snoc)
  then have "a = b" "be_value B as = be_value B bs"
    by (metis mod_less mod_mult_self3, metis div_mult_self3 div_less add_0_right not_less_zero)
  with 4 show ?case by simp
qed auto

lemma canonical_unique:
  "canonical B as \<Longrightarrow> canonical B bs \<Longrightarrow> be_value B as = be_value B bs \<Longrightarrow> 1 < B \<Longrightarrow> as = bs"
  using canonical_length [of B as bs] canonical_length [of B bs as] be_value_inj [of as bs B]
  by (metis canonical_def linorder_neqE_nat)

fun to_base :: "nat \<Rightarrow> nat \<Rightarrow> nat list" where
  "to_base B n = (if n = 0 \<or> B < 2 then [] else to_base B (n div B) @ [n mod B])"

declare to_base.simps [simp del]

lemma to_base_props: "1 < B \<Longrightarrow> canonical B (to_base B n) \<and> be_value B (to_base B n) = n"
proof (induction B n rule: to_base.induct)
  case (1 B n)
  show ?case
  proof (cases "n = 0")
    case False
    with 1 have IH: "canonical B (to_base B (n div B))" "be_value B (to_base B (n div B)) = n div B" by auto
    have eq: "to_base B n = to_base B (n div B) @ [n mod B]"
      using False 1(2) by (subst to_base.simps) simp
    have "to_base B (n div B) = [] \<Longrightarrow> n mod B \<noteq> 0"
      using IH(2) False 1(2) by (metis be_value_Nil mod_eq_self_iff_div_eq_0)
    with IH 1(2) show ?thesis unfolding eq
      by (auto simp: canonical_def be_value_snoc hd_append)
  qed (simp add: to_base.simps canonical_def)
qed

section \<open>What the loop computes\<close>

lemma b58_shift_props:
  "b58_shift bs c = (c', bs') \<Longrightarrow>
    length bs' = length bs \<and> (\<forall>b \<in> set bs'. b < 256) \<and>
    c' * 256 ^ length bs + be_value 256 bs' = 58 * be_value 256 bs + c"
proof (induction bs arbitrary: c' bs')
  case (Cons b bs)
  obtain c1 bs1 where 1: "b58_shift bs c = (c1, bs1)" by (cases "b58_shift bs c")
  with Cons.prems have eq: "c' = (c1 + 58 * b) div 256" "bs' = (c1 + 58 * b) mod 256 # bs1"
    by (auto simp: b58_shift_def Let_def)
  from Cons.IH [OF 1] have IH: "length bs1 = length bs" "\<forall>b \<in> set bs1. b < 256"
      "c1 * 256 ^ length bs + be_value 256 bs1 = 58 * be_value 256 bs + c" by auto
  have "c' * 256 + (c1 + 58 * b) mod 256 = c1 + 58 * b" unfolding eq by simp
  then have "(c' * 256 + (c1 + 58 * b) mod 256) * 256 ^ length bs = (c1 + 58 * b) * 256 ^ length bs"
    by simp
  then have "c' * 256 * 256 ^ length bs + (c1 + 58 * b) mod 256 * 256 ^ length bs =
      c1 * 256 ^ length bs + 58 * b * 256 ^ length bs" by (simp only: distrib_right)
  then have "c' * 256 ^ length (b # bs) + be_value 256 bs' =
      (c1 * 256 ^ length bs + be_value 256 bs1) + 58 * (b * 256 ^ length bs)"
    using IH(1) by (simp add: eq(2) be_value_Cons mult.assoc)
  with IH show ?case unfolding eq by (auto simp: be_value_Cons algebra_simps)
qed (simp add: b58_shift_def)

lemma b58_prepend_props:
  "\<forall>b \<in> set bs. b < 256 \<Longrightarrow>
    (\<forall>b \<in> set (b58_prepend c bs). b < 256) \<and>
    be_value 256 (b58_prepend c bs) = c * 256 ^ length bs + be_value 256 bs \<and>
    (0 < c \<longrightarrow> b58_prepend c bs \<noteq> [] \<and> hd (b58_prepend c bs) \<noteq> 0)"
proof (induction c bs rule: b58_prepend.induct)
  case (1 c bs)
  show ?case
  proof (cases "c = 0")
    case False
    let ?r = "b58_prepend (c div 256) (c mod 256 # bs)"
    from False have eq: "b58_prepend c bs = ?r" by (subst b58_prepend.simps) simp
    have "\<forall>b \<in> set (c mod 256 # bs). b < 256" using "1.prems" by simp
    from "1.IH" [OF False this] have IH: "\<forall>b \<in> set ?r. b < 256"
        "be_value 256 ?r = c div 256 * 256 ^ Suc (length bs) + be_value 256 (c mod 256 # bs)"
        "0 < c div 256 \<longrightarrow> ?r \<noteq> [] \<and> hd ?r \<noteq> 0" unfolding length_Cons by blast+
    have val: "c div 256 * (256 * 256 ^ length bs) + c mod 256 * 256 ^ length bs = c * 256 ^ length bs"
    proof -
      have "(c div 256 * 256 + c mod 256) * 256 ^ length bs = c * 256 ^ length bs" by simp
      then show ?thesis by (simp only: distrib_right mult.assoc)
    qed
    have hd: "?r \<noteq> [] \<and> hd ?r \<noteq> 0"
    proof (cases "c div 256 = 0")
      case True
      then have "?r = c mod 256 # bs" by simp
      moreover have "c mod 256 \<noteq> 0" using True False by (metis mod_eq_self_iff_div_eq_0)
      ultimately show ?thesis by simp
    qed (use IH(3) in simp)
    have "be_value 256 ?r = c * 256 ^ length bs + be_value 256 bs"
      by (simp only: IH(2) be_value_Cons power_Suc add.assoc [symmetric] val)
    with IH(1) hd show ?thesis unfolding eq by blast
  qed (use 1 in simp)
qed

lemma b58_step_props:
  assumes "canonical 256 bs"
  shows "canonical 256 (b58_step bs d) \<and> be_value 256 (b58_step bs d) = 58 * be_value 256 bs + d"
proof -
  obtain c bs' where 1: "b58_shift bs d = (c, bs')" by (cases "b58_shift bs d")
  from b58_shift_props [OF 1] have s: "length bs' = length bs" "\<forall>b \<in> set bs'. b < 256"
      "c * 256 ^ length bs + be_value 256 bs' = 58 * be_value 256 bs + d" by auto
  note p = b58_prepend_props [OF s(2), of c]
  have eq: "b58_step bs d = b58_prepend c bs'" by (simp add: b58_step_def 1)
  have "b58_step bs d \<noteq> [] \<longrightarrow> hd (b58_step bs d) \<noteq> 0"
  proof (cases "c = 0")
    case True
    then have eq': "b58_step bs d = bs'" by (simp add: eq)
    show ?thesis
    proof (intro impI notI)
      assume ne: "b58_step bs d \<noteq> []" and z: "hd (b58_step bs d) = 0"
      then obtain t where t: "bs' = 0 # t" by (cases bs') (auto simp: eq')
      have "be_value 256 bs' < 256 ^ length t"
        using s(2) t be_value_less [of t 256] by (simp add: be_value_Cons)
      moreover have "256 ^ length t \<le> be_value 256 bs"
        using canonical_ge [OF assms] s(1) t by (cases bs) auto
      ultimately show False using s(3) True by simp
    qed
  qed (use p eq in simp)
  with p s show ?thesis by (simp add: eq canonical_def)
qed

lemma b58_loop_bytes:
  assumes "canonical 256 acc"
  shows "b58_loop rs acc = B58Bytes out \<longleftrightarrow>
    (\<exists>ds. map b58_lookup rs = map Some ds \<and> (\<forall>r \<in> set rs. r < 256) \<and> canonical 256 out \<and>
       be_value 256 out = be_value 256 acc * 58 ^ length rs + be_value 58 ds)"
  using assms
proof (induction rs arbitrary: acc)
  case Nil
  then show ?case using canonical_unique [of 256 out acc] by auto
next
  case (Cons r rs)
  show ?case
  proof (cases "b58_lookup r")
    case (Some d)
    note step = b58_step_props [OF Cons.prems, of d]
    have "(be_value 256 acc * 58 + d) * 58 ^ length rs + v = be_value 256 acc * 58 ^ Suc (length rs)
        + (d * 58 ^ length rs + v)" for v by (simp add: algebra_simps)
    moreover have "length ds = length rs" if "map b58_lookup rs = map Some ds" for ds
      using map_eq_imp_length_eq [OF that] by simp
    ultimately show ?thesis
      using Some Cons.IH [of "b58_step acc d"] step
      by (auto simp: map_eq_Cons_conv Cons_eq_map_conv be_value_Cons mult.commute)
  qed (auto simp: map_eq_Cons_conv Cons_eq_map_conv)
qed

section \<open>Decoding inverts encoding\<close>

definition zeros :: "nat list \<Rightarrow> nat" where
  "zeros ds = length (takeWhile (\<lambda>d. d = 0) ds)"

definition core :: "nat list \<Rightarrow> nat list" where
  "core ds = dropWhile (\<lambda>d. d = 0) ds"

definition symbols :: "nat list \<Rightarrow> string" where
  "symbols ds = map (\<lambda>d. b58_alphabet ! d) ds"

definition base58_encode :: "nat list \<Rightarrow> string" where
  "base58_encode bs = replicate (zeros bs) CHR ''1'' @ symbols (to_base 58 (be_value 256 bs))"

lemma be_value_zeros: "be_value B (replicate n 0 @ ds) = be_value B ds"
  by (induction n) (auto simp: be_value_Cons)

lemma zeros_core: "ds = replicate (zeros ds) 0 @ core ds"
proof -
  have "takeWhile (\<lambda>d. d = 0) ds = replicate (zeros ds) 0"
    unfolding zeros_def by (rule replicate_length_same [symmetric]) (auto dest: set_takeWhileD)
  then show ?thesis by (metis core_def takeWhile_dropWhile_id)
qed

lemma canonical_core: "\<forall>d \<in> set ds. d < B \<Longrightarrow> canonical B (core ds)"
  using hd_dropWhile [of "\<lambda>d. d = 0" ds]
  by (auto simp: canonical_def core_def dest: set_dropWhileD)

lemma be_value_core: "be_value B (core ds) = be_value B ds"
  by (metis be_value_zeros zeros_core)

lemma to_base_core: "\<forall>d \<in> set ds. d < B \<Longrightarrow> 1 < B \<Longrightarrow> be_value B ds = n \<Longrightarrow> to_base B n = core ds"
  using canonical_unique [of B "to_base B n" "core ds"] to_base_props [of B n] canonical_core [of ds B]
  by (simp add: be_value_core)

lemma zeros_pad: "canonical B ds \<Longrightarrow> zeros (replicate n 0 @ ds) = n"
  by (cases ds) (auto simp: zeros_def canonical_def takeWhile_tail)

lemma to_base_less: "1 < B \<Longrightarrow> d \<in> set (to_base B n) \<Longrightarrow> d < B"
  using to_base_props [of B n] by (auto simp: canonical_def)

lemma index_byte_nth: "distinct s \<Longrightarrow> i < length s \<Longrightarrow> index_byte (s ! i) s = Some i"
proof -
  assume d: "distinct s" and i: "i < length s"
  then obtain j where "index_byte (s ! i) s = Some j"
    by (cases "index_byte (s ! i) s") (auto simp: index_byte_None)
  with index_byte_Some [OF this] d i show ?thesis by (auto simp: nth_eq_iff_index_eq)
qed

lemma alphabet_props: "distinct b58_alphabet" "length b58_alphabet = 58" "b58_alphabet ! 0 = CHR ''1''"
    "list_all (\<lambda>c. code_of c < 128) b58_alphabet"
  by (simp_all add: b58_alphabet_def code_of_def)

lemma b58_lookup_digit:
  "r < 256 \<Longrightarrow> b58_lookup r = Some d \<longleftrightarrow> d < 58 \<and> r = code_of (b58_alphabet ! d)"
  using index_byte_Some [of "char_of r" b58_alphabet d] index_byte_nth [of b58_alphabet d] alphabet_props
  by (auto simp: b58_lookup_def)

lemma symbol_small: "d < 58 \<Longrightarrow> code_of (b58_alphabet ! d) < 128"
  using alphabet_props by (simp add: list_all_length)

lemma one_code: "code_of CHR ''1'' = 49"
  by (simp add: code_of_def)

lemma symbol_one: "d < 58 \<Longrightarrow> code_of (b58_alphabet ! d) = 49 \<longleftrightarrow> d = 0"
proof -
  assume d: "d < 58"
  have "code_of (b58_alphabet ! d) = 49 \<longleftrightarrow> b58_alphabet ! d = CHR ''1''"
    by (metis char_of_code_of one_code)
  then show ?thesis
    using d alphabet_props nth_eq_iff_index_eq [of b58_alphabet d 0] by simp
qed

lemma rune_small: "fst (decode_rune (b # bs)) < 128 \<Longrightarrow> decode_rune (b # bs) = (b, 1)"
proof (rule ccontr)
  assume small: "fst (decode_rune (b # bs)) < 128" and "decode_rune (b # bs) \<noteq> (b, 1)"
  then have "\<not> b < 0x80" by (auto simp: decode_rune_def)
  moreover have "2 * 64 \<le> (b - 0xC0) * 64" if "0xC2 \<le> b" using that by simp
  moreover have "128 \<le> (b - 0xE0) * 4096 + (c - 0x80) * 64" if "0xE0 \<le> b" "b = 0xE0 \<longrightarrow> 0xA0 \<le> c" for c
    using that by (cases "b = 0xE0") auto
  moreover have "128 \<le> (b - 0xF0) * 262144 + (c - 0x80) * 4096" if "0xF0 \<le> b" "b = 0xF0 \<longrightarrow> 0x90 \<le> c" for c
    using that by (cases "b = 0xF0") auto
  ultimately show False using small
    by (simp add: decode_rune_def split: if_splits) (fastforce simp: trans_le_add1)+
qed

lemma runes_small: "\<forall>r \<in> set (runes_of bs). r < 128 \<Longrightarrow> runes_of bs = bs"
proof (induction bs rule: runes_of.induct)
  case (2 b bs)
  then have "decode_rune (b # bs) = (b, 1)" by (intro rune_small) auto
  with 2 show ?case by simp
qed simp

lemma go_runes_small: "\<forall>r \<in> set (go_runes s). r < 128 \<Longrightarrow> s = map char_of (go_runes s)"
  using runes_small [of "map code_of s"] by (simp add: go_runes_def comp_def)

lemma symbols_runes: "\<forall>d \<in> set ds. d < 58 \<Longrightarrow> go_runes (symbols ds) = map code_of (symbols ds)"
  by (intro go_runes_ascii) (auto simp: ascii_def symbols_def list_all_iff symbol_small)

lemma canonical_Nil [simp]: "canonical B []"
  by (simp add: canonical_def)

lemma decode_symbols:
  assumes "\<forall>d \<in> set ds. d < 58"
  shows "base58_decode (symbols ds) = B58Bytes (replicate (zeros ds) 0 @ to_base 256 (be_value 58 ds))"
proof -
  let ?rs = "map code_of (symbols ds)"
  have "map b58_lookup ?rs = map Some ds"
    using assms symbol_small by (force simp: symbols_def b58_lookup_digit)
  then have "b58_loop ?rs [] = B58Bytes (to_base 256 (be_value 58 ds))"
    using to_base_props [of 256 "be_value 58 ds"] by (subst b58_loop_bytes) auto
  moreover have "map (\<lambda>_. 0) (takeWhile (\<lambda>r. r = 49) ?rs) = replicate (zeros ds) 0"
    using assms unfolding zeros_def symbols_def
    by (induction ds) (auto simp: symbol_one)
  ultimately show ?thesis
    by (simp add: base58_decode_def symbols_runes [OF assms])
qed

lemma decode_only_symbols:
  assumes "base58_decode s = B58Bytes out"
  obtains ds where "\<forall>d \<in> set ds. d < 58" "s = symbols ds"
proof -
  from assms obtain res where "b58_loop (go_runes s) [] = B58Bytes res"
    by (auto simp: base58_decode_def split: b58_outcome.splits)
  then obtain ds where ds: "map b58_lookup (go_runes s) = map Some ds" "\<forall>r \<in> set (go_runes s). r < 256"
    by (auto simp: b58_loop_bytes)
  have len: "length ds = length (go_runes s)" using map_eq_imp_length_eq [OF ds(1)] by simp
  have nth: "ds ! i < 58 \<and> go_runes s ! i = code_of (b58_alphabet ! (ds ! i))" if "i < length ds" for i
  proof -
    have "b58_lookup (go_runes s ! i) = Some (ds ! i)" using that len ds(1) by (metis nth_map)
    with ds(2) len that show ?thesis by (simp add: b58_lookup_digit)
  qed
  then have "\<forall>d \<in> set ds. d < 58" by (auto simp: in_set_conv_nth)
  moreover have runes: "go_runes s = map code_of (symbols ds)"
    using nth len by (intro nth_equalityI) (auto simp: symbols_def)
  moreover have "s = map char_of (go_runes s)"
    using calculation by (intro go_runes_small) (auto simp: symbols_def symbol_small)
  ultimately show ?thesis using that [of ds] by (simp add: comp_def)
qed

lemma base58_decode_iff:
  "base58_decode s = B58Bytes out \<longleftrightarrow> (\<forall>b \<in> set out. b < 256) \<and> s = base58_encode out"
proof (intro iffI conjI)
  assume dec: "base58_decode s = B58Bytes out"
  then obtain ds where ds: "\<forall>d \<in> set ds. d < 58" "s = symbols ds" by (rule decode_only_symbols)
  let ?v = "be_value 58 ds"
  have out: "out = replicate (zeros ds) 0 @ to_base 256 ?v"
    using dec decode_symbols [OF ds(1)] ds(2) by simp
  then show "\<forall>b \<in> set out. b < 256" by (auto dest: to_base_less [of 256, simplified])
  have "zeros out = zeros ds" "be_value 256 out = ?v"
    using out to_base_props [of 256 ?v] by (simp_all add: zeros_pad [of 256] be_value_zeros)
  then have "base58_encode out = symbols (replicate (zeros ds) 0 @ core ds)"
    using to_base_core [of ds 58 ?v] ds(1) alphabet_props(3)
    by (simp add: base58_encode_def symbols_def)
  then show "s = base58_encode out" using ds(2) zeros_core [of ds] by simp
next
  assume r: "(\<forall>b \<in> set out. b < 256) \<and> s = base58_encode out"
  let ?v = "be_value 256 out" let ?ds = "replicate (zeros out) 0 @ to_base 58 ?v"
  have ds: "\<forall>d \<in> set ?ds. d < 58" by (auto dest: to_base_less [of 58, simplified])
  have "s = symbols ?ds" using r alphabet_props(3) by (simp add: base58_encode_def symbols_def)
  moreover have "zeros ?ds = zeros out" "be_value 58 ?ds = ?v"
    using to_base_props [of 58 ?v] by (simp_all add: zeros_pad [of 58] be_value_zeros)
  moreover have "to_base 256 ?v = core out" using r by (simp add: to_base_core)
  ultimately show "base58_decode s = B58Bytes out"
    using decode_symbols [OF ds] zeros_core [of out] by simp
qed

lemma b58_loop_panic: "b58_loop rs acc = B58Panic \<longleftrightarrow>
    (\<exists>pre r post. rs = pre @ r # post \<and> 256 \<le> r \<and> (\<forall>p \<in> set pre. p < 256 \<and> b58_lookup p \<noteq> None))"
proof (induction rs arbitrary: acc)
  case (Cons x rs)
  show ?case
  proof (cases "256 \<le> x")
    case True
    then show ?thesis by (auto intro!: exI [of _ "[]"])
  next
    case False
    have "(\<exists>pre r post. x # rs = pre @ r # post \<and> 256 \<le> r \<and> (\<forall>p \<in> set pre. p < 256 \<and> b58_lookup p \<noteq> None))
      \<longleftrightarrow> b58_lookup x \<noteq> None \<and> (\<exists>pre r post. rs = pre @ r # post \<and> 256 \<le> r \<and>
            (\<forall>p \<in> set pre. p < 256 \<and> b58_lookup p \<noteq> None))"
      using False by (fastforce simp: Cons_eq_append_conv intro: exI [of _ "x # _"])
    with False Cons show ?thesis by (auto split: option.splits)
  qed
qed simp

end
