(* ===== verification/DRS_LRU.thy ===== *)
theory DRS_LRU
  imports DRS_Text
begin

text \<open>
  The interface of \<^verbatim>\<open>github.com/hashicorp/golang-lru\<close> as the resolver and the memory store use
  it. The library is not part of the repository, so a cache is a parameter: a record of
  operations on an arbitrary state, with \<open>lru_ok\<close> stating the documented behaviour relative to
  the map that a cache currently holds. Eviction may drop any other entry at an \<^verbatim>\<open>Add\<close>.
\<close>

record ('v, 'c) lru =
  lru_new :: "int \<Rightarrow> string + 'c"
  lru_get :: "string \<Rightarrow> 'c \<Rightarrow> 'v option \<times> 'c"
  lru_add :: "string \<Rightarrow> 'v \<Rightarrow> 'c \<Rightarrow> 'c"
  lru_remove :: "string \<Rightarrow> 'c \<Rightarrow> 'c"
  lru_len :: "'c \<Rightarrow> nat"

definition lru_ok :: "('v, 'c) lru \<Rightarrow> ('c \<Rightarrow> string \<rightharpoonup> 'v) \<Rightarrow> bool" where
  "lru_ok ops look =
     ((\<forall>n c. lru_new ops n = Inr c \<longrightarrow> look c = Map.empty) \<and>
      (\<forall>k c. fst (lru_get ops k c) = look c k \<and> look (snd (lru_get ops k c)) = look c) \<and>
      (\<forall>k v c. look (lru_add ops k v c) k = Some v \<and> look (lru_add ops k v c) \<subseteq>\<^sub>m (look c)(k \<mapsto> v)) \<and>
      (\<forall>k c. look (lru_remove ops k c) = (look c)(k := None)))"

lemma lru_okD:
  assumes "lru_ok ops look"
  shows lru_new_look: "lru_new ops n = Inr c \<Longrightarrow> look c = Map.empty"
    and lru_get_fst: "fst (lru_get ops k c) = look c k"
    and lru_get_look: "look (snd (lru_get ops k c)) = look c"
    and lru_add_same: "look (lru_add ops k v c) k = Some v"
    and lru_add_sub: "look (lru_add ops k v c) \<subseteq>\<^sub>m (look c)(k \<mapsto> v)"
    and lru_remove_look: "look (lru_remove ops k c) = (look c)(k := None)"
  using assms by (auto simp: lru_ok_def)

lemma map_le_Some: "f \<subseteq>\<^sub>m g \<Longrightarrow> f k = Some v \<Longrightarrow> g k = Some v"
  by (metis domI map_le_def)

lemma lru_add_cases:
  assumes "lru_ok ops look" and "look (lru_add ops k v c) k' = Some v'"
  shows "k' = k \<and> v' = v \<or> look c k' = Some v'"
  using map_le_Some [OF lru_add_sub [OF assms(1)] assms(2)] by (auto split: if_splits)

section \<open>A concrete cache for worked examples\<close>

definition without :: "string \<Rightarrow> (string \<times> 'v) list \<Rightarrow> (string \<times> 'v) list" where
  "without k xs = filter (\<lambda>e. fst e \<noteq> k) xs"

definition list_lru :: "('v, nat \<times> (string \<times> 'v) list) lru" where
  "list_lru =
     \<lparr>lru_new = (\<lambda>n. if n \<le> 0 then Inl ''must provide a positive size'' else Inr (nat n - 1, [])),
      lru_get = (\<lambda>k (n, xs). case map_of xs k of
                               None \<Rightarrow> (None, (n, xs))
                             | Some v \<Rightarrow> (Some v, (n, (k, v) # without k xs))),
      lru_add = (\<lambda>k v (n, xs). (n, (k, v) # take n (without k xs))),
      lru_remove = (\<lambda>k (n, xs). (n, without k xs)),
      lru_len = (\<lambda>(n, xs). length xs)\<rparr>"

definition list_look :: "nat \<times> (string \<times> 'v) list \<Rightarrow> string \<rightharpoonup> 'v" where
  "list_look c = map_of (snd c)"

lemma map_of_without: "map_of (without k xs) = (map_of xs)(k := None)"
  by (induction xs) (auto simp: without_def fun_eq_iff)

lemma map_of_take: "map_of (take n xs) \<subseteq>\<^sub>m map_of xs"
proof (induction xs arbitrary: n)
  case (Cons x xs)
  show ?case
  proof (cases n)
    case (Suc m)
    with map_le_Some [OF Cons [of m]] show ?thesis by (auto simp: map_le_def)
  qed simp
qed simp

lemma list_lru_ok: "lru_ok list_lru list_look"
proof -
  have "((map_of (take n (without k xs)))(k \<mapsto> v)) \<subseteq>\<^sub>m ((map_of xs)(k \<mapsto> v))" for n k v and xs :: "(string \<times> 'v) list"
    using map_of_take [of n "without k xs"] by (auto simp: map_of_without map_le_def split: if_splits)
  then show ?thesis
    by (auto simp: lru_ok_def list_lru_def list_look_def map_of_without fun_eq_iff split: option.split if_splits)
qed

end
