(* ===== verification/DRS_Resolver.thy ===== *)
theory DRS_Resolver
  imports DRS_Base58 DRS_LRU
begin

unbundle bit_operations_syntax

text \<open>
  \<^verbatim>\<open>pkg/resolver/did.go\<close>: resolution of \<^verbatim>\<open>did:key\<close> and \<^verbatim>\<open>did:web\<close> identifiers to Ed25519 keys, with
  the SSRF filter, the circuit breaker and the TTL cache. DNS, HTTP, the clock and the parsers
  of the standard library that only feed them are the record \<open>net\<close>; the two LRU caches are
  parameters (\<open>DRS_LRU\<close>). Circuit states are shared by pointer in the code, so they live in a
  heap (a list of cells) and the LRU cache holds addresses.
\<close>

section \<open>Outcomes and state\<close>

text \<open>
  Resolution of a DID yields the key, an error with its text, or a panic of the goroutine,
  which ends the process.
\<close>

datatype resolve_outcome = Resolved "byte list" | ResolveError string | ResolvePanic

record jwk_key =
  Kty :: string
  Crv :: string
  JwkX :: string

record verification_method =
  vm_Type :: string
  PublicKeyMultibase :: string
  PublicKeyJwk :: "jwk_key option"

datatype http_outcome =
    HttpFailed string
  | HttpResponse (http_status: nat) (http_body: "string + string")

record 'n net =
  clock :: "'n \<Rightarrow> int \<times> 'n"
  lookup_host :: "string \<Rightarrow> 'n \<Rightarrow> (string + string list) \<times> 'n"
  lookup_ip_addr :: "string \<Rightarrow> 'n \<Rightarrow> (string + byte list list) \<times> 'n"
  http_get :: "string \<Rightarrow> 'n \<Rightarrow> http_outcome \<times> 'n"
  new_request :: "string \<Rightarrow> string option"
  url_hostname :: "string \<Rightarrow> string + string"
  parse_ip :: "string \<Rightarrow> byte list option"
  ip_string :: "byte list \<Rightarrow> string"
  unmarshal_did_document :: "string \<Rightarrow> string + verification_method list"
  printable :: "nat \<Rightarrow> bool"

definition maxDIDDocumentBytes :: nat where
  "maxDIDDocumentBytes = 2 ^ 20"

definition decodedLen :: nat where
  "decodedLen = 34"

section \<open>Circuit breaker\<close>

text \<open>Times are nanoseconds; the zero \<^verbatim>\<open>time.Time\<close> of a closed circuit is \<open>None\<close>.\<close>

record circuit_state =
  failures :: nat
  openUntil :: "int option"

definition new_circuit :: circuit_state where
  "new_circuit = \<lparr>failures = 0, openUntil = None\<rparr>"

definition is_open :: "int \<Rightarrow> circuit_state \<Rightarrow> bool \<times> circuit_state" where
  "is_open now s =
     (case openUntil s of
        None \<Rightarrow> (False, s)
      | Some u \<Rightarrow> if u < now then (False, s\<lparr>openUntil := None\<rparr>) else (True, s))"

definition record_success :: "circuit_state \<Rightarrow> circuit_state" where
  "record_success s = s\<lparr>failures := 0, openUntil := None\<rparr>"

definition record_failure :: "int \<Rightarrow> int \<Rightarrow> int \<Rightarrow> circuit_state \<Rightarrow> circuit_state" where
  "record_failure threshold cooldown now s =
     (let s' = s\<lparr>failures := failures s + 1\<rparr>
      in if threshold \<le> int (failures s') then s'\<lparr>openUntil := Some (now + cooldown)\<rparr> else s')"

section \<open>The resolver object\<close>

record cache_entry =
  ce_key :: "byte list"
  ce_expiry :: int

record resolver_config =
  rc_ttl :: int
  cbThreshold :: int
  cbCooldown :: int
  allowPrivateHosts :: bool

record ('c, 'd, 'n) resolver =
  cache :: 'c
  circuitStates :: 'd
  circuits :: "circuit_state list"
  netw :: 'n

definition circuitStateCacheSize :: int where
  "circuitStateCacheSize = 10000"

definition new_resolver ::
  "(cache_entry, 'c) lru \<Rightarrow> (nat, 'd) lru \<Rightarrow> int \<Rightarrow> int \<Rightarrow> 'n \<Rightarrow>
   string + resolver_config \<times> ('c, 'd, 'n) resolver" where
  "new_resolver CA CS cacheSize ttl n =
     (case lru_new CA cacheSize of
        Inl e \<Rightarrow> Inl (''resolver: failed to create LRU cache: '' @ e)
      | Inr c \<Rightarrow>
          (case lru_new CS circuitStateCacheSize of
             Inl e \<Rightarrow> Inl (''resolver: failed to create circuit state cache: '' @ e)
           | Inr d \<Rightarrow>
               Inr (\<lparr>rc_ttl = ttl, cbThreshold = 5, cbCooldown = 60 * second, allowPrivateHosts = False\<rparr>,
                    \<lparr>cache = c, circuitStates = d, circuits = [], netw = n\<rparr>)))"

definition new_with_circuit_breaker ::
  "(cache_entry, 'c) lru \<Rightarrow> (nat, 'd) lru \<Rightarrow> int \<Rightarrow> int \<Rightarrow> int \<Rightarrow> int \<Rightarrow> 'n \<Rightarrow>
   string + resolver_config \<times> ('c, 'd, 'n) resolver" where
  "new_with_circuit_breaker CA CS cacheSize ttl threshold cooldown n =
     (case new_resolver CA CS cacheSize ttl n of
        Inl e \<Rightarrow> Inl e
      | Inr (cfg, r) \<Rightarrow> Inr (cfg\<lparr>cbThreshold := threshold, cbCooldown := cooldown\<rparr>, r))"

text \<open>\<open>getCircuitState\<close> returns the address of the state, allocating a new cell when needed.\<close>

definition get_circuit_state ::
  "(nat, 'd) lru \<Rightarrow> string \<Rightarrow> ('c, 'd, 'n) resolver \<Rightarrow> nat \<times> ('c, 'd, 'n) resolver" where
  "get_circuit_state CS did r =
     (let (found, d) = lru_get CS did (circuitStates r)
      in case found of
           Some a \<Rightarrow> (a, r\<lparr>circuitStates := d\<rparr>)
         | None \<Rightarrow>
             let a = length (circuits r)
             in (a, r\<lparr>circuitStates := lru_add CS did a d, circuits := circuits r @ [new_circuit]\<rparr>))"

definition circuit_state_count :: "(nat, 'd) lru \<Rightarrow> ('c, 'd, 'n) resolver \<Rightarrow> nat" where
  "circuit_state_count CS r = lru_len CS (circuitStates r)"

definition read_clock :: "'n net \<Rightarrow> ('c, 'd, 'n) resolver \<Rightarrow> int \<times> ('c, 'd, 'n) resolver" where
  "read_clock N r = (let (now, n) = clock N (netw r) in (now, r\<lparr>netw := n\<rparr>))"

section \<open>Private addresses\<close>

type_synonym ip = "byte list"

definition ip_to4 :: "ip \<Rightarrow> ip option" where
  "ip_to4 a =
     (if length a = 4 then Some a
      else if length a = 16 \<and> take 10 a = replicate 10 0 \<and> a ! 10 = 0xff \<and> a ! 11 = 0xff
      then Some (drop 12 a) else None)"

definition cidr_mask :: "nat \<Rightarrow> nat \<Rightarrow> byte list" where
  "cidr_mask ones len =
     map (\<lambda>i. if 8 * i + 8 \<le> ones then 0xff
              else if ones \<le> 8 * i then 0 else word_of_nat (256 - 2 ^ (8 - (ones - 8 * i)))) [0..<len]"

definition privateRanges :: "(ip \<times> byte list) list" where
  "privateRanges =
     [([127, 0, 0, 0], cidr_mask 8 4),
      (replicate 15 0 @ [1], cidr_mask 128 16),
      ([169, 254, 0, 0], cidr_mask 16 4),
      ([0xfe, 0x80] @ replicate 14 0, cidr_mask 10 16),
      ([10, 0, 0, 0], cidr_mask 8 4),
      ([172, 16, 0, 0], cidr_mask 12 4),
      ([192, 168, 0, 0], cidr_mask 16 4),
      ([0xfc] @ replicate 15 0, cidr_mask 7 16),
      ([100, 64, 0, 0], cidr_mask 10 4),
      ([0, 0, 0, 0], cidr_mask 8 4)]"

text \<open>\<open>IPNet.Contains\<close>, on ranges whose base address is masked already.\<close>

definition ipnet_contains :: "ip \<times> byte list \<Rightarrow> ip \<Rightarrow> bool" where
  "ipnet_contains block a =
     (let (nn, m) = block;
          x = (case ip_to4 a of Some b \<Rightarrow> b | None \<Rightarrow> a)
      in length x = length nn \<and>
         list_all (\<lambda>(n, k, b). n AND k = b AND k) (zip nn (zip m x)))"

definition is_private_ip :: "ip \<Rightarrow> bool" where
  "is_private_ip a = list_ex (\<lambda>block. ipnet_contains block a) privateRanges"

definition is_private_host :: "'n net \<Rightarrow> string \<Rightarrow> 'n \<Rightarrow> (string + bool) \<times> 'n" where
  "is_private_host N host0 n =
     (let host = (case split_host_port host0 of Some (h, _) \<Rightarrow> h | None \<Rightarrow> host0)
      in case lookup_host N host n of
           (Inl e, n') \<Rightarrow>
             (Inl (''did:web host resolution failed for '' @ go_quote (printable N) host @ '': '' @ e), n')
         | (Inr addrs, n') \<Rightarrow>
             (Inr (list_ex (\<lambda>a. case parse_ip N a of None \<Rightarrow> False | Some i \<Rightarrow> is_private_ip i) addrs), n'))"

text \<open>
  \<open>safeDialContext\<close>: an error, or the address that is handed to the dialer.
\<close>

definition safe_dial_context ::
  "'n net \<Rightarrow> bool \<Rightarrow> string \<Rightarrow> 'n \<Rightarrow> (string + string) \<times> 'n" where
  "safe_dial_context N allow addr n =
     (case split_host_port addr of
        None \<Rightarrow> (Inl (''safeDial: split host/port '' @ go_quote (printable N) addr), n)
      | Some (host, port) \<Rightarrow>
          (case parse_ip N host of
             Some i \<Rightarrow>
               if \<not> allow \<and> is_private_ip i
               then (Inl (''safeDial: refused connection to private address '' @ ip_string N i), n)
               else (Inr addr, n)
           | None \<Rightarrow>
               (case lookup_ip_addr N host n of
                  (Inl e, n') \<Rightarrow> (Inl (''safeDial: resolve '' @ go_quote (printable N) host @ '': '' @ e), n')
                | (Inr [], n') \<Rightarrow> (Inl (''safeDial: no addresses for '' @ go_quote (printable N) host), n')
                | (Inr (i # is), n') \<Rightarrow>
                    (case find (\<lambda>a. \<not> allow \<and> is_private_ip a) (i # is) of
                       Some a \<Rightarrow>
                         (Inl (''safeDial: '' @ go_quote (printable N) host
                               @ '' resolves to private address '' @ ip_string N a), n')
                     | None \<Rightarrow> (Inr (join_host_port (ip_string N i) port), n')))))"

section \<open>did:key\<close>

definition unsupported_method :: "'n net \<Rightarrow> string \<Rightarrow> resolve_outcome" where
  "unsupported_method N did =
     (let parts = split_n CHR '':'' 3 did;
          method = (if 2 \<le> length parts then parts ! 1 else ''unknown'')
      in ResolveError (''unsupported DID method: '' @ go_quote (printable N) method))"

text \<open>The check of length and multicodec prefix that did:key and multibase keys share.\<close>

definition is_ed25519_multikey :: "nat list \<Rightarrow> bool" where
  "is_ed25519_multikey decoded = (length decoded = decodedLen \<and> take 2 decoded = [0xed, 0x01])"

definition hex_byte :: "nat \<Rightarrow> string" where
  "hex_byte b = ''0x'' @ (if b < 16 then [hex_digit b] else [hex_digit (b div 16), hex_digit (b mod 16)])"

definition resolve_did_key :: "'n net \<Rightarrow> string \<Rightarrow> resolve_outcome" where
  "resolve_did_key N did =
     (if \<not> prefix ''did:key:z'' did then unsupported_method N did
      else case base58_decode (drop 9 did) of
             B58Panic \<Rightarrow> ResolvePanic
           | B58Invalid r \<Rightarrow>
               ResolveError (''did:key base58 decoding failed: invalid base58 character: ''
                             @ quote_rune (printable N) r)
           | B58Bytes decoded \<Rightarrow>
               if length decoded \<noteq> decodedLen
               then ResolveError (''did:key decoded length '' @ dec_digits (length decoded)
                                  @ '', expected '' @ dec_digits decodedLen)
               else if \<not> is_ed25519_multikey decoded
               then ResolveError (''did:key unsupported key type: multicodec prefix [''
                                  @ hex_byte (decoded ! 0) @ '' '' @ hex_byte (decoded ! 1) @ '']'')
               else Resolved (map word_of_nat (drop 2 decoded)))"

section \<open>did:web\<close>

definition segment_error :: "'n net \<Rightarrow> string \<Rightarrow> string option" where
  "segment_error N seg =
     (case path_unescape seg of
        None \<Rightarrow> Some ''did:web invalid path encoding: invalid URL escape''
      | Some decoded \<Rightarrow>
          if decoded = '''' \<or> decoded = ''.'' \<or> decoded = ''..''
          then Some (''did:web path segment '' @ go_quote (printable N) decoded @ '' is not allowed'')
          else if contains_any decoded (bytes_of [47, 92, 0])
          then Some ''did:web path segment contains illegal character''
          else None)"

definition domain_error :: "'n net \<Rightarrow> string \<Rightarrow> string option" where
  "domain_error N domain =
     (case find (\<lambda>c. c \<in> set (bytes_of [64, 47, 63, 35, 92, 32])) domain of
        Some c \<Rightarrow> Some (''did:web domain contains illegal character '' @ quote_rune (printable N) (code_of c))
      | None \<Rightarrow>
          if contains_any domain (bytes_of [0]) \<or> trim_space domain \<noteq> domain
          then Some ''did:web domain contains control or whitespace characters''
          else None)"

definition did_web_document_url :: "'n net \<Rightarrow> string \<Rightarrow> string + string" where
  "did_web_document_url N did =
     (let rest = drop 8 did;
          (domain0, path_part) = (case index_byte CHR '':'' rest of
                                    None \<Rightarrow> (rest, '''')
                                  | Some i \<Rightarrow> (take i rest, drop (Suc i) rest))
      in case path_unescape domain0 of
           None \<Rightarrow> Inl ''did:web invalid domain encoding: invalid URL escape''
         | Some domain \<Rightarrow>
             if domain = '''' then Inl (''did:web missing domain in '' @ go_quote (printable N) did)
             else (case domain_error N domain of
               Some e \<Rightarrow> Inl e
             | None \<Rightarrow>
                 if path_part = '''' then Inr (''https://'' @ domain @ ''/.well-known/did.json'')
                 else (case check_all (segment_error N) (split_on CHR '':'' path_part) of
                         Some e \<Rightarrow> Inl e
                       | None \<Rightarrow>
                           Inr (''https://'' @ domain @ ''/''
                                @ join_with ''/'' (split_on CHR '':'' path_part) @ ''/did.json''))))"

text \<open>The loop of \<open>extractEd25519FromDIDDocument\<close>.\<close>

fun extract_key :: "verification_method list \<Rightarrow> resolve_outcome" where
  "extract_key [] = ResolveError ''no Ed25519 verification method found in did:web document''"
| "extract_key (vm # vms) =
     (if PublicKeyMultibase vm \<noteq> '''' \<and> prefix ''z'' (PublicKeyMultibase vm) then
        (case base58_decode (drop 1 (PublicKeyMultibase vm)) of
           B58Panic \<Rightarrow> ResolvePanic
         | B58Invalid _ \<Rightarrow> extract_key vms
         | B58Bytes decoded \<Rightarrow>
             if is_ed25519_multikey decoded then Resolved (map word_of_nat (drop 2 decoded))
             else extract_key vms)
      else (case PublicKeyJwk vm of
              None \<Rightarrow> extract_key vms
            | Some k \<Rightarrow>
                if Kty k = ''OKP'' \<and> Crv k = ''Ed25519'' \<and> JwkX k \<noteq> '''' then
                  (case raw_url_decode (JwkX k) of
                     None \<Rightarrow> extract_key vms
                   | Some bytes \<Rightarrow>
                       if length bytes = 32 then Resolved (map (\<lambda>c. word_of_nat (code_of c)) bytes)
                       else extract_key vms)
                else extract_key vms))"

definition extract_ed25519 :: "'n net \<Rightarrow> string \<Rightarrow> resolve_outcome" where
  "extract_ed25519 N doc =
     (case unmarshal_did_document N doc of
        Inl e \<Rightarrow> ResolveError (''did:web document JSON parse failed: '' @ e)
      | Inr vms \<Rightarrow> extract_key vms)"

text \<open>The SSRF check: an error with whether it counts as a failure of the endpoint.\<close>

definition ssrf_check :: "'n net \<Rightarrow> string \<Rightarrow> 'n \<Rightarrow> (bool \<times> string) option \<times> 'n" where
  "ssrf_check N doc_url n =
     (case url_hostname N doc_url of
        Inl e \<Rightarrow> (Some (True, ''did:web URL parse failed: '' @ e), n)
      | Inr host \<Rightarrow>
          (case is_private_host N host n of
             (Inl e, n') \<Rightarrow> (Some (True, ''did:web SSRF check failed: '' @ e), n')
           | (Inr private, n') \<Rightarrow>
               (if private
                then Some (False, ''did:web host '' @ go_quote (printable N) host
                                  @ '' resolves to a private or reserved address'')
                else None, n')))"

definition fetch_document :: "'n net \<Rightarrow> string \<Rightarrow> 'n \<Rightarrow> (string + string) \<times> 'n" where
  "fetch_document N url n =
     (case new_request N url of
        Some e \<Rightarrow> (Inl (''did:web request build failed: '' @ e), n)
      | None \<Rightarrow>
          (case http_get N url n of
             (HttpFailed e, n') \<Rightarrow> (Inl (''did:web fetch failed for '' @ url @ '': '' @ e), n')
           | (HttpResponse status body, n') \<Rightarrow>
               ((if status \<noteq> 200
                 then Inl (''did:web fetch failed: HTTP '' @ dec_digits status @ '' from '' @ url)
                 else (case body of
                         Inl e \<Rightarrow> Inl (''did:web document read failed: '' @ e)
                       | Inr bytes \<Rightarrow>
                           let read = take (maxDIDDocumentBytes + 1) bytes
                           in if maxDIDDocumentBytes < length read
                              then Inl (''did:web document exceeds '' @ dec_digits maxDIDDocumentBytes
                                        @ '' byte limit'')
                              else Inr read)), n')))"

definition circuit_fail ::
  "'n net \<Rightarrow> resolver_config \<Rightarrow> nat \<Rightarrow> string \<Rightarrow> ('c, 'd, 'n) resolver \<Rightarrow>
   resolve_outcome \<times> ('c, 'd, 'n) resolver" where
  "circuit_fail N cfg a e r =
     (let (now, r') = read_clock N r
      in (ResolveError e,
          r'\<lparr>circuits := (circuits r')
               [a := record_failure (cbThreshold cfg) (cbCooldown cfg) now (circuits r' ! a)]\<rparr>))"

definition fetch_url :: "resolver_config \<Rightarrow> string \<Rightarrow> string" where
  "fetch_url cfg doc_url =
     (if allowPrivateHosts cfg \<and> prefix ''https://'' doc_url then ''http://'' @ drop 8 doc_url else doc_url)"

text \<open>The part of \<open>resolveDidWeb\<close> after the circuit breaker let the request through.\<close>

definition did_web_probe ::
  "'n net \<Rightarrow> resolver_config \<Rightarrow> nat \<Rightarrow> string \<Rightarrow> ('c, 'd, 'n) resolver \<Rightarrow>
   resolve_outcome \<times> ('c, 'd, 'n) resolver" where
  "did_web_probe N cfg a doc_url r =
     (let (blocked, n1) = (if allowPrivateHosts cfg then (None, netw r) else ssrf_check N doc_url (netw r));
          r1 = r\<lparr>netw := n1\<rparr>
      in case blocked of
           Some (counts, e) \<Rightarrow> if counts then circuit_fail N cfg a e r1 else (ResolveError e, r1)
         | None \<Rightarrow>
             let (doc, n2) = fetch_document N (fetch_url cfg doc_url) n1;
                 r2 = r1\<lparr>netw := n2\<rparr>
             in case doc of
                  Inl e \<Rightarrow> circuit_fail N cfg a e r2
                | Inr bytes \<Rightarrow>
                    (case extract_ed25519 N bytes of
                       ResolvePanic \<Rightarrow> (ResolvePanic, r2)
                     | ResolveError e \<Rightarrow> circuit_fail N cfg a e r2
                     | Resolved key \<Rightarrow>
                         (Resolved key,
                          r2\<lparr>circuits := (circuits r2)[a := record_success (circuits r2 ! a)]\<rparr>)))"

definition resolve_did_web ::
  "'n net \<Rightarrow> (nat, 'd) lru \<Rightarrow> resolver_config \<Rightarrow> string \<Rightarrow> ('c, 'd, 'n) resolver \<Rightarrow>
   resolve_outcome \<times> ('c, 'd, 'n) resolver" where
  "resolve_did_web N CS cfg did r =
     (case did_web_document_url N did of
        Inl e \<Rightarrow> (ResolveError e, r)
      | Inr doc_url \<Rightarrow>
          let (a, r1) = get_circuit_state CS did r;
              (now, r2) = read_clock N r1;
              (blocked, s) = is_open now (circuits r2 ! a);
              r3 = r2\<lparr>circuits := (circuits r2)[a := s]\<rparr>
          in if blocked
             then (ResolveError (''did:web circuit open for '' @ go_quote (printable N) did
                                 @ '': endpoint was recently unreachable''), r3)
             else did_web_probe N cfg a doc_url r3)"

section \<open>Resolution with the cache\<close>

definition resolve_uncached ::
  "'n net \<Rightarrow> (nat, 'd) lru \<Rightarrow> resolver_config \<Rightarrow> string \<Rightarrow> ('c, 'd, 'n) resolver \<Rightarrow>
   resolve_outcome \<times> ('c, 'd, 'n) resolver" where
  "resolve_uncached N CS cfg did r =
     (if prefix ''did:key:z'' did then (resolve_did_key N did, r)
      else if prefix ''did:web:'' did then resolve_did_web N CS cfg did r
      else (unsupported_method N did, r))"

text \<open>The lookup under \<^verbatim>\<open>cacheMu\<close>: a live entry, or nothing with an expired entry removed.\<close>

definition cache_lookup ::
  "'n net \<Rightarrow> (cache_entry, 'c) lru \<Rightarrow> string \<Rightarrow> ('c, 'd, 'n) resolver \<Rightarrow>
   byte list option \<times> ('c, 'd, 'n) resolver" where
  "cache_lookup N CA did r =
     (let (found, c) = lru_get CA did (cache r); r1 = r\<lparr>cache := c\<rparr>
      in case found of
           None \<Rightarrow> (None, r1)
         | Some entry \<Rightarrow>
             let (now, r2) = read_clock N r1
             in if now < ce_expiry entry then (Some (ce_key entry), r2)
                else (None, r2\<lparr>cache := lru_remove CA did (cache r2)\<rparr>))"

definition cache_insert ::
  "'n net \<Rightarrow> (cache_entry, 'c) lru \<Rightarrow> resolver_config \<Rightarrow> string \<Rightarrow> byte list \<Rightarrow>
   ('c, 'd, 'n) resolver \<Rightarrow> ('c, 'd, 'n) resolver" where
  "cache_insert N CA cfg did key r =
     (let (now, r1) = read_clock N r
      in r1\<lparr>cache := lru_add CA did \<lparr>ce_key = key, ce_expiry = now + rc_ttl cfg\<rparr> (cache r1)\<rparr>)"

definition resolve ::
  "'n net \<Rightarrow> (cache_entry, 'c) lru \<Rightarrow> (nat, 'd) lru \<Rightarrow> resolver_config \<Rightarrow> string \<Rightarrow>
   ('c, 'd, 'n) resolver \<Rightarrow> resolve_outcome \<times> ('c, 'd, 'n) resolver" where
  "resolve N CA CS cfg did r =
     (case cache_lookup N CA did r of
        (Some key, r1) \<Rightarrow> (Resolved key, r1)
      | (None, r1) \<Rightarrow>
          (case resolve_uncached N CS cfg did r1 of
             (Resolved key, r2) \<Rightarrow> (Resolved key, cache_insert N CA cfg did key r2)
           | (out, r2) \<Rightarrow> (out, r2)))"

section \<open>did:key identifiers and keys\<close>

lemma resolve_did_key_Resolved:
  "resolve_did_key N did = Resolved key \<longleftrightarrow>
     prefix ''did:key:z'' did \<and>
     (\<exists>decoded. base58_decode (drop 9 did) = B58Bytes decoded \<and> is_ed25519_multikey decoded \<and>
        key = map word_of_nat (drop 2 decoded))"
  by (auto simp: resolve_did_key_def unsupported_method_def is_ed25519_multikey_def Let_def
      split: b58_outcome.splits)

lemma multikey_split:
  "is_ed25519_multikey decoded \<longleftrightarrow> (\<exists>k. decoded = 0xed # 0x01 # k \<and> length k = 32)"
proof
  assume a: "is_ed25519_multikey decoded"
  then have "decoded = take 2 decoded @ drop 2 decoded" by simp
  with a show "\<exists>k. decoded = 0xed # 0x01 # k \<and> length k = 32"
    by (intro exI [of _ "drop 2 decoded"]) (auto simp: is_ed25519_multikey_def decodedLen_def)
qed (auto simp: is_ed25519_multikey_def decodedLen_def)

lemma bytes_nat_word:
  "\<forall>b \<in> set bs. b < 256 \<Longrightarrow> map unat (map word_of_nat bs :: byte list) = bs"
  by (induction bs) (auto simp: unat_of_nat)

definition did_key_of :: "byte list \<Rightarrow> string" where
  "did_key_of key = ''did:key:z'' @ base58_encode (0xed # 0x01 # map unat key)"

lemma resolve_did_key_encoded:
  assumes "length key = 32"
  shows "resolve_did_key N (did_key_of key) = Resolved key"
proof -
  have "\<forall>b \<in> set (0xed # 0x01 # map unat key). b < 256" by (auto simp: unat_byte_less)
  then have "base58_decode (drop 9 (did_key_of key)) = B58Bytes (0xed # 0x01 # map unat key)"
    by (simp add: base58_decode_iff did_key_of_def)
  moreover have "map word_of_nat (map unat key) = key" by (simp add: comp_def)
  ultimately show ?thesis
    using assms by (auto simp: resolve_did_key_Resolved multikey_split did_key_of_def intro!: exI [of _ "map unat key"])
qed

text \<open>
  C19. A did:key identifier and its key determine each other: resolution yields a key exactly
  when the key has 32 bytes and the identifier is the base58btc encoding of the Ed25519
  multicodec prefix followed by the key. In particular two different identifiers never
  resolve to the same key, and every key has an identifier.
\<close>

theorem did_key_exact:
  "resolve_did_key N did = Resolved key \<longleftrightarrow> length key = 32 \<and> did = did_key_of key"
proof
  assume "resolve_did_key N did = Resolved key"
  then obtain k where k: "prefix ''did:key:z'' did" "base58_decode (drop 9 did) = B58Bytes (0xed # 0x01 # k)"
      "length k = 32" "key = map word_of_nat k"
    by (auto simp: resolve_did_key_Resolved multikey_split)
  then have "map unat key = k" "drop 9 did = base58_encode (0xed # 0x01 # k)"
    using bytes_nat_word [of k] by (auto simp: base58_decode_iff)
  with k show "length key = 32 \<and> did = did_key_of key"
    by (auto simp: prefix_def did_key_of_def)
qed (simp add: resolve_did_key_encoded)

text \<open>
  The lookup table of the base58 decoder has 256 entries and is indexed by a rune, so
  resolution of a did:key panics exactly when a rune beyond U+00FF follows valid base58
  characters. Nothing on the way recovers, so such an issuer ends the process.
\<close>

theorem did_key_panic_iff:
  "resolve_did_key N did = ResolvePanic \<longleftrightarrow>
     prefix ''did:key:z'' did \<and>
     (\<exists>pre r post. go_runes (drop 9 did) = pre @ r # post \<and> 256 \<le> r \<and>
        (\<forall>p \<in> set pre. p < 256 \<and> b58_lookup p \<noteq> None))"
proof -
  have "base58_decode (drop 9 did) = B58Panic \<longleftrightarrow> b58_loop (go_runes (drop 9 did)) [] = B58Panic"
    by (auto simp: base58_decode_def split: b58_outcome.splits)
  moreover have "resolve_did_key N did = ResolvePanic \<longleftrightarrow>
      prefix ''did:key:z'' did \<and> base58_decode (drop 9 did) = B58Panic"
    by (simp add: resolve_did_key_def unsupported_method_def Let_def split: b58_outcome.splits)
  ultimately show ?thesis by (simp only: b58_loop_panic)
qed

section \<open>Addresses that are never dialled\<close>

lemma and_high: "(b :: byte) AND NOT (mask k) = push_bit k (drop_bit k b)"
  by (rule bit_word_eqI) (auto simp: bit_simps)

lemma unat_high: "unat (push_bit k (drop_bit k (b :: byte))) = unat b div 2 ^ k * 2 ^ k"
proof -
  have "unat b div 2 ^ k * 2 ^ k < 256"
    using unat_byte_less [of b] by (simp add: le_less_trans [OF div_times_less_eq_dividend])
  moreover have "unat b mod 256 = unat b" using unat_byte_less [of b] by simp
  ultimately show ?thesis
    by (simp only: unsigned_push_bit_eq unsigned_drop_bit_eq)
      (simp add: push_bit_eq_mult drop_bit_eq_div take_bit_eq_mod)
qed

lemma high_masks: "(0xf0 :: byte) = NOT (mask 4)" "(0xc0 :: byte) = NOT (mask 6)"
  by (simp_all add: mask_eq_exp_minus_1 not_eq_complement)

lemma byte_and_range:
  "0x10 = (b :: byte) AND 0xf0 \<longleftrightarrow> 16 \<le> unat b \<and> unat b \<le> 31"
  "0x40 = (b :: byte) AND 0xc0 \<longleftrightarrow> 64 \<le> unat b \<and> unat b \<le> 127"
  using unat_high [of 4 b] unat_high [of 6 b]
  by (auto simp: high_masks and_high word_unat_eq_iff)

lemma byte_and_full [simp]: "(b :: byte) AND 0xff = b"
proof -
  have "(0xff :: byte) = - 1" by simp
  then show ?thesis by (simp only: and.right_neutral)
qed

text \<open>
  The address filter refuses exactly the documented IPv4 ranges (loopback, link-local,
  the three RFC 1918 networks, carrier-grade NAT and the \<open>0.0.0.0/8\<close> network), whether the
  address comes as four bytes or as an IPv4-mapped IPv6 address.
\<close>

theorem private_ipv4_exact:
  "(is_private_ip [a, b, c, d] \<longleftrightarrow>
      a = 127 \<or> (a = 169 \<and> b = 254) \<or> a = 10 \<or> (a = 172 \<and> 16 \<le> unat b \<and> unat b \<le> 31) \<or>
      (a = 192 \<and> b = 168) \<or> (a = 100 \<and> 64 \<le> unat b \<and> unat b \<le> 127) \<or> a = 0) \<and>
   is_private_ip (replicate 10 0 @ [0xff, 0xff, a, b, c, d]) = is_private_ip [a, b, c, d]"
proof
  show "is_private_ip [a, b, c, d] \<longleftrightarrow>
      a = 127 \<or> (a = 169 \<and> b = 254) \<or> a = 10 \<or> (a = 172 \<and> 16 \<le> unat b \<and> unat b \<le> 31) \<or>
      (a = 192 \<and> b = 168) \<or> (a = 100 \<and> 64 \<le> unat b \<and> unat b \<le> 127) \<or> a = 0"
    by (simp add: is_private_ip_def privateRanges_def ipnet_contains_def ip_to4_def cidr_mask_def
        upt_rec byte_and_range eq_commute [of "127 :: byte"])
  show "is_private_ip (replicate 10 0 @ [0xff, 0xff, a, b, c, d]) = is_private_ip [a, b, c, d]"
    by (simp add: is_private_ip_def ipnet_contains_def ip_to4_def eval_nat_numeral)
qed

text \<open>
  The IPv6 unspecified address \<open>::\<close> is in none of the refused ranges, although its IPv4
  counterpart \<open>0.0.0.0\<close> is; a host that resolves to it passes the filter.
\<close>

theorem ipv6_unspecified_not_private:
  "\<not> is_private_ip (replicate 16 0) \<and> is_private_ip [0, 0, 0, 0] \<and> is_private_ip (replicate 15 0 @ [1])"
  by code_simp

text \<open>
  C26. With the filter on, the dialer is only ever handed an address that has been checked: the
  given one, when it is a literal address outside the refused ranges, or the literal form of
  the first address a lookup returned, when no address of the lookup is in a refused range.
\<close>

theorem safe_dial_only_public:
  assumes "safe_dial_context N False addr n = (Inr target, n')"
  shows "\<exists>host port. split_host_port addr = Some (host, port) \<and>
    ((\<exists>i. parse_ip N host = Some i \<and> \<not> is_private_ip i \<and> target = addr \<and> n' = n) \<or>
     (\<exists>i is. lookup_ip_addr N host n = (Inr (i # is), n') \<and> (\<forall>a \<in> set (i # is). \<not> is_private_ip a) \<and>
        target = join_host_port (ip_string N i) port))"
  using assms
  by (auto simp: safe_dial_context_def find_None_iff split: option.splits if_splits sum.splits list.splits prod.splits)

text \<open>An environment for worked examples: its state is the clock.\<close>

definition demo_net :: "int net" where
  "demo_net =
     \<lparr>clock = (\<lambda>t. (t, t)),
      lookup_host = (\<lambda>h t. (Inr [''1.2.3.4''], t)),
      lookup_ip_addr = (\<lambda>h t. (Inr [[1, 2, 3, 4]], t)),
      http_get = (\<lambda>u t. (HttpFailed ''timeout'', t + 10)),
      new_request = (\<lambda>u. None),
      url_hostname = (\<lambda>u. Inr ''h''),
      parse_ip = (\<lambda>s. None),
      ip_string = (\<lambda>i. ''1.2.3.4''),
      unmarshal_did_document = (\<lambda>s. Inl ''unexpected end of JSON input''),
      printable = (\<lambda>r. True)\<rparr>"

theorem safe_dial_only_public_witness:
  "\<exists>host port. split_host_port ''h:443'' = Some (host, port) \<and>
    ((\<exists>i. parse_ip demo_net host = Some i \<and> \<not> is_private_ip i \<and> ''1.2.3.4:443'' = ''h:443'' \<and> (5 :: int) = 5) \<or>
     (\<exists>i is. lookup_ip_addr demo_net host 5 = (Inr (i # is), 5) \<and> list_all (\<lambda>a. \<not> is_private_ip a) (i # is) \<and>
        ''1.2.3.4:443'' = join_host_port (ip_string demo_net i) port))"
proof -
  have "\<not> is_private_ip [1, 2, 3, 4]" by code_simp
  moreover have "split_host_port ''h:443'' = Some (''h'', ''443'')"
    by (simp add: split_host_port_def)
  ultimately have "safe_dial_context demo_net False ''h:443'' 5 = (Inr ''1.2.3.4:443'', 5)"
    by (simp add: safe_dial_context_def demo_net_def join_host_port_def)
  from safe_dial_only_public [OF this] show ?thesis by (simp add: list_all_iff)
qed

section \<open>The did:web URL\<close>

lemma illegal_bytes:
  "bytes_of [64, 47, 63, 35, 92, 32] = [CHR ''@'', CHR ''/'', CHR ''?'', CHR ''#'', CHR 0x5C, CHR '' '']"
  "bytes_of [47, 92, 0] = [CHR ''/'', CHR 0x5C, CHR 0x00]" "bytes_of [0] = [CHR 0x00]"
  by code_simp+

definition web_label_ok :: "string \<Rightarrow> bool" where
  "web_label_ok seg =
     (\<exists>d. path_unescape seg = Some d \<and> d \<notin> {'''', ''.'', ''..''} \<and>
          set d \<inter> set (bytes_of [47, 92, 0]) = {})"

lemma segment_error_None: "segment_error N s = None \<Longrightarrow> web_label_ok s"
  by (cases "path_unescape s")
    (auto simp: segment_error_def web_label_ok_def contains_any_def list_ex_iff split: if_splits)

text \<open>
  C27. The URL that a did:web identifier maps to is an https URL whose authority has no user
  info, path, query, fragment, blank or backslash in it, and whose path is either
  \<^verbatim>\<open>/.well-known/did.json\<close> or the identifier's segments followed by \<^verbatim>\<open>did.json\<close>, none of which
  decodes to an empty or dot segment or contains a slash, a backslash or a NUL.
\<close>

theorem did_web_url_shape:
  assumes "did_web_document_url N did = Inr url"
  shows "\<exists>domain path. url = ''https://'' @ domain @ ''/'' @ path \<and> domain \<noteq> '''' \<and>
    set domain \<inter> set (bytes_of [64, 47, 63, 35, 92, 32, 0]) = {} \<and>
    (path = ''.well-known/did.json'' \<or>
     (\<exists>segs. segs \<noteq> [] \<and> (\<forall>s \<in> set segs. web_label_ok s) \<and> path = join_with ''/'' segs @ ''/did.json''))"
proof -
  let ?rest = "drop 8 did"
  obtain domain0 path_part where parts: "(case index_byte CHR '':'' ?rest of
      None \<Rightarrow> (?rest, '''') | Some i \<Rightarrow> (take i ?rest, drop (Suc i) ?rest)) = (domain0, path_part)"
    by fastforce
  with assms obtain domain where d: "path_unescape domain0 = Some domain" "domain \<noteq> ''''"
      "domain_error N domain = None"
    by (auto simp: did_web_document_url_def split: option.splits if_splits)
  then have chars: "set domain \<inter> set (bytes_of [64, 47, 63, 35, 92, 32, 0]) = {}"
    by (auto simp: domain_error_def contains_any_def list_ex_iff find_None_iff bytes_of_def
        split: option.splits if_splits)
  show ?thesis
  proof (cases "path_part = ''''")
    case True
    with assms parts d have "url = ''https://'' @ domain @ ''/'' @ ''.well-known/did.json''"
      by (simp add: did_web_document_url_def)
    with d chars show ?thesis by blast
  next
    case False
    let ?segs = "split_on CHR '':'' path_part"
    from False assms parts d have ok: "\<forall>s \<in> set ?segs. segment_error N s = None"
      and url: "url = ''https://'' @ domain @ ''/'' @ (join_with ''/'' ?segs @ ''/did.json'')"
      by (auto simp: did_web_document_url_def split: option.splits)
    have "web_label_ok s" if "s \<in> set ?segs" for s
      using ok that by (auto intro: segment_error_None)
    then show ?thesis using d chars url split_on_nonempty by blast
  qed
qed

theorem did_web_url_shape_witness:
  "\<exists>domain path. ''https://h/.well-known/did.json'' = ''https://'' @ domain @ ''/'' @ path \<and> domain \<noteq> ''''"
proof -
  have "did_web_document_url demo_net ''did:web:h'' = Inr ''https://h/.well-known/did.json''"
    by (simp add: did_web_document_url_def domain_error_def contains_any_def illegal_bytes trim_space_visible visible_def)
  from did_web_url_shape [OF this] show ?thesis by blast
qed

text \<open>
  The segments are not screened for \<open>?\<close> and \<open>#\<close>, so an identifier can turn the final
  \<^verbatim>\<open>/did.json\<close> into a fragment or a query, and make the resolver read its key from any document
  of the host.
\<close>

theorem did_web_fragment_escape:
  "did_web_document_url N ''did:web:h:uploads:evil#'' = Inr ''https://h/uploads/evil#/did.json''"
  by (simp add: did_web_document_url_def domain_error_def segment_error_def contains_any_def illegal_bytes
      trim_space_visible visible_def)

section \<open>The circuit breaker as a state machine\<close>

datatype circuit_event = Probe int | Success | Failure int

fun circuit_apply :: "int \<Rightarrow> int \<Rightarrow> circuit_event \<Rightarrow> circuit_state \<Rightarrow> circuit_state" where
  "circuit_apply thr cool (Probe now) s = snd (is_open now s)"
| "circuit_apply thr cool Success s = record_success s"
| "circuit_apply thr cool (Failure now) s = record_failure thr cool now s"

inductive circuit_reach :: "int \<Rightarrow> int \<Rightarrow> circuit_state \<Rightarrow> circuit_event list \<Rightarrow> bool" for thr cool where
  fresh: "circuit_reach thr cool new_circuit []"
| step: "circuit_reach thr cool s es \<Longrightarrow> circuit_reach thr cool (circuit_apply thr cool e s) (es @ [e])"

text \<open>The events since the last success, and the time of the last failure among them.\<close>

definition since_success :: "circuit_event list \<Rightarrow> circuit_event list" where
  "since_success es = rev (takeWhile (\<lambda>e. e \<noteq> Success) (rev es))"

fun failure_time :: "circuit_event \<Rightarrow> int option" where
  "failure_time (Failure t) = Some t"
| "failure_time _ = None"

definition failure_times :: "circuit_event list \<Rightarrow> int list" where
  "failure_times es = List.map_filter failure_time (since_success es)"

lemma failure_times_simps [simp]:
  "failure_times [] = []"
  "failure_times (es @ [Success]) = []"
  "failure_times (es @ [Failure t]) = failure_times es @ [t]"
  "failure_times (es @ [Probe t]) = failure_times es"
  by (simp_all add: failure_times_def since_success_def map_filter_def)

text \<open>
  Whatever probes, successes and failures a circuit has seen, its failure count is the
  number of failures since the last success, and it only ever blocks a request when at least
  the threshold of failures happened since the last success and the cooldown after the last of
  them is not over.
\<close>

theorem circuit_blocks_only_after_threshold:
  assumes "circuit_reach thr cool s es" and "fst (is_open now s)"
  shows "failures s = length (failure_times es) \<and> thr \<le> int (failures s) \<and> failure_times es \<noteq> [] \<and>
    now \<le> last (failure_times es) + cool"
proof -
  have "failures s = length (failure_times es) \<and>
      (\<forall>u. openUntil s = Some u \<longrightarrow> thr \<le> int (failures s) \<and> failure_times es \<noteq> [] \<and>
         u = last (failure_times es) + cool)"
    using assms(1)
  proof (induction rule: circuit_reach.induct)
    case (step s es e)
    then show ?case
      by (cases e)
        (auto simp: is_open_def record_success_def record_failure_def Let_def split: option.splits if_splits)
  qed (simp add: new_circuit_def)
  with assms(2) show ?thesis
    by (auto simp: is_open_def split: option.splits if_splits)
qed

theorem circuit_blocks_only_after_threshold_witness:
  "failures (record_failure 1 60 10 new_circuit) = length (failure_times [Failure 10]) \<and>
   (1 :: int) \<le> int (failures (record_failure 1 60 10 new_circuit)) \<and>
   failure_times [Failure 10] \<noteq> [] \<and> 70 \<le> last (failure_times [Failure 10]) + 60"
proof (rule circuit_blocks_only_after_threshold)
  show "circuit_reach 1 60 (record_failure 1 60 10 new_circuit) [Failure 10]"
    using circuit_reach.step [OF circuit_reach.fresh, of 1 60 "Failure 10"] by simp
  show "fst (is_open 70 (record_failure 1 60 10 new_circuit))"
    by (simp add: is_open_def record_failure_def new_circuit_def)
qed

lemma failures_run:
  "ts \<noteq> [] \<Longrightarrow>
    fold (\<lambda>t. record_failure thr cool t) ts s =
      s\<lparr>failures := failures s + length ts,
        openUntil := (if thr \<le> int (failures s + length ts) then Some (last ts + cool) else openUntil s)\<rparr>"
proof (induction ts arbitrary: s)
  case (Cons t ts)
  show ?case
  proof (cases "ts = []")
    case False
    have "failures (record_failure thr cool t s) = Suc (failures s)"
      by (simp add: record_failure_def Let_def)
    moreover have "(if thr \<le> int (Suc (failures s) + length ts) then x else openUntil (record_failure thr cool t s))
        = (if thr \<le> int (Suc (failures s) + length ts) then x else openUntil s)" for x
      by (simp add: record_failure_def Let_def)
    moreover have "(record_failure thr cool t s)\<lparr>failures := a, openUntil := b\<rparr> =
        s\<lparr>failures := a, openUntil := b\<rparr>" for a b
      by (cases s) (simp add: record_failure_def Let_def)
    ultimately show ?thesis using Cons.IH [OF False, of "record_failure thr cool t s"] False by simp
  qed (simp add: record_failure_def Let_def)
qed simp

text \<open>
  C28. The breaker trips on time: after a success, a run of failures blocks exactly when it has
  reached the threshold, and then it blocks every request up to the cooldown after the last
  failure and lets the first later one through. A failed probe after the cooldown blocks again
  at once.
\<close>

theorem circuit_trips:
  assumes "ts \<noteq> []"
  shows "(fst (is_open now (fold (\<lambda>t. record_failure thr cool t) ts (record_success s))) \<longleftrightarrow>
      thr \<le> int (length ts) \<and> now \<le> last ts + cool) \<and>
    (thr \<le> int (length ts) \<and> last ts + cool < now \<longrightarrow>
      fst (is_open now' (record_failure thr cool t (snd (is_open now (fold (\<lambda>t. record_failure thr cool t) ts
        (record_success s)))))) = (now' \<le> t + cool))"
  using failures_run [OF assms, of thr cool "record_success s"]
  by (auto simp: is_open_def record_success_def record_failure_def Let_def)

theorem circuit_trips_witness:
  "fst (is_open 100 (fold (\<lambda>t. record_failure 3 60 t) [10, 20, 40] (record_success new_circuit)))"
  using circuit_trips [of "[10, 20, 40]" 100 3 60 new_circuit] by simp

section \<open>The cache\<close>

text \<open>
  The states a resolver can be in, by any sequence of resolutions and of steps \<open>env\<close> of the
  environment in between.
\<close>

inductive resolver_reach ::
  "('n \<Rightarrow> 'n \<Rightarrow> bool) \<Rightarrow> 'n net \<Rightarrow> (cache_entry, 'c) lru \<Rightarrow> (nat, 'd) lru \<Rightarrow> resolver_config \<Rightarrow>
   ('c, 'd, 'n) resolver \<Rightarrow> bool"
  for env N CA CS cfg where
  created: "new_with_circuit_breaker CA CS cap ttl thr cool n = Inr (cfg, r) \<Longrightarrow>
    resolver_reach env N CA CS cfg r"
| resolved: "resolver_reach env N CA CS cfg r \<Longrightarrow>
    resolver_reach env N CA CS cfg (snd (resolve N CA CS cfg did r))"
| elapsed: "resolver_reach env N CA CS cfg r \<Longrightarrow> env (netw r) n \<Longrightarrow>
    resolver_reach env N CA CS cfg (r\<lparr>netw := n\<rparr>)"

text \<open>Only cached did:key entries are determined by their identifier.\<close>

definition cache_sound :: "'n net \<Rightarrow> ('c \<Rightarrow> string \<rightharpoonup> cache_entry) \<Rightarrow> ('c, 'd, 'n) resolver \<Rightarrow> bool" where
  "cache_sound N look r =
     (\<forall>did e. look (cache r) did = Some e \<longrightarrow> prefix ''did:key:z'' did \<longrightarrow>
        resolve_did_key N did = Resolved (ce_key e))"

lemma read_clock_cache [simp]: "cache (snd (read_clock N r)) = cache r"
  by (simp add: read_clock_def split_beta Let_def)

lemma cache_lookup_cases:
  assumes "lru_ok CA look"
  shows "look (cache (snd (cache_lookup N CA did r))) \<subseteq>\<^sub>m look (cache r)"
    and "fst (cache_lookup N CA did r) = Some key \<Longrightarrow> \<exists>e. look (cache r) did = Some e \<and> key = ce_key e"
proof -
  note facts = lru_okD [OF assms]
  obtain found c where g: "lru_get CA did (cache r) = (found, c)" by (cases "lru_get CA did (cache r)")
  then have look: "found = look (cache r) did" "look c = look (cache r)"
    using facts(2,3) [of did "cache r"] by auto
  show "look (cache (snd (cache_lookup N CA did r))) \<subseteq>\<^sub>m look (cache r)"
    by (simp add: cache_lookup_def g split_beta Let_def look facts(6) map_le_def split: option.split)
  show "fst (cache_lookup N CA did r) = Some key \<Longrightarrow> \<exists>e. look (cache r) did = Some e \<and> key = ce_key e"
    by (auto simp: cache_lookup_def g split_beta Let_def look split: option.splits if_splits)
qed

lemma get_circuit_state_cache [simp]: "cache (snd (get_circuit_state CS did r)) = cache r"
  by (simp add: get_circuit_state_def split_beta Let_def split: option.split)

lemma circuit_fail_cache [simp]: "cache (snd (circuit_fail N cfg a e r)) = cache r"
  by (simp add: circuit_fail_def split_beta Let_def)

lemma did_web_probe_cache [simp]: "cache (snd (did_web_probe N cfg a url r)) = cache r"
  by (simp add: did_web_probe_def split_beta Let_def
      split: option.split sum.split resolve_outcome.split prod.split)

lemma resolve_uncached_cache: "cache (snd (resolve_uncached N CS cfg did r)) = cache r"
  by (simp add: resolve_uncached_def resolve_did_web_def split_beta Let_def split: sum.split)

lemma cache_sound_sub:
  "cache_sound N look r \<Longrightarrow> look (cache r') \<subseteq>\<^sub>m look (cache r) \<Longrightarrow> cache_sound N look r'"
  by (auto simp: cache_sound_def dest: map_le_Some)

lemma cache_insert_sound:
  assumes "lru_ok CA look" "cache_sound N look r"
    and "prefix ''did:key:z'' did \<Longrightarrow> resolve_did_key N did = Resolved key"
  shows "cache_sound N look (cache_insert N CA cfg did key r)"
proof -
  obtain now r1 where rc: "read_clock N r = (now, r1)" by (cases "read_clock N r")
  then have "cache r1 = cache r" using read_clock_cache [of N r] by simp
  then show ?thesis
    using assms(2,3) by (auto simp: cache_sound_def cache_insert_def rc dest!: lru_add_cases [OF assms(1)])
qed

lemma resolve_sound:
  assumes ok: "lru_ok CA look" and sound: "cache_sound N look r"
  shows "cache_sound N look (snd (resolve N CA CS cfg did r)) \<and>
    (prefix ''did:key:z'' did \<longrightarrow> fst (resolve N CA CS cfg did r) = resolve_did_key N did)"
proof -
  obtain hit r1 where l: "cache_lookup N CA did r = (hit, r1)" by (cases "cache_lookup N CA did r")
  have s1: "cache_sound N look r1"
    using cache_lookup_cases(1) [OF ok, of N did r] l sound by (auto intro: cache_sound_sub)
  show ?thesis
  proof (cases hit)
    case (Some key)
    then have "prefix ''did:key:z'' did \<longrightarrow> resolve_did_key N did = Resolved key"
      using cache_lookup_cases(2) [OF ok, of N did r key] l sound by (auto simp: cache_sound_def)
    with Some l s1 show ?thesis by (simp add: resolve_def)
  next
    case None
    obtain out r2 where u: "resolve_uncached N CS cfg did r1 = (out, r2)"
      by (cases "resolve_uncached N CS cfg did r1")
    have s2: "cache_sound N look r2"
      using s1 resolve_uncached_cache [of N CS cfg did r1] u by (simp add: cache_sound_def)
    have key: "out = resolve_did_key N did" if "prefix ''did:key:z'' did"
      using u that by (simp add: resolve_uncached_def)
    then have "cache_sound N look (cache_insert N CA cfg did k r2)" if "out = Resolved k" for k
      using that by (intro cache_insert_sound [OF ok s2]) auto
    with None l u s2 key show ?thesis
      by (simp add: resolve_def split: resolve_outcome.split)
  qed
qed

lemma reach_cache_sound:
  assumes "lru_ok CA look" and "resolver_reach env N CA CS cfg r"
  shows "cache_sound N look r"
  using assms(2)
proof (induction rule: resolver_reach.induct)
  case (created cap ttl thr cool n r)
  then show ?case
    using lru_new_look [OF assms(1)]
    by (auto simp: new_with_circuit_breaker_def new_resolver_def cache_sound_def split: sum.splits)
next
  case (resolved r did)
  then show ?case using resolve_sound [OF assms(1)] by blast
qed (simp add: cache_sound_def)

text \<open>
  Caching is transparent for did:key: in every state that any sequence of resolutions and
  any behaviour of clock, DNS and remote hosts leads to, resolving a did:key identifier gives
  exactly its decoded key, the decoding error or the panic; no did:web answer and no eviction
  or expiry can put another key under it.
\<close>

theorem did_key_cache_transparent:
  assumes "lru_ok CA look" and "resolver_reach env N CA CS cfg r" and "prefix ''did:key:z'' did"
  shows "fst (resolve N CA CS cfg did r) = resolve_did_key N did"
  using resolve_sound [OF assms(1) reach_cache_sound [OF assms(1,2)]] assms(3) by blast

text \<open>A clock that never runs backwards, whatever the network does.\<close>

definition time_ok :: "'n net \<Rightarrow> ('n \<Rightarrow> int) \<Rightarrow> bool" where
  "time_ok N time =
     (\<forall>n. time n \<le> fst (clock N n) \<and> fst (clock N n) \<le> time (snd (clock N n)) \<and>
        (\<forall>s. time n \<le> time (snd (lookup_host N s n)) \<and> time n \<le> time (snd (http_get N s n))))"

lemma time_okD:
  assumes "time_ok N time"
  shows "time n \<le> fst (clock N n)" "fst (clock N n) \<le> time (snd (clock N n))"
    "time n \<le> time (snd (lookup_host N s n))" "time n \<le> time (snd (http_get N s n))"
  using assms by (auto simp: time_ok_def)

lemma read_clock_time:
  assumes "time_ok N time" and "read_clock N r = (now, r')"
  shows "time (netw r) \<le> now" "now \<le> time (netw r')" "time (netw r) \<le> time (netw r')"
  using assms time_okD(1,2) [OF assms(1), of "netw r"]
  by (auto simp: read_clock_def split_beta Let_def)

lemma circuit_fail_time:
  "time_ok N time \<Longrightarrow> time (netw r) \<le> time (netw (snd (circuit_fail N cfg a e r)))"
  using read_clock_time(3) [of N time r] by (cases "read_clock N r") (simp add: circuit_fail_def)

lemma ssrf_check_time: "time_ok N time \<Longrightarrow> time n \<le> time (snd (ssrf_check N url n))"
  using time_okD(3) [of N time n]
  by (auto simp: ssrf_check_def is_private_host_def Let_def split: sum.split prod.split)
    (metis order_refl prod.sel(2))+

lemma fetch_document_time: "time_ok N time \<Longrightarrow> time n \<le> time (snd (fetch_document N url n))"
  using time_okD(4) [of N time n url]
  by (auto simp: fetch_document_def Let_def split: option.split http_outcome.split prod.split)

lemma did_web_probe_time:
  assumes "time_ok N time"
  shows "time (netw r) \<le> time (netw (snd (did_web_probe N cfg a url r)))"
proof -
  obtain blocked n1 where 1: "(if allowPrivateHosts cfg then (None, netw r) else ssrf_check N url (netw r)) = (blocked, n1)"
    by fastforce
  obtain doc n2 where 2: "fetch_document N (fetch_url cfg url) n1 = (doc, n2)"
    by (cases "fetch_document N (fetch_url cfg url) n1")
  have t1: "time (netw r) \<le> time n1"
    using ssrf_check_time [OF assms, of "netw r" url] 1 by (auto split: if_splits)
  have t2: "time n1 \<le> time n2"
    using fetch_document_time [OF assms, of n1 "fetch_url cfg url"] 2 by simp
  have fail: "time (netw r) \<le> time (netw (snd (circuit_fail N cfg a e (r\<lparr>netw := n\<rparr>))))"
    if "time (netw r) \<le> time n" for e n
    using circuit_fail_time [OF assms, of "r\<lparr>netw := n\<rparr>" cfg a e] that by simp
  show ?thesis
    using t1 t2 fail [of n1] fail [of n2]
    by (simp add: did_web_probe_def 1 2 Let_def split: option.split sum.split resolve_outcome.split)
qed

lemma resolve_uncached_time:
  assumes "time_ok N time"
  shows "time (netw r) \<le> time (netw (snd (resolve_uncached N CS cfg did r)))"
proof -
  have get: "netw (snd (get_circuit_state CS did r)) = netw r"
    by (simp add: get_circuit_state_def split_beta Let_def split: option.split)
  let ?r1 = "snd (get_circuit_state CS did r)"
  obtain now r2 where rc: "read_clock N ?r1 = (now, r2)" by (cases "read_clock N ?r1")
  have "time (netw r) \<le> time (netw r2)" using read_clock_time(3) [OF assms rc] get by simp
  then have "time (netw r) \<le> time (netw (snd (did_web_probe N cfg a url (r2\<lparr>circuits := c\<rparr>))))" for a url c
    using did_web_probe_time [OF assms, of "r2\<lparr>circuits := c\<rparr>" cfg a url] by simp
  with \<open>time (netw r) \<le> time (netw r2)\<close> show ?thesis
    by (simp add: resolve_uncached_def resolve_did_web_def split_beta Let_def rc split: sum.split)
qed

definition cache_young :: "('c \<Rightarrow> string \<rightharpoonup> cache_entry) \<Rightarrow> int \<Rightarrow> int \<Rightarrow> ('c, 'd, 'n) resolver \<Rightarrow> bool" where
  "cache_young look ttl t r = (\<forall>did e. look (cache r) did = Some e \<longrightarrow> ce_expiry e \<le> t + ttl)"

lemma cache_young_sub:
  "cache_young look ttl t r \<Longrightarrow> look (cache r') \<subseteq>\<^sub>m look (cache r) \<Longrightarrow> t \<le> t' \<Longrightarrow> cache_young look ttl t' r'"
  unfolding cache_young_def by (meson add_right_mono map_le_Some order_trans)

lemma resolve_young:
  assumes ok: "lru_ok CA look" and tm: "time_ok N time"
    and young: "cache_young look (rc_ttl cfg) (time (netw r)) r"
  shows "cache_young look (rc_ttl cfg) (time (netw (snd (resolve N CA CS cfg did r))))
    (snd (resolve N CA CS cfg did r))"
proof -
  obtain hit r1 where l: "cache_lookup N CA did r = (hit, r1)" by (cases "cache_lookup N CA did r")
  have "time (netw r) \<le> time (snd (clock N (netw r)))"
    using time_okD(1,2) [OF tm, of "netw r"] by simp
  then have "time (netw r) \<le> time (netw r1)"
    using l by (auto simp: cache_lookup_def read_clock_def split_beta Let_def split: option.splits if_splits)
  with young have y1: "cache_young look (rc_ttl cfg) (time (netw r1)) r1"
    using cache_lookup_cases(1) [OF ok, of N did r] l by (auto intro: cache_young_sub)
  obtain out r2 where u: "resolve_uncached N CS cfg did r1 = (out, r2)"
    by (cases "resolve_uncached N CS cfg did r1")
  have y2: "cache_young look (rc_ttl cfg) (time (netw r2)) r2"
    using y1 resolve_uncached_cache [of N CS cfg did r1] resolve_uncached_time [OF tm, of r1 CS cfg did] u
    by (auto intro: cache_young_sub)
  obtain now r3 where rc: "read_clock N r2 = (now, r3)" by (cases "read_clock N r2")
  have y3: "cache_young look (rc_ttl cfg) (time (netw r3)) (cache_insert N CA cfg did key r2)" for key
  proof -
    have "cache r3 = cache r2" using read_clock_cache [of N r2] rc by simp
    then have "ce_expiry e \<le> time (netw r3) + rc_ttl cfg"
      if "look (cache (cache_insert N CA cfg did key r2)) d = Some e" for d e
      using that lru_add_cases [OF ok] y2 read_clock_time [OF tm rc]
      by (fastforce simp: cache_insert_def rc cache_young_def)
    then show ?thesis by (simp add: cache_young_def)
  qed
  have "netw (cache_insert N CA cfg did key r2) = netw r3" for key by (simp add: cache_insert_def rc)
  with y1 y2 y3 l u show ?thesis
    by (simp add: resolve_def split: option.split resolve_outcome.split)
qed

text \<open>
  No key outlives the configured TTL: once the clock has advanced by the TTL beyond the
  last activity of the resolver, every lookup misses, so the next resolution of any DID is a
  fresh one. A rotated or withdrawn did:web key is therefore honoured for at most one TTL.
\<close>

theorem cache_entries_expire:
  assumes "lru_ok CA look" and "time_ok N time" and "\<And>n n'. env n n' \<Longrightarrow> time n \<le> time n'"
    and "resolver_reach env N CA CS cfg r" and "time (netw r) + rc_ttl cfg \<le> time n"
  shows "fst (cache_lookup N CA did (r\<lparr>netw := n\<rparr>)) = None"
proof -
  have young: "cache_young look (rc_ttl cfg) (time (netw r)) r"
    using assms(4)
  proof (induction rule: resolver_reach.induct)
    case (created cap ttl thr cool n r)
    then show ?case
      using lru_new_look [OF assms(1)]
      by (auto simp: new_with_circuit_breaker_def new_resolver_def cache_young_def split: sum.splits)
  next
    case (resolved r did)
    then show ?case using resolve_young [OF assms(1,2)] by blast
  next
    case (elapsed r n)
    then show ?case using assms(3) by (auto intro: cache_young_sub)
  qed
  obtain found c where g: "lru_get CA did (cache r) = (found, c)" by (cases "lru_get CA did (cache r)")
  then have "found = look (cache r) did" using lru_get_fst [OF assms(1), of did "cache r"] by simp
  then have "ce_expiry e \<le> fst (clock N n)" if "found = Some e" for e
    using that young assms(5) time_okD(1) [OF assms(2), of n] by (fastforce simp: cache_young_def)
  then show ?thesis
    by (auto simp: cache_lookup_def g read_clock_def split_beta Let_def split: option.split)
qed

section \<open>A worked resolver\<close>

definition demo_config :: resolver_config where
  "demo_config = \<lparr>rc_ttl = 3600, cbThreshold = 5, cbCooldown = 60, allowPrivateHosts = False\<rparr>"

definition demo_resolver ::
  "(nat \<times> (string \<times> cache_entry) list, nat \<times> (string \<times> nat) list, int) resolver" where
  "demo_resolver = \<lparr>cache = (1, []), circuitStates = (9999, []), circuits = [], netw = 0\<rparr>"

lemma demo_created: "resolver_reach env demo_net list_lru list_lru demo_config demo_resolver"
  by (rule resolver_reach.created [of _ _ 2 3600 5 60 0])
    (simp add: new_with_circuit_breaker_def new_resolver_def list_lru_def circuitStateCacheSize_def
      demo_config_def demo_resolver_def)

theorem did_key_cache_transparent_witness:
  "fst (resolve demo_net list_lru list_lru demo_config ''did:key:z1''
     (snd (resolve demo_net list_lru list_lru demo_config ''did:web:h'' demo_resolver))) =
   resolve_did_key demo_net ''did:key:z1''"
  by (rule did_key_cache_transparent [OF list_lru_ok resolver_reach.resolved [OF demo_created]])
    simp

theorem cache_entries_expire_witness:
  "fst (cache_lookup demo_net list_lru ''did:key:z1'' (demo_resolver\<lparr>netw := 3600\<rparr>)) = None"
  by (rule cache_entries_expire [OF list_lru_ok _ _ demo_created, of "\<lambda>t. t" "\<lambda>t t'. t \<le> t'"])
    (simp_all add: time_ok_def demo_net_def demo_resolver_def demo_config_def)

end
