(* ===== verification/DRS_Verify.thy ===== *)
theory DRS_Verify
  imports DRS_Policy DRS_Resolver
begin

text \<open>
  \<^verbatim>\<open>pkg/verify/chain.go\<close>: the six-block verification of a delegation chain. Each block is a
  definition of its own, in the order of the code, and \<open>chain\<close> composes them.

  Cryptography, JSON decoding and timestamp verification enter through the record \<open>prims\<close>;
  the resolver, the revocation sources and the store enter through the record \<open>deps\<close>, whose
  operations thread one shared state \<open>'w\<close>, as the pointers in \<^verbatim>\<open>Deps\<close> do.
\<close>

section \<open>Parameters\<close>

record prims =
  sha256 :: "string \<Rightarrow> byte list"
  ed25519_verify :: "byte list \<Rightarrow> string \<Rightarrow> string \<Rightarrow> bool"
  unmarshal_alg :: "string \<Rightarrow> string + string"
  unmarshal_receipt :: "string \<Rightarrow> delegation_receipt option"
  unmarshal_invocation :: "string \<Rightarrow> invocation_receipt option"
  is_print :: "nat \<Rightarrow> bool"

record 'w deps =
  Resolve :: "string \<Rightarrow> 'w \<Rightarrow> resolve_outcome \<times> 'w"
  Revocation :: "(uint64 \<Rightarrow> 'w \<Rightarrow> (string + bool) \<times> 'w) option"
  LocalRevoked :: "(uint64 \<Rightarrow> 'w \<Rightarrow> bool) option"
  StoreOps :: "((string \<Rightarrow> string \<Rightarrow> 'w \<Rightarrow> string option \<times> 'w)
                \<times> (string \<Rightarrow> 'w \<Rightarrow> (string + string) \<times> 'w)) option"
  ServerIdentity :: string
  IncludeTimestamps :: bool
  VerifyTimestamp :: "string \<Rightarrow> byte list \<Rightarrow> string + int"
  MaxInvocationAge :: int

definition maxChainDepth :: nat where
  "maxChainDepth = 16"

definition expectedDRSVersion :: string where
  "expectedDRSVersion = ''4.0''"

definition expectedDRType :: string where
  "expectedDRType = ''delegation-receipt''"

definition expectedInvType :: string where
  "expectedInvType = ''invocation-receipt''"

lemmas expected_defs = expectedDRSVersion_def expectedDRType_def expectedInvType_def

section \<open>Helpers\<close>

text \<open>\<open>decodeJWTPayload\<close>, for the two payload types that \<^verbatim>\<open>dst\<close> has.\<close>

definition decode_jwt_payload :: "(string \<Rightarrow> 'a option) \<Rightarrow> string \<Rightarrow> 'a option" where
  "decode_jwt_payload unmarshal jwt =
     (case split_n CHR ''.'' 4 jwt of
        [_, payload, _] \<Rightarrow>
          (case raw_url_decode payload of None \<Rightarrow> None | Some bytes \<Rightarrow> unmarshal bytes)
      | _ \<Rightarrow> None)"

text \<open>\<open>decodeJWTHeader\<close>; the error is its text.\<close>

definition decode_jwt_header :: "prims \<Rightarrow> string \<Rightarrow> string + string" where
  "decode_jwt_header pr jwt =
     (let parts = split_n CHR ''.'' 4 jwt in
      case parts of
        [header, _, _] \<Rightarrow>
          (case raw_url_decode header of
             None \<Rightarrow> Inl ''JWT header base64 decode: illegal base64 data''
           | Some bytes \<Rightarrow>
               (case unmarshal_alg pr bytes of
                  Inl e \<Rightarrow> Inl (''JWT header JSON unmarshal: '' @ e)
                | Inr alg \<Rightarrow> Inr alg))
      | _ \<Rightarrow> Inl (''expected 3 dot-separated JWT parts, got '' @ dec_digits (length parts)))"

definition compute_chain_hash :: "prims \<Rightarrow> string \<Rightarrow> string" where
  "compute_chain_hash pr jwt = ''sha256:'' @ hex_encode (sha256 pr jwt)"

text \<open>The group order L, little endian, and the comparison of the scalar S with it.\<close>

definition edGroupOrder :: "nat list" where
  "edGroupOrder =
     [0xed, 0xd3, 0xf5, 0x5c, 0x1a, 0x63, 0x12, 0x58,
      0xd6, 0x9c, 0xf7, 0xa2, 0xde, 0xf9, 0xde, 0x14,
      0x00, 0x00, 0x00, 0x00, 0x00, 0x00, 0x00, 0x00,
      0x00, 0x00, 0x00, 0x00, 0x00, 0x00, 0x00, 0x10]"

text \<open>An error and whether it wraps \<^verbatim>\<open>errSignatureMalleability\<close>.\<close>

datatype sig_error = SigError (sig_text: string) (malleable: bool)

fun strict_scan :: "nat list \<Rightarrow> nat \<Rightarrow> sig_error option" where
  "strict_scan s 0 =
     Some (SigError ''non-canonical Ed25519 signature scalar: S == group order L: signature malleability'' True)"
| "strict_scan s (Suc i) =
     (if edGroupOrder ! i < s ! i then
        Some (SigError ''non-canonical Ed25519 signature scalar: S >= group order L: signature malleability'' True)
      else if s ! i < edGroupOrder ! i then None
      else strict_scan s i)"

definition strict_verify_ed25519 :: "string \<Rightarrow> sig_error option" where
  "strict_verify_ed25519 sig =
     (if length sig \<noteq> 64
      then Some (SigError (''invalid signature length: '' @ dec_digits (length sig)) False)
      else strict_scan (map code_of (drop 32 sig)) 32)"

definition verify_jwt_signature_with_key ::
  "prims \<Rightarrow> string \<Rightarrow> string \<Rightarrow> (string \<rightharpoonup> byte list) \<Rightarrow> sig_error option" where
  "verify_jwt_signature_with_key pr jwt issuer keys =
     (case decode_jwt_header pr jwt of
        Inl e \<Rightarrow> Some (SigError (''JWT header decode failed: '' @ e) False)
      | Inr alg \<Rightarrow>
          if alg \<noteq> ''EdDSA''
          then Some (SigError (''unsupported JWT algorithm '' @ go_quote (is_print pr) alg
                               @ '': DRS receipts must use EdDSA'') False)
          else case keys issuer of
            None \<Rightarrow> Some (SigError (''DID resolution failed: no key found for '' @ issuer) False)
          | Some key \<Rightarrow>
              (case split_n CHR ''.'' 4 jwt of
                 [header, payload, sig] \<Rightarrow>
                   (case raw_url_decode sig of
                      None \<Rightarrow> Some (SigError ''signature base64 decode: illegal base64 data'' False)
                    | Some sig_bytes \<Rightarrow>
                        (case strict_verify_ed25519 sig_bytes of
                           Some e \<Rightarrow>
                             Some (SigError (''Ed25519 strict check failed: '' @ sig_text e) (malleable e))
                         | None \<Rightarrow>
                             if \<not> ed25519_verify pr key (header @ ''.'' @ payload) sig_bytes
                             then Some (SigError ''Ed25519 signature verification failed'' False)
                             else None))
               | _ \<Rightarrow> Some (SigError ''malformed JWT'' False)))"

definition classify_signature_error :: "sig_error \<Rightarrow> vcode" where
  "classify_signature_error e =
     (if malleable e then SIGNATURE_MALLEABILITY
      else if contains_sub (sig_text e) ''DID resolution failed''
         \<or> contains_sub (sig_text e) ''unsupported DID method''
         \<or> contains_sub (sig_text e) ''base58 decoding failed''
         \<or> contains_sub (sig_text e) ''decoded length''
         \<or> contains_sub (sig_text e) ''unsupported key type''
      then UNRESOLVABLE_DID
      else INVALID_SIGNATURE)"

text \<open>\<open>validateConsentRecord\<close>: the first missing field, or the empty string.\<close>

definition validate_consent_record :: "consent_record \<Rightarrow> string" where
  "validate_consent_record c =
     (if trim_space (Method c) = '''' then ''method is empty''
      else if trim_space (Timestamp c) = '''' then ''timestamp is empty''
      else if trim_space (SessionID c) = '''' then ''session_id is empty''
      else if trim_space (PolicyHash c) = '''' then ''policy_hash is empty''
      else '''')"

definition cmd_is_subpath :: "string \<Rightarrow> string \<Rightarrow> bool" where
  "cmd_is_subpath root_cmd cmd =
     (if cmd = root_cmd then True
      else if prefix root_cmd cmd then prefix ''/'' (drop (length root_cmd) cmd)
      else False)"

section \<open>Block A: completeness\<close>

definition block_a :: "chain_bundle \<Rightarrow> vcode option" where
  "block_a b = first_error
     [guard_err (length (Receipts b) = 0) EMPTY_CHAIN,
      guard_err (maxChainDepth < length (Receipts b)) CHAIN_TOO_DEEP,
      guard_err (Invocation b = '''') MISSING_INVOCATION]"

section \<open>Block B: structural integrity\<close>

definition check_type_version :: "delegation_receipt \<Rightarrow> vcode option" where
  "check_type_version r = first_error
     [guard_err (dr_DrsType r \<noteq> expectedDRType) WRONG_TYPE,
      guard_err (dr_DrsV r \<noteq> expectedDRSVersion) VERSION_MISMATCH]"

definition check_root :: "delegation_receipt \<Rightarrow> vcode option" where
  "check_root r =
     (if dr_PrevDRHash r \<noteq> None then Some CHAIN_STRUCTURE
      else if dr_DrsRootType r = Some ''human'' then
        (case dr_DrsConsent r of
           None \<Rightarrow> Some MISSING_CONSENT
         | Some c \<Rightarrow> guard_err (validate_consent_record c \<noteq> '''') INVALID_CONSENT)
      else None)"

definition check_hash_link ::
  "prims \<Rightarrow> string \<times> delegation_receipt \<Rightarrow> string \<times> delegation_receipt \<Rightarrow> vcode option" where
  "check_hash_link pr prev cur =
     (case dr_PrevDRHash (snd cur) of
        None \<Rightarrow> Some CHAIN_BREAK
      | Some h \<Rightarrow> guard_err (h \<noteq> compute_chain_hash pr (fst prev)) CHAIN_BREAK)"

definition check_issuer_link :: "delegation_receipt \<Rightarrow> delegation_receipt \<Rightarrow> vcode option" where
  "check_issuer_link prev cur = guard_err (dr_Iss cur \<noteq> dr_Aud prev) ISSUER_MISMATCH"

definition check_dr_chain :: "prims \<Rightarrow> string list \<Rightarrow> string list \<Rightarrow> vcode option" where
  "check_dr_chain pr refs jwts =
     (if length refs \<noteq> length jwts then Some CHAIN_REFERENCE_MISMATCH
      else check_all (\<lambda>(ref, jwt). guard_err (ref \<noteq> compute_chain_hash pr jwt) CHAIN_REFERENCE_MISMATCH)
             (zip refs jwts))"

definition block_b ::
  "prims \<Rightarrow> string list \<Rightarrow> delegation_receipt list \<Rightarrow> invocation_receipt \<Rightarrow> vcode option" where
  "block_b pr jwts rs iv = first_error
     [check_all check_type_version rs,
      guard_err (inv_DrsType iv \<noteq> expectedInvType) WRONG_TYPE,
      guard_err (inv_DrsV iv \<noteq> expectedDRSVersion) VERSION_MISMATCH,
      check_all (\<lambda>r. guard_err (\<not> prefix ''dr:'' (dr_Jti r)) INVALID_JTI) rs,
      guard_err (\<not> prefix ''inv:'' (inv_Jti iv)) INVALID_JTI,
      check_root (hd rs),
      check_adjacent (check_hash_link pr) (zip jwts rs),
      check_adjacent check_issuer_link rs,
      guard_err (inv_Iss iv \<noteq> dr_Aud (last rs)) INVOKER_MISMATCH,
      check_dr_chain pr (inv_DrChain iv) jwts]"

section \<open>Block C: cryptographic validity\<close>

text \<open>
  The distinct issuers in order of first occurrence. One goroutine resolves each; all of them
  finish before the results are read. The order in which they run and report is the scheduler's:
  the parameter \<open>sched\<close>, which permutes the list.
\<close>

fun dedup :: "string list \<Rightarrow> string list \<Rightarrow> string list" where
  "dedup seen_dids [] = []"
| "dedup seen_dids (d # ds) =
     (if d \<in> set seen_dids then dedup seen_dids ds else d # dedup (d # seen_dids) ds)"

fun resolve_each ::
  "(string \<Rightarrow> 'w \<Rightarrow> resolve_outcome \<times> 'w) \<Rightarrow> string list \<Rightarrow> 'w \<Rightarrow>
   (string \<times> resolve_outcome) list \<times> 'w" where
  "resolve_each res [] w = ([], w)"
| "resolve_each res (d # ds) w =
     (let (r, w1) = res d w; (rs, w2) = resolve_each res ds w1 in ((d, r) # rs, w2))"

fun drain_results ::
  "(string \<times> resolve_outcome) list \<Rightarrow> (string \<rightharpoonup> byte list) \<Rightarrow> string + (string \<rightharpoonup> byte list)" where
  "drain_results [] keys = Inr keys"
| "drain_results ((d, Resolved k) # rs) keys = drain_results rs (keys(d \<mapsto> k))"
| "drain_results ((d, ResolveError e) # rs) keys = Inl (''resolve '' @ d @ '': '' @ e)"
| "drain_results ((d, ResolvePanic) # rs) keys = Inl ''panic''"

text \<open>\<open>None\<close> is the panic of one of the goroutines: no result is ever drained.\<close>

definition resolve_issuers_parallel ::
  "(string list \<Rightarrow> string list) \<Rightarrow> (string \<Rightarrow> 'w \<Rightarrow> resolve_outcome \<times> 'w) \<Rightarrow> string list \<Rightarrow> 'w \<Rightarrow>
   (string + (string \<rightharpoonup> byte list)) option \<times> 'w" where
  "resolve_issuers_parallel sched res dids w =
     (let (results, w') = resolve_each res (sched (dedup [] dids)) w
      in (if ResolvePanic \<in> snd ` set results then None else Some (drain_results results Map.empty), w'))"

definition verify_signatures ::
  "prims \<Rightarrow> (string \<rightharpoonup> byte list) \<Rightarrow> string list \<Rightarrow> delegation_receipt list \<Rightarrow> string \<Rightarrow>
   invocation_receipt \<Rightarrow> vcode option" where
  "verify_signatures pr keys jwts rs inv_jwt iv =
     (case check_all (\<lambda>(jwt, r). map_option classify_signature_error
                        (verify_jwt_signature_with_key pr jwt (dr_Iss r) keys)) (zip jwts rs) of
        Some code \<Rightarrow> Some code
      | None \<Rightarrow>
          (case verify_jwt_signature_with_key pr inv_jwt (inv_Iss iv) keys of
             None \<Rightarrow> None
           | Some e \<Rightarrow>
               let code = classify_signature_error e
               in Some (if code = INVALID_SIGNATURE then INVALID_INVOCATION_SIGNATURE else code)))"

section \<open>Block D: semantic and policy validity\<close>

definition check_narrowing :: "delegation_receipt \<Rightarrow> delegation_receipt \<Rightarrow> vcode option" where
  "check_narrowing parent child =
     (case check_attenuation (dr_Policy parent) (dr_Policy child) of
        Some _ \<Rightarrow> Some POLICY_ESCALATION
      | None \<Rightarrow>
          if sint (dr_Nbf child) < sint (dr_Nbf parent) then Some TEMPORAL_BOUNDS_VIOLATION
          else (case dr_Exp parent of
                  None \<Rightarrow> None
                | Some pe \<Rightarrow>
                    (case dr_Exp child of
                       None \<Rightarrow> Some TEMPORAL_BOUNDS_VIOLATION
                     | Some ce \<Rightarrow> guard_err (sint pe < sint ce) TEMPORAL_BOUNDS_VIOLATION)))"

definition check_tool_server :: "string \<Rightarrow> string \<Rightarrow> vcode option" where
  "check_tool_server identity tool_server =
     (if identity \<noteq> '''' then guard_err (tool_server \<noteq> identity) TOOL_SERVER_MISMATCH
      else guard_err (tool_server \<noteq> '''') TOOL_SERVER_MISMATCH)"

definition block_d :: "string \<Rightarrow> delegation_receipt list \<Rightarrow> invocation_receipt \<Rightarrow> vcode option" where
  "block_d identity rs iv = first_error
     [guard_err (dr_Cmd (hd rs) = '''' \<or> \<not> prefix ''/'' (dr_Cmd (hd rs))) INVALID_ROOT_CMD,
      check_adjacent (\<lambda>p c. guard_err (\<not> cmd_is_subpath (dr_Cmd p) (dr_Cmd c)) COMMAND_MISMATCH) rs,
      guard_err (\<not> cmd_is_subpath (dr_Cmd (last rs)) (inv_Cmd iv)) COMMAND_MISMATCH,
      check_all (\<lambda>r. guard_err (dr_Sub r \<noteq> dr_Sub (hd rs)) SUBJECT_MISMATCH) (tl rs),
      guard_err (inv_Sub iv \<noteq> dr_Sub (hd rs)) INVOCATION_SUBJECT_MISMATCH,
      check_tool_server identity (inv_ToolServer iv),
      check_adjacent check_narrowing rs,
      check_all (\<lambda>r. map_option (\<lambda>_. POLICY_VIOLATION) (evaluate (dr_Policy r) (inv_Args iv))) rs]"

section \<open>Block E: temporal validity\<close>

definition invocationClockSkew :: int where
  "invocationClockSkew = 300 * second"

text \<open>Both the sum and the age are int64 operations, with their wrap-around.\<close>

definition check_freshness :: "int64 \<Rightarrow> int \<Rightarrow> int64 \<Rightarrow> vcode option" where
  "check_freshness now max_age iat = first_error
     [guard_err (sint (now + word_of_int (duration_secs invocationClockSkew)) < sint iat)
        INVOCATION_NOT_YET_VALID,
      guard_err (0 < max_age \<and> duration_secs max_age < sint (now - iat)) INVOCATION_STALE]"

definition check_window :: "int64 \<Rightarrow> delegation_receipt \<Rightarrow> vcode option" where
  "check_window now r = first_error
     [guard_err (sint now < sint (dr_Nbf r)) NOT_YET_VALID,
      (case dr_Exp r of None \<Rightarrow> None | Some e \<Rightarrow> guard_err (sint e < sint now) EXPIRED)]"

definition block_e ::
  "int64 \<Rightarrow> int \<Rightarrow> delegation_receipt list \<Rightarrow> invocation_receipt \<Rightarrow> vcode option" where
  "block_e now max_age rs iv = first_error
     [check_freshness now max_age (inv_Iat iv), check_all (check_window now) rs]"

section \<open>Block F: revocation\<close>

fun remote_revocation ::
  "(uint64 \<Rightarrow> 'w \<Rightarrow> (string + bool) \<times> 'w) \<Rightarrow> delegation_receipt list \<Rightarrow> 'w \<Rightarrow> vcode option \<times> 'w" where
  "remote_revocation is_rev [] w = (None, w)"
| "remote_revocation is_rev (r # rs) w =
     (case dr_DrsStatusListIndex r of
        None \<Rightarrow> remote_revocation is_rev rs w
      | Some idx \<Rightarrow>
          (case is_rev idx w of
             (Inl e, w') \<Rightarrow> (Some REVOCATION_CHECK_FAILED, w')
           | (Inr revoked, w') \<Rightarrow>
               if revoked then (Some REVOKED, w') else remote_revocation is_rev rs w'))"

definition local_revocation :: "(uint64 \<Rightarrow> bool) \<Rightarrow> delegation_receipt list \<Rightarrow> vcode option" where
  "local_revocation is_rev rs =
     check_all (\<lambda>r. case dr_DrsStatusListIndex r of
                      None \<Rightarrow> None | Some idx \<Rightarrow> guard_err (is_rev idx) REVOKED) rs"

definition block_f :: "'w deps \<Rightarrow> delegation_receipt list \<Rightarrow> 'w \<Rightarrow> vcode option \<times> 'w" where
  "block_f d rs w =
     (let (remote, w') = (case Revocation d of
                            None \<Rightarrow> (None, w) | Some is_rev \<Rightarrow> remote_revocation is_rev rs w)
      in case remote of
           Some code \<Rightarrow> (Some code, w')
         | None \<Rightarrow> ((case LocalRevoked d of
                      None \<Rightarrow> None | Some is_rev \<Rightarrow> local_revocation (\<lambda>i. is_rev i w') rs), w'))"

section \<open>After the blocks: storage and timestamps\<close>

fun store_receipts ::
  "prims \<Rightarrow> (string \<Rightarrow> string \<Rightarrow> 'w \<Rightarrow> string option \<times> 'w) \<Rightarrow> string list \<Rightarrow> 'w \<Rightarrow> string list \<times> 'w" where
  "store_receipts pr put [] w = ([], w)"
| "store_receipts pr put (jwt # jwts) w =
     (let h = compute_chain_hash pr jwt;
          (err, w1) = put h jwt w;
          (ws, w2) = store_receipts pr put jwts w1
      in (case err of None \<Rightarrow> ws
            | Some e \<Rightarrow> (''receipt '' @ h @ '' could not be persisted: '' @ e) # ws, w2))"

fun check_timestamps ::
  "prims \<Rightarrow> (string \<Rightarrow> 'w \<Rightarrow> (string + string) \<times> 'w) \<Rightarrow> (string \<Rightarrow> byte list \<Rightarrow> string + int) \<Rightarrow>
   nat \<Rightarrow> string list \<Rightarrow> 'w \<Rightarrow> timestamp_result list \<times> 'w" where
  "check_timestamps pr get vts i [] w = ([], w)"
| "check_timestamps pr get vts i (jwt # jwts) w =
     (let (tok, w1) = get (compute_chain_hash pr jwt @ ''.tst'') w;
          t = (case tok of
                 Inl _ \<Rightarrow> \<lparr>ts_Index = i, ts_Valid = False, ts_Time = None,
                           ts_Error = Some ''no timestamp token stored for this receipt''\<rparr>
               | Inr token \<Rightarrow>
                   (case vts token (sha256 pr jwt) of
                      Inl e \<Rightarrow> \<lparr>ts_Index = i, ts_Valid = False, ts_Time = None, ts_Error = Some e\<rparr>
                    | Inr gen_time \<Rightarrow> \<lparr>ts_Index = i, ts_Valid = True, ts_Time = Some gen_time,
                                       ts_Error = None\<rparr>));
          (ts, w2) = check_timestamps pr get vts (Suc i) jwts w1
      in (t # ts, w2))"

definition success_context :: "delegation_receipt list \<Rightarrow> verification_context" where
  "success_context rs =
     \<lparr>RootPrincipal = dr_Iss (hd rs),
      RootType = dr_DrsRootType (hd rs),
      ConsentRecord = dr_DrsConsent (hd rs),
      Regulatory = dr_DrsRegulatory (hd rs),
      LeafPolicy = dr_Policy (last rs),
      ChainDepth = length rs,
      ctx_SessionID = map_option SessionID (dr_DrsConsent (hd rs)),
      ctx_CorrelationID = dr_CorrelationID (hd rs)\<rparr>"

definition finish_chain ::
  "prims \<Rightarrow> 'w deps \<Rightarrow> string list \<Rightarrow> delegation_receipt list \<Rightarrow> 'w \<Rightarrow> verification_result \<times> 'w" where
  "finish_chain pr d jwts rs w =
     (let (warnings, w1) = (case StoreOps d of
                              None \<Rightarrow> ([], w) | Some (put, _) \<Rightarrow> store_receipts pr put jwts w);
          (ts, w2) = (case StoreOps d of
                        None \<Rightarrow> ([], w1)
                      | Some (_, get) \<Rightarrow>
                          if IncludeTimestamps d
                          then check_timestamps pr get (VerifyTimestamp d) 0 jwts w1 else ([], w1))
      in ((valid_result (success_context rs))\<lparr>Timestamps := ts, StoreWarnings := warnings\<rparr>, w2))"

section \<open>The whole verification\<close>

text \<open>Blocks C (signatures) to E work on decoded receipts and resolved keys, without effects.\<close>

definition blocks_cde ::
  "prims \<Rightarrow> 'w deps \<Rightarrow> int64 \<Rightarrow> (string \<rightharpoonup> byte list) \<Rightarrow> chain_bundle \<Rightarrow> delegation_receipt list \<Rightarrow>
   invocation_receipt \<Rightarrow> vcode option" where
  "blocks_cde pr d now keys b rs iv = first_error
     [verify_signatures pr keys (Receipts b) rs (Invocation b) iv,
      block_d (ServerIdentity d) rs iv,
      block_e now (MaxInvocationAge d) rs iv]"

definition issuer_dids :: "delegation_receipt list \<Rightarrow> invocation_receipt \<Rightarrow> string list" where
  "issuer_dids rs iv = map dr_Iss rs @ [inv_Iss iv]"

definition decode_bundle_receipts :: "prims \<Rightarrow> chain_bundle \<Rightarrow> delegation_receipt list option" where
  "decode_bundle_receipts pr b = those (map (decode_jwt_payload (unmarshal_receipt pr)) (Receipts b))"

definition chain_decoded ::
  "prims \<Rightarrow> (string list \<Rightarrow> string list) \<Rightarrow> 'w deps \<Rightarrow> int64 \<Rightarrow> chain_bundle \<Rightarrow>
   delegation_receipt list \<Rightarrow> invocation_receipt \<Rightarrow> 'w \<Rightarrow> verification_result option \<times> 'w" where
  "chain_decoded pr sched d now b rs iv w =
     (case block_b pr (Receipts b) rs iv of
        Some code \<Rightarrow> (Some (invalid_result code), w)
      | None \<Rightarrow>
          (case resolve_issuers_parallel sched (Resolve d) (issuer_dids rs iv) w of
             (None, w1) \<Rightarrow> (None, w1)
           | (Some (Inl e), w1) \<Rightarrow>
               (Some (invalid_result (classify_signature_error (SigError e False))), w1)
           | (Some (Inr keys), w1) \<Rightarrow>
               (case blocks_cde pr d now keys b rs iv of
                  Some code \<Rightarrow> (Some (invalid_result code), w1)
                | None \<Rightarrow>
                    (case block_f d rs w1 of
                       (Some code, w2) \<Rightarrow> (Some (invalid_result code), w2)
                     | (None, w2) \<Rightarrow>
                         let (res, w3) = finish_chain pr d (Receipts b) rs w2 in (Some res, w3)))))"

text \<open>\<open>None\<close> as the result is a crash of the process; \<open>now\<close> is the clock reading of block E.\<close>

definition chain ::
  "prims \<Rightarrow> (string list \<Rightarrow> string list) \<Rightarrow> 'w deps \<Rightarrow> int64 \<Rightarrow> chain_bundle \<Rightarrow> 'w \<Rightarrow>
   verification_result option \<times> 'w" where
  "chain pr sched d now b w =
     (case block_a b of
        Some code \<Rightarrow> (Some (invalid_result code), w)
      | None \<Rightarrow>
          (case decode_bundle_receipts pr b of
             None \<Rightarrow> (Some (invalid_result MALFORMED_RECEIPT), w)
           | Some rs \<Rightarrow>
               (case decode_jwt_payload (unmarshal_invocation pr) (Invocation b) of
                  None \<Rightarrow> (Some (invalid_result MALFORMED_INVOCATION), w)
                | Some iv \<Rightarrow> chain_decoded pr sched d now b rs iv w)))"

section \<open>Command paths\<close>

lemma cmd_is_subpath_iff: "cmd_is_subpath r c \<longleftrightarrow> c = r \<or> prefix (r @ ''/'') c"
  by (auto simp: cmd_is_subpath_def prefix_def)

lemma cmd_is_subpath_refl [simp]: "cmd_is_subpath c c"
  by (simp add: cmd_is_subpath_def)

lemma cmd_is_subpath_trans: "cmd_is_subpath a b \<Longrightarrow> cmd_is_subpath b c \<Longrightarrow> cmd_is_subpath a c"
  by (auto simp: cmd_is_subpath_iff prefix_def)

lemma local_revocation_Some:
  "local_revocation is_rev rs = Some c \<longleftrightarrow>
     c = REVOKED \<and> (\<exists>r \<in> set rs. \<exists>i. dr_DrsStatusListIndex r = Some i \<and> is_rev i)"
  unfolding local_revocation_def
  by (induction rs) (auto simp: guard_err_def split: option.splits if_splits)

section \<open>Canonical scalars\<close>

fun le_value :: "nat list \<Rightarrow> nat" where
  "le_value [] = 0"
| "le_value (b # bs) = b + 256 * le_value bs"

lemma le_value_append: "le_value (xs @ ys) = le_value xs + 256 ^ length xs * le_value ys"
  by (induction xs) (auto simp: algebra_simps)

lemma le_value_less: "\<forall>b \<in> set xs. b < 256 \<Longrightarrow> le_value xs < 256 ^ length xs"
proof (induction xs)
  case (Cons b bs)
  then have "le_value bs + 1 \<le> 256 ^ length bs" by simp
  then have "256 * (le_value bs + 1) \<le> 256 * 256 ^ length bs" by (rule mult_left_mono) simp
  with Cons.prems show ?case by simp
qed simp

lemma le_value_take_Suc:
  "n < length xs \<Longrightarrow> le_value (take (Suc n) xs) = le_value (take n xs) + 256 ^ n * xs ! n"
  by (simp add: take_Suc_conv_app_nth le_value_append)

lemma digit_compare:
  assumes "a < (m :: nat)" "b < m" "x < y"
  shows "a + m * x < b + m * y"
proof -
  have "m * (x + 1) \<le> m * y" using assms(3) by (intro mult_left_mono) auto
  with assms(1) show ?thesis by simp
qed

lemma edGroupOrder_props: "length edGroupOrder = 32" "\<forall>b \<in> set edGroupOrder. b < 256"
    "le_value edGroupOrder = 2 ^ 252 + 27742317777372353535851937790883648493"
  by (simp_all add: edGroupOrder_def)

lemma strict_scan_None:
  assumes "length s = 32" "\<forall>b \<in> set s. b < 256" "n \<le> 32"
  shows "strict_scan s n = None \<longleftrightarrow> le_value (take n s) < le_value (take n edGroupOrder)"
  using assms(3)
proof (induction n)
  case (Suc n)
  let ?a = "le_value (take n s)" and ?b = "le_value (take n edGroupOrder)"
  have lt: "?a < 256 ^ n" "?b < 256 ^ n"
    using le_value_less [of "take n s"] le_value_less [of "take n edGroupOrder"] assms Suc.prems
      edGroupOrder_props by (auto dest: in_set_takeD)
  have step: "le_value (take (Suc n) s) = ?a + 256 ^ n * s ! n"
      "le_value (take (Suc n) edGroupOrder) = ?b + 256 ^ n * edGroupOrder ! n"
    using assms(1) Suc.prems edGroupOrder_props(1) by (auto intro!: le_value_take_Suc)
  consider "s ! n < edGroupOrder ! n" | "edGroupOrder ! n < s ! n" | "s ! n = edGroupOrder ! n"
    by linarith
  then show ?case
  proof cases
    case 1
    with digit_compare [OF lt 1] show ?thesis by (simp add: step)
  next
    case 2
    with digit_compare [OF lt(2,1) 2] show ?thesis by (simp add: step)
  next
    case 3
    with Suc show ?thesis by (simp add: step)
  qed
qed simp

text \<open>
  C18. The strict signature check accepts exactly the 64-byte signatures whose scalar, read
  little endian from the last 32 bytes, is below the group order
  \<open>2 ^ 252 + 27742317777372353535851937790883648493\<close>; every longer, shorter or non-canonical
  signature is rejected before the library verifies it.
\<close>

theorem strict_verify_canonical:
  "strict_verify_ed25519 sig = None \<longleftrightarrow>
     length sig = 64 \<and>
     le_value (map code_of (drop 32 sig)) < 2 ^ 252 + 27742317777372353535851937790883648493"
proof (cases "length sig = 64")
  case True
  let ?s = "map code_of (drop 32 sig)"
  have "length ?s = 32" "\<forall>b \<in> set ?s. b < 256" using True by auto
  from strict_scan_None [OF this, of 32] True show ?thesis
    using edGroupOrder_props \<open>length ?s = 32\<close> by (simp add: strict_verify_ed25519_def)
qed (simp add: strict_verify_ed25519_def)

section \<open>The declarative reading of the blocks\<close>

definition signature_valid :: "prims \<Rightarrow> (string \<rightharpoonup> byte list) \<Rightarrow> string \<Rightarrow> string \<Rightarrow> bool" where
  "signature_valid pr keys jwt issuer =
     (\<exists>h p s key sig. split_n CHR ''.'' 4 jwt = [h, p, s] \<and> decode_jwt_header pr jwt = Inr ''EdDSA'' \<and>
        keys issuer = Some key \<and> raw_url_decode s = Some sig \<and> strict_verify_ed25519 sig = None \<and>
        ed25519_verify pr key (h @ ''.'' @ p) sig)"

definition header_ok :: "delegation_receipt \<Rightarrow> bool" where
  "header_ok r = (dr_DrsType r = expectedDRType \<and> dr_DrsV r = expectedDRSVersion \<and>
                  prefix ''dr:'' (dr_Jti r))"

definition invocation_header_ok :: "invocation_receipt \<Rightarrow> bool" where
  "invocation_header_ok iv = (inv_DrsType iv = expectedInvType \<and>
     inv_DrsV iv = expectedDRSVersion \<and> prefix ''inv:'' (inv_Jti iv))"

definition root_ok :: "delegation_receipt \<Rightarrow> bool" where
  "root_ok r = (dr_PrevDRHash r = None \<and>
     (dr_DrsRootType r = Some ''human'' \<longrightarrow>
        (\<exists>c. dr_DrsConsent r = Some c \<and>
           (\<forall>f \<in> {Method, Timestamp, SessionID, PolicyHash}. trim_space (f c) \<noteq> ''''))))"

definition linked_chain ::
  "prims \<Rightarrow> string list \<Rightarrow> delegation_receipt list \<Rightarrow> invocation_receipt \<Rightarrow> bool" where
  "linked_chain pr jwts rs iv =
     ((\<forall>i. Suc i < length rs \<longrightarrow>
         dr_PrevDRHash (rs ! Suc i) = Some (compute_chain_hash pr (jwts ! i)) \<and>
         dr_Iss (rs ! Suc i) = dr_Aud (rs ! i)) \<and>
      inv_Iss iv = dr_Aud (last rs) \<and> inv_DrChain iv = map (compute_chain_hash pr) jwts)"

text \<open>What a receipt may do to its child: a later start, an earlier end, a smaller policy.\<close>

definition narrows :: "delegation_receipt \<Rightarrow> delegation_receipt \<Rightarrow> bool" where
  "narrows p c =
     (cmd_is_subpath (dr_Cmd p) (dr_Cmd c) \<and>
      check_attenuation (dr_Policy p) (dr_Policy c) = None \<and>
      sint (dr_Nbf p) \<le> sint (dr_Nbf c) \<and>
      (\<forall>pe. dr_Exp p = Some pe \<longrightarrow> (\<exists>ce. dr_Exp c = Some ce \<and> sint ce \<le> sint pe)))"

definition semantics_ok :: "string \<Rightarrow> delegation_receipt list \<Rightarrow> invocation_receipt \<Rightarrow> bool" where
  "semantics_ok identity rs iv =
     (prefix ''/'' (dr_Cmd (hd rs)) \<and>
      (\<forall>i. Suc i < length rs \<longrightarrow> narrows (rs ! i) (rs ! Suc i)) \<and>
      cmd_is_subpath (dr_Cmd (last rs)) (inv_Cmd iv) \<and>
      (\<forall>r \<in> set rs. dr_Sub r = inv_Sub iv \<and> evaluate (dr_Policy r) (inv_Args iv) = None) \<and>
      inv_ToolServer iv = identity)"

definition times_ok :: "int64 \<Rightarrow> int \<Rightarrow> delegation_receipt list \<Rightarrow> invocation_receipt \<Rightarrow> bool" where
  "times_ok now max_age rs iv =
     (check_freshness now max_age (inv_Iat iv) = None \<and>
      (\<forall>r \<in> set rs. sint (dr_Nbf r) \<le> sint now \<and> (\<forall>e. dr_Exp r = Some e \<longrightarrow> sint now \<le> sint e)))"

definition chain_spec ::
  "prims \<Rightarrow> 'w deps \<Rightarrow> int64 \<Rightarrow> (string \<rightharpoonup> byte list) \<Rightarrow> chain_bundle \<Rightarrow> delegation_receipt list \<Rightarrow>
   invocation_receipt \<Rightarrow> bool" where
  "chain_spec pr d now keys b rs iv =
     (0 < length rs \<and> length rs \<le> 16 \<and> Invocation b \<noteq> '''' \<and>
      (\<forall>r \<in> set rs. header_ok r) \<and> invocation_header_ok iv \<and> root_ok (hd rs) \<and>
      linked_chain pr (Receipts b) rs iv \<and>
      (\<forall>i < length rs. signature_valid pr keys (Receipts b ! i) (dr_Iss (rs ! i))) \<and>
      signature_valid pr keys (Invocation b) (inv_Iss iv) \<and>
      semantics_ok (ServerIdentity d) rs iv \<and>
      times_ok now (MaxInvocationAge d) rs iv)"

lemma check_all_zip_None:
  "length xs = length ys \<Longrightarrow>
    check_all (\<lambda>(x, y). f x y) (zip xs ys) = None \<longleftrightarrow> (\<forall>i < length ys. f (xs ! i) (ys ! i) = None)"
  by (auto simp: set_zip)

lemma check_dr_chain_None: "check_dr_chain pr refs jwts = None \<longleftrightarrow> refs = map (compute_chain_hash pr) jwts"
proof (cases "length refs = length jwts")
  case True
  then show ?thesis
    by (simp add: check_dr_chain_def check_all_zip_None del: check_all_None)
      (simp add: list_eq_iff_nth_eq [of refs "map (compute_chain_hash pr) jwts"])
qed (auto simp: check_dr_chain_def)

lemma check_root_None: "check_root r = None \<longleftrightarrow> root_ok r"
  by (auto simp: check_root_def root_ok_def validate_consent_record_def split: option.splits if_splits)

lemma check_type_version_None:
  "check_type_version r = None \<longleftrightarrow> dr_DrsType r = expectedDRType \<and> dr_DrsV r = expectedDRSVersion"
  by (simp add: check_type_version_def)

lemma check_hash_link_None:
  "check_hash_link pr p c = None \<longleftrightarrow> dr_PrevDRHash (snd c) = Some (compute_chain_hash pr (fst p))"
  by (simp add: check_hash_link_def split: option.splits)

lemma block_a_None:
  "block_a b = None \<longleftrightarrow> 0 < length (Receipts b) \<and> length (Receipts b) \<le> 16 \<and> Invocation b \<noteq> ''''"
  by (auto simp: block_a_def maxChainDepth_def)

lemma block_b_None:
  assumes "length jwts = length rs"
  shows "block_b pr jwts rs iv = None \<longleftrightarrow>
    (\<forall>r \<in> set rs. header_ok r) \<and> invocation_header_ok iv \<and> root_ok (hd rs) \<and>
    linked_chain pr jwts rs iv"
proof -
  have "check_adjacent (check_hash_link pr) (zip jwts rs) = None \<longleftrightarrow>
      (\<forall>i. Suc i < length rs \<longrightarrow> dr_PrevDRHash (rs ! Suc i) = Some (compute_chain_hash pr (jwts ! i)))"
    using assms by (auto simp: check_adjacent_None successively_conv_nth check_hash_link_None)
  moreover have "check_adjacent check_issuer_link rs = None \<longleftrightarrow>
      (\<forall>i. Suc i < length rs \<longrightarrow> dr_Iss (rs ! Suc i) = dr_Aud (rs ! i))"
    by (auto simp: check_adjacent_None successively_conv_nth check_issuer_link_def)
  ultimately show ?thesis
    unfolding block_b_def linked_chain_def header_ok_def invocation_header_ok_def
    by (auto simp: check_type_version_None check_root_None check_dr_chain_None)
qed

lemma verify_jwt_None:
  "verify_jwt_signature_with_key pr jwt issuer keys = None \<longleftrightarrow> signature_valid pr keys jwt issuer"
  unfolding verify_jwt_signature_with_key_def signature_valid_def
  by (fastforce split: sum.splits option.splits list.splits if_splits)

lemma verify_signatures_None:
  assumes "length jwts = length rs"
  shows "verify_signatures pr keys jwts rs inv_jwt iv = None \<longleftrightarrow>
    (\<forall>i < length rs. signature_valid pr keys (jwts ! i) (dr_Iss (rs ! i))) \<and>
    signature_valid pr keys inv_jwt (inv_Iss iv)"
  unfolding verify_signatures_def
  using assms by (simp add: Let_def verify_jwt_None check_all_zip_None del: check_all_None
      split: option.splits)
    (auto simp: verify_jwt_None [symmetric])

lemma check_narrowing_None:
  "check_narrowing p c = None \<longleftrightarrow>
     check_attenuation (dr_Policy p) (dr_Policy c) = None \<and> sint (dr_Nbf p) \<le> sint (dr_Nbf c) \<and>
     (\<forall>pe. dr_Exp p = Some pe \<longrightarrow> (\<exists>ce. dr_Exp c = Some ce \<and> sint ce \<le> sint pe))"
  by (auto simp: check_narrowing_def not_less split: option.splits)

lemma check_tool_server_None: "check_tool_server identity ts = None \<longleftrightarrow> ts = identity"
  by (auto simp: check_tool_server_def)

lemma block_d_None:
  assumes "rs \<noteq> []"
  shows "block_d identity rs iv = None \<longleftrightarrow> semantics_ok identity rs iv"
proof -
  have "(\<forall>r \<in> set (tl rs). dr_Sub r = dr_Sub (hd rs)) \<and> inv_Sub iv = dr_Sub (hd rs) \<longleftrightarrow>
      (\<forall>r \<in> set rs. dr_Sub r = inv_Sub iv)"
    using assms by (cases rs) auto
  moreover have "dr_Cmd (hd rs) = '''' \<or> \<not> prefix ''/'' (dr_Cmd (hd rs)) \<longleftrightarrow> \<not> prefix ''/'' (dr_Cmd (hd rs))"
    by auto
  ultimately show ?thesis
    unfolding block_d_def semantics_ok_def narrows_def
    by (auto simp: check_adjacent_None successively_conv_nth check_narrowing_None check_tool_server_None)
qed

lemma check_window_None:
  "check_window now r = None \<longleftrightarrow>
     sint (dr_Nbf r) \<le> sint now \<and> (\<forall>e. dr_Exp r = Some e \<longrightarrow> sint now \<le> sint e)"
  by (auto simp: check_window_def not_less split: option.splits)

lemma block_e_None: "block_e now max_age rs iv = None \<longleftrightarrow> times_ok now max_age rs iv"
  by (simp add: block_e_def times_ok_def check_window_None)

lemma those_length: "those xs = Some ys \<Longrightarrow> length xs = length ys"
  by (induction xs arbitrary: ys) (auto split: option.splits)

lemma decode_bundle_receipts_length:
  "decode_bundle_receipts pr b = Some rs \<Longrightarrow> length (Receipts b) = length rs"
  by (auto simp: decode_bundle_receipts_def dest: those_length)

lemma finish_chain_valid: "Valid (fst (finish_chain pr d jwts rs w))"
  by (simp add: finish_chain_def split_beta Let_def valid_result_def)

lemma chain_decoded_valid:
  "(\<exists>res w'. chain_decoded pr sched d now b rs iv w = (Some res, w') \<and> Valid res) \<longleftrightarrow>
    block_b pr (Receipts b) rs iv = None \<and>
    (\<exists>keys w1 w2. resolve_issuers_parallel sched (Resolve d) (issuer_dids rs iv) w = (Some (Inr keys), w1) \<and>
       blocks_cde pr d now keys b rs iv = None \<and> block_f d rs w1 = (None, w2))"
proof (cases "block_b pr (Receipts b) rs iv")
  case None
  obtain out w1 where res: "resolve_issuers_parallel sched (Resolve d) (issuer_dids rs iv) w = (out, w1)"
    by (cases "resolve_issuers_parallel sched (Resolve d) (issuer_dids rs iv) w")
  consider "out = None" | e where "out = Some (Inl e)" | keys where "out = Some (Inr keys)"
    by (cases out; cases "the out") auto
  then show ?thesis
  proof cases
    case 3
    obtain c w2 where f: "block_f d rs w1 = (c, w2)" by (cases "block_f d rs w1")
    show ?thesis
      using None res 3 f finish_chain_valid [of pr d "Receipts b" rs w2]
      by (cases "blocks_cde pr d now keys b rs iv"; cases c)
        (simp_all add: chain_decoded_def split_beta Let_def)
  qed (use None res in \<open>simp_all add: chain_decoded_def\<close>)
qed (simp add: chain_decoded_def)

lemma chain_spec_blocks:
  assumes "decode_bundle_receipts pr b = Some rs"
  shows "block_a b = None \<and> block_b pr (Receipts b) rs iv = None \<and> blocks_cde pr d now keys b rs iv = None \<longleftrightarrow>
    chain_spec pr d now keys b rs iv"
proof (cases "rs = []")
  case False
  then show ?thesis using decode_bundle_receipts_length [OF assms]
    by (simp add: blocks_cde_def chain_spec_def block_a_None block_b_None verify_signatures_None
        block_d_None block_e_None)
qed (use decode_bundle_receipts_length [OF assms] in \<open>simp add: block_a_None chain_spec_def\<close>)

lemma chain_valid_spec:
  "(\<exists>res w'. chain pr sched d now b w = (Some res, w') \<and> Valid res) \<longleftrightarrow>
    (\<exists>rs iv keys w1 w2.
       decode_bundle_receipts pr b = Some rs \<and>
       decode_jwt_payload (unmarshal_invocation pr) (Invocation b) = Some iv \<and>
       resolve_issuers_parallel sched (Resolve d) (issuer_dids rs iv) w = (Some (Inr keys), w1) \<and>
       block_f d rs w1 = (None, w2) \<and>
       chain_spec pr d now keys b rs iv)"
proof (cases "decode_bundle_receipts pr b")
  case None
  then show ?thesis by (auto simp: chain_def split: option.splits)
next
  case rs: (Some rs)
  show ?thesis
  proof (cases "decode_jwt_payload (unmarshal_invocation pr) (Invocation b)")
    case None
    with rs show ?thesis by (auto simp: chain_def split: option.splits)
  next
    case iv: (Some iv)
    have "(\<exists>res w'. chain pr sched d now b w = (Some res, w') \<and> Valid res) \<longleftrightarrow>
        block_a b = None \<and> (\<exists>res w'. chain_decoded pr sched d now b rs iv w = (Some res, w') \<and> Valid res)"
      using rs iv by (auto simp: chain_def split: option.splits)
    moreover have "block_a b = None \<and> block_b pr (Receipts b) rs iv = None \<and>
        blocks_cde pr d now keys b rs iv = None \<longleftrightarrow> chain_spec pr d now keys b rs iv" for keys
      by (rule chain_spec_blocks [OF rs])
    ultimately show ?thesis unfolding chain_decoded_valid using rs iv by auto
  qed
qed

text \<open>
  C6. The verdict of the whole algorithm is exactly its specification: a bundle is reported
  valid if and only if all its parts decode, every issuer resolves, no revocation source
  objects, and the declarative conditions hold: chain length, types and JTI prefixes, a root
  without parent and with complete human consent, hash and issuer links of every hop, the
  invocation's references, canonical valid signatures under the resolved keys, hop-by-hop
  narrowing of command, policy and validity, one subject, every policy satisfied, the right
  tool server and the time windows.
\<close>

theorem chain_valid_iff:
  "(\<exists>res w'. chain pr sched d now b w = (Some res, w') \<and> Valid res) \<longleftrightarrow>
    (\<exists>rs iv keys w1 w2.
       decode_bundle_receipts pr b = Some rs \<and>
       decode_jwt_payload (unmarshal_invocation pr) (Invocation b) = Some iv \<and>
       resolve_issuers_parallel sched (Resolve d) (issuer_dids rs iv) w = (Some (Inr keys), w1) \<and>
       block_f d rs w1 = (None, w2) \<and>
       chain_spec pr d now keys b rs iv)"
  by (rule chain_valid_spec)

section \<open>Freshness of the invocation\<close>

lemma freshness_sum: "0 \<le> sint now \<Longrightarrow> sint now < 2 ^ 62 \<Longrightarrow> sint (now + 300 :: int64) = sint now + 300"
  by (rule sint_sum_exact [of now 300, simplified]) simp_all

lemma skew_secs: "duration_secs invocationClockSkew = 300"
  by (simp add: invocationClockSkew_def)

lemma check_freshness_None:
  "check_freshness now max_age iat = None \<longleftrightarrow>
     sint iat \<le> sint (now + 300) \<and> (0 < max_age \<longrightarrow> sint (now - iat) \<le> duration_secs max_age)"
  by (auto simp: check_freshness_def skew_secs not_less)

text \<open>
  Away from int64 overflow the freshness check is exact: the invocation is accepted if
  and only if its \<^verbatim>\<open>iat\<close> is at most five minutes ahead of the clock and, when a maximum age is
  configured, at most that many seconds behind it.
\<close>

theorem freshness_exact:
  assumes "0 \<le> sint now" "sint now < 2 ^ 62" and "sint now - sint iat < 2 ^ 63"
  shows "check_freshness now max_age iat = None \<longleftrightarrow>
    sint iat \<le> sint now + 300 \<and> (0 < max_age \<longrightarrow> sint now - sint iat \<le> duration_secs max_age)"
proof -
  have "sint (now - iat) = sint now - sint iat"
    using assms sint_lt [of iat] by (intro sint_diff_exact) (auto simp: sint_greater_eq)
  with assms show ?thesis by (simp add: check_freshness_None freshness_sum)
qed

theorem freshness_exact_witness:
  "check_freshness 1000 (600 * second) 400 = None \<longleftrightarrow>
    sint (400 :: int64) \<le> sint (1000 :: int64) + 300 \<and>
    \<not> duration_secs (600 * second) < sint (1000 :: int64) - sint (400 :: int64)"
  using freshness_exact [of 1000 400 "600 * second"] by (simp add: second_def not_less)

text \<open>
  Beyond it the check is bypassed: the age of an \<^verbatim>\<open>iat\<close> that lies \<open>2 ^ 63\<close> seconds or more
  before the clock wraps around to a negative number, so such an invocation is never stale,
  whatever maximum age is configured.
\<close>

theorem freshness_overflow_bypass:
  assumes "0 \<le> sint now" "sint now < 2 ^ 62" and "2 ^ 63 \<le> sint now - sint iat" and "0 \<le> max_age"
  shows "check_freshness now max_age iat = None"
proof -
  have "sint (now - iat) = sint now - sint iat - 2 ^ 64"
    using assms by (intro sint_diff_wraps) auto
  moreover have "sint now - sint iat < 2 ^ 64"
    using assms sint_greater_eq [of iat] by simp
  moreover have "0 \<le> duration_secs max_age"
    using assms(4) by (simp add: duration_secs_def sgn_if second_def pos_imp_zdiv_nonneg_iff)
  ultimately show ?thesis
    using assms by (auto simp: check_freshness_None freshness_sum)
qed

theorem freshness_overflow_bypass_witness:
  "check_freshness 1000 (600 * second) (word_of_int (- (2 ^ 63))) = None"
proof -
  have "sint (word_of_int (- (2 ^ 63)) :: int64) = - (2 ^ 63)" by simp
  then show ?thesis by (intro freshness_overflow_bypass) (simp_all add: second_def)
qed

section \<open>Consequences for an accepted chain\<close>

definition accepts ::
  "prims \<Rightarrow> (string list \<Rightarrow> string list) \<Rightarrow> 'w deps \<Rightarrow> int64 \<Rightarrow> chain_bundle \<Rightarrow> 'w \<Rightarrow> bool" where
  "accepts pr sched d now b w =
     (case fst (chain pr sched d now b w) of None \<Rightarrow> False | Some res \<Rightarrow> Valid res)"

lemma acceptsE:
  assumes "accepts pr sched d now b w"
  obtains rs iv keys where "decode_bundle_receipts pr b = Some rs"
    "decode_jwt_payload (unmarshal_invocation pr) (Invocation b) = Some iv"
    "chain_spec pr d now keys b rs iv"
proof -
  have "\<exists>res w'. chain pr sched d now b w = (Some res, w') \<and> Valid res"
    using assms by (cases "chain pr sched d now b w") (auto simp: accepts_def split: option.splits)
  with that show ?thesis unfolding chain_valid_spec by blast
qed

section \<open>A worked example: a chain of two receipts\<close>

definition demo_jwt :: "string \<Rightarrow> string" where
  "demo_jwt payload = ''AA.'' @ payload @ ''.'' @ replicate 86 CHR ''A''"

definition demo_root :: delegation_receipt where
  "demo_root =
     \<lparr>dr_Iss = ''did:key:alice'', dr_Sub = ''did:key:alice'', dr_Aud = ''did:key:bob'',
      dr_DrsV = ''4.0'', dr_DrsType = ''delegation-receipt'', dr_Cmd = ''/files'',
      dr_Policy = demo_parent, dr_Nbf = 100, dr_Exp = Some 900, dr_Iat = 100,
      dr_Jti = ''dr:1'', dr_PrevDRHash = None,
      dr_DrsConsent = Some \<lparr>Method = ''m'', Timestamp = ''t'', SessionID = ''s'', PolicyHash = ''p'',
        Locale = ''en''\<rparr>,
      dr_DrsRootType = Some ''human'', dr_DrsRegulatory = None, dr_DrsStatusListIndex = Some 7,
      dr_CorrelationID = None, dr_Budget = None\<rparr>"

definition demo_leaf :: delegation_receipt where
  "demo_leaf = demo_root
     \<lparr>dr_Iss := ''did:key:bob'', dr_Aud := ''did:key:carol'', dr_Cmd := ''/files/read'',
      dr_Policy := demo_child, dr_Nbf := 200, dr_Exp := Some 800,
      dr_Jti := ''dr:2'', dr_PrevDRHash := Some ''sha256:01'',
      dr_DrsConsent := None, dr_DrsRootType := None, dr_DrsStatusListIndex := Some 8\<rparr>"

definition demo_invocation :: invocation_receipt where
  "demo_invocation =
     \<lparr>inv_Iss = ''did:key:carol'', inv_Sub = ''did:key:alice'', inv_DrsV = ''4.0'',
      inv_DrsType = ''invocation-receipt'', inv_Cmd = ''/files/read/x'', inv_Args = demo_args,
      inv_DrChain = [''sha256:01'', ''sha256:02''], inv_ToolServer = ''srv'',
      inv_Iat = 290, inv_Jti = ''inv:1'', inv_ResultHash = None, inv_PolicyEvaluation = None,
      inv_CorrelationID = None\<rparr>"

definition demo_bundle :: chain_bundle where
  "demo_bundle = \<lparr>BundleVersion = ''4.0'', Invocation = demo_jwt ''Aw'',
     Receipts = [demo_jwt ''AQ'', demo_jwt ''Ag'']\<rparr>"

definition demo_prims :: prims where
  "demo_prims =
     \<lparr>sha256 = (\<lambda>s. if s = demo_jwt ''AQ'' then [1] else if s = demo_jwt ''Ag'' then [2] else [3]),
      ed25519_verify = (\<lambda>key msg sig. key \<noteq> [] \<and> length sig = 64),
      unmarshal_alg = (\<lambda>_. Inr ''EdDSA''),
      unmarshal_receipt = (\<lambda>s. if s = bytes_of [1] then Some demo_root
                               else if s = bytes_of [2] then Some demo_leaf else None),
      unmarshal_invocation = (\<lambda>s. if s = bytes_of [3] then Some demo_invocation else None),
      is_print = (\<lambda>n. 32 \<le> n \<and> n < 127)\<rparr>"

definition demo_resolve :: "string \<Rightarrow> 'w \<Rightarrow> resolve_outcome \<times> 'w" where
  "demo_resolve did w = (Resolved [1], w)"

definition demo_deps :: "'w deps" where
  "demo_deps =
     \<lparr>Resolve = demo_resolve, Revocation = None,
      LocalRevoked = None, StoreOps = None, ServerIdentity = ''srv'',
      IncludeTimestamps = False, VerifyTimestamp = (\<lambda>_ _. Inl ''no token''),
      MaxInvocationAge = 60 * second\<rparr>"

lemma demo_payloads:
  "split_n CHR ''.'' 4 (demo_jwt ''AQ'') = [''AA'', ''AQ'', replicate 86 CHR ''A'']"
  "split_n CHR ''.'' 4 (demo_jwt ''Ag'') = [''AA'', ''Ag'', replicate 86 CHR ''A'']"
  "split_n CHR ''.'' 4 (demo_jwt ''Aw'') = [''AA'', ''Aw'', replicate 86 CHR ''A'']"
  "raw_url_decode ''AA'' = Some (bytes_of [0])"
  "raw_url_decode ''AQ'' = Some (bytes_of [1])"
  "raw_url_decode ''Ag'' = Some (bytes_of [2])"
  "raw_url_decode ''Aw'' = Some (bytes_of [3])"
  "raw_url_decode (replicate 86 CHR ''A'') = Some (bytes_of (replicate 64 0))"
  "strict_verify_ed25519 (bytes_of (replicate 64 0)) = None"
  by code_simp+

lemma demo_bytes: "bytes_of [1] \<noteq> bytes_of [2]" "length (bytes_of (replicate 64 0)) = 64"
  by code_simp+

lemma demo_decoded:
  "decode_bundle_receipts demo_prims demo_bundle = Some [demo_root, demo_leaf]"
  "decode_jwt_payload (unmarshal_invocation demo_prims) (Invocation demo_bundle) = Some demo_invocation"
  using demo_bytes
  by (simp_all add: decode_bundle_receipts_def decode_jwt_payload_def demo_bundle_def demo_payloads
      demo_prims_def)

lemma demo_hashes:
  "compute_chain_hash demo_prims (demo_jwt ''AQ'') = ''sha256:01''"
  "compute_chain_hash demo_prims (demo_jwt ''Ag'') = ''sha256:02''"
  by (simp_all add: compute_chain_hash_def demo_prims_def demo_jwt_def hex_encode_def hex_digit_def
      char_of_def bit_Suc_0_iff)

lemmas demo_receipts = demo_root_def demo_leaf_def demo_invocation_def open_policy_def

lemma demo_consent: "check_root demo_root = None"
  by (simp add: check_root_def demo_receipts validate_consent_record_def trim_space_visible visible_def)

lemma demo_block_a: "block_a demo_bundle = None"
  by (simp add: block_a_None demo_bundle_def demo_jwt_def)

lemma demo_block_b:
  "block_b demo_prims (Receipts demo_bundle) [demo_root, demo_leaf] demo_invocation = None"
  using demo_consent
  by (simp add: block_b_def demo_bundle_def demo_hashes)
    (simp add: demo_receipts check_type_version_def expected_defs check_hash_link_def demo_hashes
      check_issuer_link_def check_dr_chain_def guard_err_def)

lemma demo_signature:
  "p \<in> {''AQ'', ''Ag'', ''Aw''} \<Longrightarrow> keys i = Some [1] \<Longrightarrow> signature_valid demo_prims keys (demo_jwt p) i"
  using demo_bytes
  by (auto simp: signature_valid_def decode_jwt_header_def demo_payloads demo_prims_def)

definition demo_keys :: "string \<rightharpoonup> byte list" where
  "demo_keys = [''did:key:alice'' \<mapsto> [1], ''did:key:bob'' \<mapsto> [1], ''did:key:carol'' \<mapsto> [1]]"

lemma demo_resolved:
  "resolve_issuers_parallel id demo_resolve (issuer_dids [demo_root, demo_leaf] demo_invocation) w
     = (Some (Inr demo_keys), w)"
  by (simp add: resolve_issuers_parallel_def issuer_dids_def demo_receipts demo_resolve_def demo_keys_def)

lemma demo_block_d: "block_d ''srv'' [demo_root, demo_leaf] demo_invocation = None"
  by code_simp

lemma demo_block_e:
  "290 \<le> sint now \<Longrightarrow> sint now \<le> 350 \<Longrightarrow>
    block_e now (60 * second) [demo_root, demo_leaf] demo_invocation = None"
  by (simp add: block_e_None times_ok_def check_freshness_None sint_diff_exact freshness_sum
      demo_receipts duration_secs_def second_def)

lemma demo_cde:
  assumes "290 \<le> sint now" "sint now \<le> 350"
    and "ServerIdentity d = ''srv''" "MaxInvocationAge d = 60 * second"
  shows "blocks_cde demo_prims d now demo_keys demo_bundle [demo_root, demo_leaf] demo_invocation = None"
proof -
  have "signature_valid demo_prims demo_keys (demo_jwt p) i"
    if "p \<in> {''AQ'', ''Ag'', ''Aw''}" "i \<in> {dr_Iss demo_root, dr_Iss demo_leaf, inv_Iss demo_invocation}" for p i
    using that by (intro demo_signature) (auto simp: demo_keys_def demo_receipts)
  then show ?thesis
    using assms demo_block_d demo_block_e [of now]
    by (auto simp: blocks_cde_def verify_signatures_None demo_bundle_def less_Suc_eq)
qed

text \<open>With the example's resolver, identity and age, only revocation is left to decide.\<close>

lemma demo_chain:
  assumes "290 \<le> sint now" "sint now \<le> 350"
    and "Resolve d = demo_resolve" "ServerIdentity d = ''srv''" "MaxInvocationAge d = 60 * second"
  shows "chain demo_prims id d now demo_bundle w =
    (case block_f d [demo_root, demo_leaf] w of
       (Some code, w2) \<Rightarrow> (Some (invalid_result code), w2)
     | (None, w2) \<Rightarrow>
         let (res, w3) = finish_chain demo_prims d (Receipts demo_bundle) [demo_root, demo_leaf] w2
         in (Some res, w3))"
  using assms
  by (simp add: chain_def demo_block_a demo_decoded)
    (simp add: chain_decoded_def demo_block_b demo_resolved demo_cde)

lemma chain_version: "chain pr sched d now (b\<lparr>BundleVersion := v\<rparr>) w = chain pr sched d now b w"
  by (simp add: chain_def chain_decoded_def block_a_def decode_bundle_receipts_def blocks_cde_def
      split: option.split sum.split prod.split)

lemma demo_accepted:
  "290 \<le> sint now \<Longrightarrow> sint now \<le> 350 \<Longrightarrow> accepts demo_prims id demo_deps now demo_bundle w"
  by (simp add: accepts_def demo_chain demo_deps_def block_f_def split_beta Let_def finish_chain_valid)

section \<open>What acceptance implies\<close>

lemma compute_chain_hash_inj:
  "inj_on (sha256 pr) A \<Longrightarrow> inj_on (compute_chain_hash pr) A"
  by (auto simp: inj_on_def compute_chain_hash_def hex_encode_inj)

definition authority_le :: "delegation_receipt \<Rightarrow> delegation_receipt \<Rightarrow> bool" where
  "authority_le p c =
     (cmd_is_subpath (dr_Cmd p) (dr_Cmd c) \<and> sint (dr_Nbf p) \<le> sint (dr_Nbf c) \<and>
      (\<forall>pe. dr_Exp p = Some pe \<longrightarrow> (\<exists>ce. dr_Exp c = Some ce \<and> sint ce \<le> sint pe)) \<and>
      (\<forall>l. MaxCalls (dr_Policy p) = Some l \<longrightarrow> (\<exists>m. MaxCalls (dr_Policy c) = Some m \<and> m \<le> l)) \<and>
      list_narrows (AllowedTools (dr_Policy p)) (AllowedTools (dr_Policy c)) \<and>
      list_narrows (AllowedResources (dr_Policy p)) (AllowedResources (dr_Policy c)) \<and>
      list_narrows (AllowedDataClasses (dr_Policy p)) (AllowedDataClasses (dr_Policy c)))"

lemma narrows_authority: "narrows p c \<Longrightarrow> authority_le p c"
  by (auto simp: narrows_def authority_le_def check_attenuation_None)

lemma authority_le_refl: "reflp authority_le"
  by (auto simp: reflp_def authority_le_def list_narrows_def)

lemma authority_le_trans: "transp authority_le"
proof (rule transpI)
  fix x y z assume xy: "authority_le x y" and yz: "authority_le y z"
  have "\<exists>ce. dr_Exp z = Some ce \<and> sint ce \<le> sint pe" if "dr_Exp x = Some pe" for pe
  proof -
    from that xy obtain ye where "dr_Exp y = Some ye" "sint ye \<le> sint pe" by (auto simp: authority_le_def)
    with yz show ?thesis by (auto simp: authority_le_def)
  qed
  moreover have "\<exists>m. MaxCalls (dr_Policy z) = Some m \<and> m \<le> l"
    if "MaxCalls (dr_Policy x) = Some l" for l
  proof -
    from that xy obtain k where "MaxCalls (dr_Policy y) = Some k" "k \<le> l" by (auto simp: authority_le_def)
    with yz show ?thesis by (auto simp: authority_le_def)
  qed
  moreover have "cmd_is_subpath (dr_Cmd x) (dr_Cmd z)"
    using xy yz by (auto simp: authority_le_def intro: cmd_is_subpath_trans)
  moreover have "list_narrows (f (dr_Policy x)) (f (dr_Policy z))"
    if "list_narrows (f (dr_Policy x)) (f (dr_Policy y))" "list_narrows (f (dr_Policy y)) (f (dr_Policy z))"
    for f :: "policy \<Rightarrow> string list"
    using that by (rule list_narrows_trans)
  ultimately show "authority_le x z"
    using xy yz by (simp add: authority_le_def)
qed

lemma chain_spec_sorted:
  assumes "chain_spec pr d now keys b rs iv"
  shows "sorted_wrt authority_le rs"
proof -
  have "successively authority_le rs"
    using assms by (auto simp: chain_spec_def semantics_ok_def successively_conv_nth
        intro: narrows_authority)
  then show ?thesis by (simp add: successively_conv_sorted_wrt [OF authority_le_trans])
qed

lemma chain_spec_cmd:
  assumes "chain_spec pr d now keys b rs iv" and "r \<in> set rs"
  shows "cmd_is_subpath (dr_Cmd r) (inv_Cmd iv)"
proof -
  have "cmd_is_subpath (dr_Cmd r) (dr_Cmd (last rs))"
    using sorted_wrt_last [OF chain_spec_sorted [OF assms(1)] authority_le_refl assms(2)]
    by (simp add: authority_le_def)
  then show ?thesis using assms(1)
    by (auto simp: chain_spec_def semantics_ok_def intro: cmd_is_subpath_trans)
qed

text \<open>
  The cost limit and the two denials. \<open>CheckAttenuation\<close> compares them from one receipt to the
  next; a flag that the child leaves out passes (\<open>attenuation_flag_gap\<close>), so that only the
  comparison between neighbours holds in general.
\<close>

definition cost_le :: "delegation_receipt \<Rightarrow> delegation_receipt \<Rightarrow> bool" where
  "cost_le p c =
     (\<forall>l. MaxCostUSD (dr_Policy p) = Some l \<longrightarrow>
        (\<exists>m. MaxCostUSD (dr_Policy c) = Some m \<and> \<not> f64_less l m))"

definition denial_kept :: "(policy \<Rightarrow> bool option) \<Rightarrow> delegation_receipt \<Rightarrow> delegation_receipt \<Rightarrow> bool" where
  "denial_kept flag p c = (flag (dr_Policy p) = Some False \<longrightarrow> flag (dr_Policy c) = Some False)"

definition limits_le :: "delegation_receipt \<Rightarrow> delegation_receipt \<Rightarrow> bool" where
  "limits_le p c =
     (cost_le p c \<and>
      (\<forall>flag \<in> {PIIAccess, WriteAccess}. flag (dr_Policy c) \<noteq> None \<longrightarrow> denial_kept flag p c))"

lemma narrows_limits: "narrows p c \<Longrightarrow> limits_le p c"
  by (auto simp: narrows_def limits_le_def cost_le_def denial_kept_def check_attenuation_None)

text \<open>Steps that are transitive at the elements of a list order the whole list.\<close>

lemma successively_sorted_on:
  assumes "successively R xs" and "\<forall>x \<in> set xs. P x"
    and "\<And>x y z. P y \<Longrightarrow> R x y \<Longrightarrow> R y z \<Longrightarrow> R x z"
  shows "sorted_wrt R xs"
proof -
  have "transp (\<lambda>x y. P x \<and> P y \<and> R x y)" using assms(3) by (blast intro: transpI)
  moreover have "successively (\<lambda>x y. P x \<and> P y \<and> R x y) xs"
    using assms(1,2) by (induction xs rule: induct_list012) auto
  ultimately have "sorted_wrt (\<lambda>x y. P x \<and> P y \<and> R x y) xs" by (simp add: successively_conv_sorted_wrt)
  then show ?thesis by (rule sorted_wrt_mono_rel [rotated]) simp
qed

lemma chain_spec_limits:
  assumes "chain_spec pr d now keys b rs iv"
  shows "successively limits_le rs"
    and "\<forall>r \<in> set rs. MaxCostUSD (dr_Policy r) \<noteq> Some NaN \<Longrightarrow> sorted_wrt cost_le rs"
    and "flag \<in> {PIIAccess, WriteAccess} \<Longrightarrow> \<forall>r \<in> set rs. flag (dr_Policy r) \<noteq> None \<Longrightarrow> sorted_wrt (denial_kept flag) rs"
proof -
  show link: "successively limits_le rs"
    using assms by (auto simp: chain_spec_def semantics_ok_def successively_conv_nth intro: narrows_limits)
  show "sorted_wrt cost_le rs" if "\<forall>r \<in> set rs. MaxCostUSD (dr_Policy r) \<noteq> Some NaN"
  proof (rule successively_sorted_on [OF _ that])
    show "successively cost_le rs" using link by (rule successively_mono) (simp add: limits_le_def)
  qed (fastforce simp: cost_le_def dest: f64_not_greater_trans)
  show "sorted_wrt (denial_kept flag) rs"
    if flag: "flag \<in> {PIIAccess, WriteAccess}" and all: "\<forall>r \<in> set rs. flag (dr_Policy r) \<noteq> None"
  proof (rule successively_sorted_on [where P = "\<lambda>_. True"])
    from link all flag show "successively (denial_kept flag) rs"
      by (induction rs rule: induct_list012) (auto simp: limits_le_def)
  qed (auto simp: denial_kept_def)
qed

lemma evaluate_denied:
  assumes "evaluate pol as = None"
  shows "PIIAccess pol = Some False \<Longrightarrow> as ''pii_access'' = Some (GBool False)"
    and "WriteAccess pol = Some False \<Longrightarrow> as ''write_access'' = Some (GBool False)"
  using assms by (simp_all add: evaluate_None flag_ok_def)

text \<open>
  C7. What every accepted chain guarantees about authority. Between any two receipts, not merely
  between neighbours, the later one has a command path below, a validity window inside, a call
  limit at most, and tool, resource and data class lists within those of the earlier one; and a
  cost limit at most, as long as no limit in the chain is NaN, which JSON cannot express. From one
  receipt to the next, a cost limit stays and a denied \<^verbatim>\<open>pii_access\<close> or \<^verbatim>\<open>write_access\<close> is not granted
  again; over the whole chain a denial persists if every receipt states the flag (a receipt that
  omits it interrupts this, and a later one may then grant it). Whatever is stated where, the
  invocation's command lies below the command of every receipt, its arguments satisfy every
  policy, so that a flag denied anywhere is the argument false, and the clock is inside every window.
\<close>

theorem accepted_authority_narrows:
  assumes "accepts pr sched d now b w"
    and "decode_bundle_receipts pr b = Some rs"
    and "decode_jwt_payload (unmarshal_invocation pr) (Invocation b) = Some iv"
  shows "sorted_wrt authority_le rs \<and> successively limits_le rs \<and>
    ((\<forall>r \<in> set rs. MaxCostUSD (dr_Policy r) \<noteq> Some NaN) \<longrightarrow> sorted_wrt cost_le rs) \<and>
    (\<forall>flag \<in> {PIIAccess, WriteAccess}. (\<forall>r \<in> set rs. flag (dr_Policy r) \<noteq> None) \<longrightarrow>
       sorted_wrt (denial_kept flag) rs) \<and>
    (\<forall>r \<in> set rs. cmd_is_subpath (dr_Cmd r) (inv_Cmd iv) \<and> dr_Sub r = inv_Sub iv \<and>
       evaluate (dr_Policy r) (inv_Args iv) = None \<and>
       (PIIAccess (dr_Policy r) = Some False \<longrightarrow> inv_Args iv ''pii_access'' = Some (GBool False)) \<and>
       (WriteAccess (dr_Policy r) = Some False \<longrightarrow> inv_Args iv ''write_access'' = Some (GBool False)) \<and>
       sint (dr_Nbf r) \<le> sint now \<and> (\<forall>e. dr_Exp r = Some e \<longrightarrow> sint now \<le> sint e))"
proof -
  from assms obtain keys where spec: "chain_spec pr d now keys b rs iv"
    by (auto elim: acceptsE)
  then have each: "\<forall>r \<in> set rs. cmd_is_subpath (dr_Cmd r) (inv_Cmd iv) \<and> dr_Sub r = inv_Sub iv \<and>
      evaluate (dr_Policy r) (inv_Args iv) = None \<and> sint (dr_Nbf r) \<le> sint now \<and>
      (\<forall>e. dr_Exp r = Some e \<longrightarrow> sint now \<le> sint e)"
    using chain_spec_cmd [OF spec] by (auto simp: chain_spec_def semantics_ok_def times_ok_def)
  show ?thesis
  proof (intro conjI)
    show "sorted_wrt authority_le rs" by (rule chain_spec_sorted [OF spec])
    show "successively limits_le rs" by (rule chain_spec_limits [OF spec])
    show "\<forall>flag \<in> {PIIAccess, WriteAccess}. (\<forall>r \<in> set rs. flag (dr_Policy r) \<noteq> None) \<longrightarrow>
        sorted_wrt (denial_kept flag) rs"
      by (intro ballI impI) (rule chain_spec_limits(3) [OF spec])
  qed (use chain_spec_limits(2) [OF spec] each in \<open>auto dest: evaluate_denied\<close>)
qed

theorem accepted_authority_narrows_witness:
  "authority_le demo_root demo_leaf \<and> cost_le demo_root demo_leaf \<and>
   denial_kept PIIAccess demo_root demo_leaf \<and> MaxCostUSD (dr_Policy demo_root) = Some (Finite 10) \<and>
   cmd_is_subpath (dr_Cmd demo_root) (inv_Cmd demo_invocation) \<and>
   PIIAccess (dr_Policy demo_root) = Some False \<and> inv_Args demo_invocation ''pii_access'' = Some (GBool False)"
proof -
  note narrows = accepted_authority_narrows [OF demo_accepted [of 300 "()"] demo_decoded]
  have stated: "MaxCostUSD (dr_Policy demo_root) = Some (Finite 10)" "MaxCostUSD (dr_Policy demo_leaf) = Some (Finite 3)"
      "PIIAccess (dr_Policy demo_root) = Some False" "PIIAccess (dr_Policy demo_leaf) = Some False"
    by (simp_all add: demo_receipts demo_defs)
  with narrows have "denial_kept PIIAccess demo_root demo_leaf" by (auto simp: denial_kept_def)
  with narrows stated show ?thesis by simp
qed

text \<open>
  C10. An invocation authorises exactly one chain: as long as SHA-256 does not collide on the
  receipts involved, two accepted bundles with the same invocation carry the same receipts in
  the same order, whatever verifier, clock or state accepted them. Receipts cannot be
  reordered, dropped, spliced in or re-encoded behind a signed invocation.
\<close>

theorem invocation_binds_chain:
  assumes "accepts pr sched d now b w" and "accepts pr sched' d' now' b' w'"
    and "Invocation b = Invocation b'"
    and "inj_on (sha256 pr) (set (Receipts b) \<union> set (Receipts b'))"
  shows "Receipts b = Receipts b'"
proof -
  from assms(1) obtain rs iv keys where 1:
      "decode_jwt_payload (unmarshal_invocation pr) (Invocation b) = Some iv"
      "chain_spec pr d now keys b rs iv"
    by (rule acceptsE)
  from assms(2) obtain rs' iv' keys' where 2:
      "decode_jwt_payload (unmarshal_invocation pr) (Invocation b') = Some iv'"
      "chain_spec pr d' now' keys' b' rs' iv'"
    by (rule acceptsE)
  have "map (compute_chain_hash pr) (Receipts b) = map (compute_chain_hash pr) (Receipts b')"
    using 1 2 assms(3) by (simp add: chain_spec_def linked_chain_def)
  then show ?thesis
    using compute_chain_hash_inj [OF assms(4)] by (simp add: inj_on_map_eq_map)
qed

theorem invocation_binds_chain_witness:
  "Receipts demo_bundle = Receipts (demo_bundle\<lparr>BundleVersion := ''4''\<rparr>)"
proof (rule invocation_binds_chain)
  show "accepts demo_prims id demo_deps 300 demo_bundle ()" by (simp add: demo_accepted)
  show "accepts demo_prims id demo_deps 310 (demo_bundle\<lparr>BundleVersion := ''4''\<rparr>) ()"
    using demo_accepted [of 310 "()"] by (simp add: accepts_def chain_version)
  show "inj_on (sha256 demo_prims)
      (set (Receipts demo_bundle) \<union> set (Receipts (demo_bundle\<lparr>BundleVersion := ''4''\<rparr>)))"
    by (simp add: demo_bundle_def demo_prims_def demo_jwt_def)
qed simp

text \<open>
  A rejected bundle never reaches the receipt store: the result and the final state are
  those of a verifier without a store.
\<close>

theorem rejected_not_stored:
  assumes "chain pr sched d now b w = (Some res, w')" and "\<not> Valid res"
  shows "chain pr sched (d\<lparr>StoreOps := None\<rparr>) now b w = (Some res, w')"
proof -
  have f: "block_f (d\<lparr>StoreOps := None\<rparr>) rs w1 = block_f d rs w1" for rs w1
    by (simp add: block_f_def split: prod.split option.split)
  have c: "blocks_cde pr (d\<lparr>StoreOps := None\<rparr>) now keys b rs iv = blocks_cde pr d now keys b rs iv"
    for keys rs iv by (simp add: blocks_cde_def)
  have "chain_decoded pr sched (d\<lparr>StoreOps := None\<rparr>) now b rs iv w = (Some res, w')"
    if "chain_decoded pr sched d now b rs iv w = (Some res, w')" for rs iv
    using that assms(2) finish_chain_valid [of pr d "Receipts b" rs]
    by (auto simp: chain_decoded_def f c Let_def split_beta split: option.splits sum.splits prod.splits)
  with assms(1) show ?thesis by (auto simp: chain_def split: option.splits)
qed

theorem rejected_not_stored_witness:
  "chain demo_prims id
     ((demo_deps\<lparr>LocalRevoked := Some (\<lambda>i _. i = 8),
        StoreOps := Some (\<lambda>h jwt n. (None, n + 1), \<lambda>h n. (Inl ''absent'', n))\<rparr>)\<lparr>StoreOps := None\<rparr>)
     300 demo_bundle (0 :: nat) = (Some (invalid_result REVOKED), 0)"
  by (rule rejected_not_stored)
    (simp_all add: demo_chain demo_deps_def block_f_def local_revocation_def demo_receipts guard_err_def)

text \<open>
  The verifier always answers: as long as resolution does not panic, \<^verbatim>\<open>Chain\<close> returns a
  result for every bundle, with an error code exactly when the result is not valid.
\<close>

theorem chain_total:
  assumes "\<And>did w. fst (Resolve d did w) \<noteq> ResolvePanic"
  shows "\<exists>res. fst (chain pr sched d now b w) = Some res \<and> (Valid res \<longleftrightarrow> Error res = None)"
proof -
  have each: "ResolvePanic \<notin> snd ` set (fst (resolve_each (Resolve d) ds w))" for ds w
  proof (induction ds arbitrary: w)
    case (Cons x ds)
    with assms [of x w] show ?case by (auto simp: split_beta Let_def)
  qed simp
  have res: "fst (resolve_issuers_parallel sched (Resolve d) dids w) \<noteq> None" for dids
    using each [of "sched (dedup [] dids)" w]
    by (auto simp: resolve_issuers_parallel_def split_beta Let_def)
  have "Error (fst (finish_chain pr d (Receipts b) rs w2)) = None" for rs w2
    by (simp add: finish_chain_def split_beta Let_def valid_result_def)
  then have "\<exists>r. fst (chain_decoded pr sched d now b rs iv w) = Some r \<and> (Valid r \<longleftrightarrow> Error r = None)"
    for rs iv
    using res [of "issuer_dids rs iv"] finish_chain_valid [of pr d "Receipts b" rs]
    by (auto simp: chain_decoded_def split_beta Let_def split: option.splits sum.splits prod.splits)
  then show ?thesis by (auto simp: chain_def split: option.splits)
qed

theorem chain_total_witness:
  "\<exists>res. fst (chain demo_prims id demo_deps 300 demo_bundle ()) = Some res \<and> (Valid res \<longleftrightarrow> Error res = None)"
  by (rule chain_total) (simp add: demo_deps_def demo_resolve_def)

section \<open>Parallel resolution\<close>

fun resolved_key :: "resolve_outcome \<Rightarrow> byte list option" where
  "resolved_key (Resolved k) = Some k"
| "resolved_key _ = None"

lemma set_dedup: "set (dedup seen ds) = set ds - set seen"
  by (induction seen ds rule: dedup.induct) auto

lemma resolve_each_pure:
  "\<forall>d w. fst (res d w) = f d \<Longrightarrow> fst (resolve_each res ds w) = map (\<lambda>d. (d, f d)) ds"
  by (induction ds arbitrary: w) (auto simp: split_beta Let_def)

lemma drain_results_pure:
  "drain_results (map (\<lambda>d. (d, f d)) ds) keys = Inr keys' \<longleftrightarrow>
     (\<forall>d \<in> set ds. resolved_key (f d) \<noteq> None) \<and>
     keys' = (\<lambda>d. if d \<in> set ds then resolved_key (f d) else keys d)"
proof (induction ds arbitrary: keys)
  case (Cons x ds)
  show ?case
    by (cases "f x") (auto simp: Cons fun_eq_iff)
qed auto

text \<open>
  Draining the results by itself does not depend on the order in which the resolver goroutines run
  and report (what this means on the real resolver is in \<open>DRS_Trust\<close>): if every DID has one outcome, then whatever the scheduler does, resolution succeeds exactly when
  every issuer resolves, with exactly the issuers' keys, and crashes exactly when one of them
  panics.
\<close>

theorem parallel_resolution:
  assumes "\<And>d w. fst (res d w) = f d" and "\<And>ds. set (sched ds) = set ds"
  shows "(fst (resolve_issuers_parallel sched res dids w) = None \<longleftrightarrow> ResolvePanic \<in> f ` set dids) \<and>
    (fst (resolve_issuers_parallel sched res dids w) = Some (Inr keys) \<longleftrightarrow>
       (\<forall>d \<in> set dids. resolved_key (f d) \<noteq> None) \<and>
       keys = (\<lambda>d. if d \<in> set dids then resolved_key (f d) else None))"
proof -
  have "fst (resolve_each res (sched (dedup [] dids)) w) = map (\<lambda>d. (d, f d)) (sched (dedup [] dids))"
    using assms(1) by (simp add: resolve_each_pure)
  moreover have "set (sched (dedup [] dids)) = set dids"
    using assms(2) by (simp add: set_dedup)
  moreover have "ResolvePanic \<notin> f ` set dids" if "\<forall>d \<in> set dids. resolved_key (f d) \<noteq> None"
    using that by (metis imageE resolved_key.simps(3))
  ultimately show ?thesis
    by (auto simp: resolve_issuers_parallel_def split_beta Let_def drain_results_pure image_image)
qed

theorem parallel_resolution_witness:
  "fst (resolve_issuers_parallel rev demo_resolve [''a'', ''b'', ''a''] ()) =
     Some (Inr (\<lambda>d. if d \<in> {''a'', ''b''} then Some [1] else None))"
  using parallel_resolution [of demo_resolve "\<lambda>_. Resolved [1]" rev "[''a'', ''b'', ''a'']" "()"]
  by (simp add: demo_resolve_def insert_commute cong: if_cong)

end
