(* ===== verification/DRS_Middleware.thy ===== *)
theory DRS_Middleware
  imports DRS_Http DRS_Nonce DRS_Verify
begin

text \<open>
  \<^verbatim>\<open>pkg/binding/binding.go\<close> and, of \<^verbatim>\<open>pkg/middleware\<close>, the files \<^verbatim>\<open>decode.go\<close>, \<^verbatim>\<open>binding.go\<close>,
  \<^verbatim>\<open>mcp.go\<close> and \<^verbatim>\<open>a2a.go\<close>: the admission of a request to a protected handler. JSON and the
  RFC 8785 canonicalisation are the record \<open>json_ops\<close>; the operations of \<^verbatim>\<open>Deps\<close> thread the
  state \<open>'w\<close> and the nonce checker the state \<open>'n\<close>. Log lines are not modelled, metrics in \<open>DRS_Metrics\<close>.
\<close>

section \<open>Parameters\<close>

record json_ops =
  unmarshal_bundle :: "string \<Rightarrow> chain_bundle option"
  unmarshal_jti :: "string \<Rightarrow> string option"
  unmarshal_args :: "string \<Rightarrow> gval option"
  json_marshal :: "gval \<Rightarrow> string option"
  jcs_transform :: "string \<Rightarrow> string option"

section \<open>Binding of the body to the signed arguments\<close>

fun is_empty_args :: "gval \<Rightarrow> bool" where
  "is_empty_args GNil = True"
| "is_empty_args (GMap m) = (m = [])"
| "is_empty_args (GSlice xs) = (xs = [])"
| "is_empty_args _ = False"

datatype binding_error =
    BodyEmpty | BodyNotJSON | ArgsNotMarshalled | ArgsNotCanonical | BodyDiffers

definition binding_check :: "json_ops \<Rightarrow> string \<Rightarrow> gval \<Rightarrow> binding_error option" where
  "binding_check js body a =
     (let body_empty = (length (trim_space body) = 0); args_empty = is_empty_args a
      in if body_empty \<and> args_empty then None
         else if body_empty then Some BodyEmpty
         else case jcs_transform js body of
                None \<Rightarrow> Some BodyNotJSON
              | Some canonical_body \<Rightarrow>
                  (case json_marshal js a of
                     None \<Rightarrow> Some ArgsNotMarshalled
                   | Some args_json \<Rightarrow>
                       (case jcs_transform js args_json of
                          None \<Rightarrow> Some ArgsNotCanonical
                        | Some canonical_args \<Rightarrow>
                            if canonical_body \<noteq> canonical_args then Some BodyDiffers else None)))"

section \<open>Decoding the invocation and the header\<close>

definition decode_invocation_jti :: "json_ops \<Rightarrow> string \<Rightarrow> string option" where
  "decode_invocation_jti js jwt =
     (case split_n CHR ''.'' 4 jwt of
        [_, payload, _] \<Rightarrow>
          (case raw_url_decode payload of None \<Rightarrow> None | Some bytes \<Rightarrow> unmarshal_jti js bytes)
      | _ \<Rightarrow> None)"

definition decode_invocation_args :: "json_ops \<Rightarrow> string \<Rightarrow> gval option" where
  "decode_invocation_args js jwt =
     (case split_n CHR ''.'' 4 jwt of
        [_, payload, _] \<Rightarrow>
          (case raw_url_decode payload of None \<Rightarrow> None | Some bytes \<Rightarrow> unmarshal_args js bytes)
      | _ \<Rightarrow> None)"

definition maxBundleHeaderBytes :: nat where
  "maxBundleHeaderBytes = 87381"

definition decode_bundle :: "json_ops \<Rightarrow> string \<Rightarrow> chain_bundle option" where
  "decode_bundle js encoded =
     (if maxBundleHeaderBytes < length encoded then None
      else case raw_url_decode encoded of
             None \<Rightarrow> None
           | Some bytes \<Rightarrow> unmarshal_bundle js bytes)"

section \<open>Replay protection\<close>

text \<open>\<open>CheckNonceReplay\<close>: a response means that the request is aborted with it.\<close>

definition check_nonce_replay ::
  "json_ops \<Rightarrow> string \<Rightarrow> (string \<Rightarrow> 'n \<Rightarrow> nonce_error option \<times> 'n) option \<Rightarrow> 'n \<Rightarrow> response option \<times> 'n" where
  "check_nonce_replay js invocation ns n =
     (case ns of
        None \<Rightarrow> (Some (503, ErrorText ''NONCE_REPLAY_PROTECTION_UNAVAILABLE''), n)
      | Some check \<Rightarrow>
          (case decode_invocation_jti js invocation of
             None \<Rightarrow> (Some (400, ErrorText ''cannot decode invocation JTI''), n)
           | Some jti \<Rightarrow>
               if jti = ''''
               then (Some (400, ErrorText ''invocation must include a jti for replay protection''), n)
               else (case check jti n of
                       (Some ErrReplayDetected, n') \<Rightarrow> (Some (409, ErrorText ''REPLAY_DETECTED''), n')
                     | (Some _, n') \<Rightarrow> (Some (503, ErrorText ''NONCE_STORE_EXHAUSTED''), n')
                     | (None, n') \<Rightarrow> (None, n'))))"

section \<open>The binding check on a request\<close>

definition BindingModeOff :: string where
  "BindingModeOff = ''off''"

definition BindingModeLenient :: string where
  "BindingModeLenient = ''lenient''"

definition BindingModeEnforced :: string where
  "BindingModeEnforced = ''enforced''"

definition maxBindingBodyBytes :: int where
  "maxBindingBodyBytes = 65536"

text \<open>\<open>checkRequestBinding\<close>: the abort response, or the request with the body restored.\<close>

definition check_request_binding ::
  "json_ops \<Rightarrow> request \<Rightarrow> string \<Rightarrow> string \<Rightarrow> response + request" where
  "check_request_binding js r invocation mode =
     (if mode = BindingModeOff then Inr r
      else case read_all (max_bytes_reader maxBindingBodyBytes (rq_body r)) of
             Inl TooLarge \<Rightarrow> Inl (413, ErrorText ''BINDING_BODY_TOO_LARGE'')
           | Inl _ \<Rightarrow> Inl (400, ErrorText ''BINDING_BODY_READ_ERROR'')
           | Inr body \<Rightarrow>
               let r' = r\<lparr>rq_body := (body, AtEOF)\<rparr> in
               (case decode_invocation_args js invocation of
                  None \<Rightarrow> if mode = BindingModeEnforced
                          then Inl (400, ErrorText ''BINDING_INVALID_INVOCATION'') else Inr r'
                | Some a \<Rightarrow>
                    (case binding_check js body a of
                       Some _ \<Rightarrow> if mode = BindingModeEnforced
                                  then Inl (403, ErrorText ''BINDING_MISMATCH'') else Inr r'
                     | None \<Rightarrow> Inr r')))"

section \<open>The middleware\<close>

definition missing_bundle :: string where
  "missing_bundle = ''Missing X-DRS-Bundle header: DRS verification is required on this route.''"

text \<open>
  \<open>mcpMiddleware\<close> and \<open>a2aMiddleware\<close>, each as its file writes it. \<open>now\<close> is the clock reading of
  the verification and \<open>nxt\<close> the protected handler.
\<close>

definition mcp_middleware_inner ::
  "prims \<Rightarrow> json_ops \<Rightarrow> (string list \<Rightarrow> string list) \<Rightarrow> int64 \<Rightarrow> 'w deps \<Rightarrow>
   (string \<Rightarrow> 'n \<Rightarrow> nonce_error option \<times> 'n) option \<Rightarrow> string \<Rightarrow> ('w \<times> 'n) handler \<Rightarrow> bool \<Rightarrow>
   ('w \<times> 'n) handler" where
  "mcp_middleware_inner pr js sched now d ns mode nxt allow_missing r s =
     (if 1 < length (header_values ''X-DRS-Bundle'' r)
      then (Some (400, ErrorText ''multiple X-DRS-Bundle headers are not allowed''), s)
      else let bundle_header = header_get ''X-DRS-Bundle'' r in
      if bundle_header = ''''
      then if allow_missing then nxt r s else (Some (401, ErrorText missing_bundle), s)
      else case decode_bundle js bundle_header of
             None \<Rightarrow> (Some (400, ErrorText ''X-DRS-Bundle header is not valid base64url JSON''), s)
           | Some bundle \<Rightarrow>
               (case chain pr sched d now bundle (fst s) of
                  (None, w) \<Rightarrow> (None, (w, snd s))
                | (Some result, w) \<Rightarrow>
                    if \<not> Valid result then (Some (403, VerifyBody result), (w, snd s))
                    else (case check_nonce_replay js (Invocation bundle) ns (snd s) of
                            (Some resp, n) \<Rightarrow> (Some resp, (w, n))
                          | (None, n) \<Rightarrow>
                              (case check_request_binding js r (Invocation bundle) mode of
                                 Inl resp \<Rightarrow> (Some resp, (w, n))
                               | Inr r' \<Rightarrow> nxt (r'\<lparr>rq_context := Context result\<rparr>) (w, n)))))"

definition mcp_middleware where
  "mcp_middleware pr js sched now d ns mode nxt = mcp_middleware_inner pr js sched now d ns mode nxt False"

definition optional_mcp_middleware where
  "optional_mcp_middleware pr js sched now d ns mode nxt =
     mcp_middleware_inner pr js sched now d ns mode nxt True"

definition get_verification_context :: "request \<Rightarrow> verification_context option" where
  "get_verification_context r = rq_context r"

definition with_verification_context :: "request \<Rightarrow> verification_context option \<Rightarrow> request" where
  "with_verification_context r vc = r\<lparr>rq_context := vc\<rparr>"

definition a2a_middleware_inner ::
  "prims \<Rightarrow> json_ops \<Rightarrow> (string list \<Rightarrow> string list) \<Rightarrow> int64 \<Rightarrow> 'w deps \<Rightarrow>
   (string \<Rightarrow> 'n \<Rightarrow> nonce_error option \<times> 'n) option \<Rightarrow> string \<Rightarrow> ('w \<times> 'n) handler \<Rightarrow> bool \<Rightarrow>
   ('w \<times> 'n) handler" where
  "a2a_middleware_inner pr js sched now d ns mode nxt allow_missing r s =
     (if 1 < length (header_values ''X-DRS-Bundle'' r)
      then (Some (400, ErrorText ''multiple X-DRS-Bundle headers are not allowed''), s)
      else let bundle_header = header_get ''X-DRS-Bundle'' r in
      if bundle_header = ''''
      then if allow_missing then nxt r s else (Some (401, ErrorText missing_bundle), s)
      else case decode_bundle js bundle_header of
             None \<Rightarrow> (Some (400, ErrorText ''X-DRS-Bundle header is not valid base64url JSON''), s)
           | Some bundle \<Rightarrow>
               (case chain pr sched d now bundle (fst s) of
                  (None, w) \<Rightarrow> (None, (w, snd s))
                | (Some result, w) \<Rightarrow>
                    if \<not> Valid result then (Some (403, VerifyBody result), (w, snd s))
                    else (case check_nonce_replay js (Invocation bundle) ns (snd s) of
                            (Some resp, n) \<Rightarrow> (Some resp, (w, n))
                          | (None, n) \<Rightarrow>
                              (case check_request_binding js r (Invocation bundle) mode of
                                 Inl resp \<Rightarrow> (Some resp, (w, n))
                               | Inr r' \<Rightarrow> nxt (with_verification_context r' (Context result)) (w, n)))))"

definition a2a_middleware where
  "a2a_middleware pr js sched now d ns mode nxt = a2a_middleware_inner pr js sched now d ns mode nxt False"

definition optional_a2a_middleware where
  "optional_a2a_middleware pr js sched now d ns mode nxt =
     a2a_middleware_inner pr js sched now d ns mode nxt True"

lemma a2a_is_mcp: "a2a_middleware_inner = mcp_middleware_inner"
  unfolding a2a_middleware_inner_def mcp_middleware_inner_def with_verification_context_def by (rule refl)

section \<open>What admission means\<close>

lemma binding_check_None:
  "binding_check js body a = None \<longleftrightarrow>
     (if trim_space body = '''' then is_empty_args a
      else \<exists>c j. jcs_transform js body = Some c \<and> json_marshal js a = Some j \<and> jcs_transform js j = Some c)"
  by (auto simp: binding_check_def Let_def split: option.splits if_splits)

text \<open>The chain verification and the middleware decode the same payload.\<close>

lemma decode_payload_shared:
  "decode_jwt_payload u jwt = Some x \<Longrightarrow> decode_invocation_args js jwt = Some v \<Longrightarrow>
    \<exists>payload. decode_jwt_payload Some jwt = Some payload \<and> u payload = Some x \<and> unmarshal_args js payload = Some v"
  by (auto simp: decode_jwt_payload_def decode_invocation_args_def split: list.splits option.splits)

text \<open>
  The binding check is exact: a blank body is bound to absent or empty arguments only, and
  any other body is bound exactly when it and the signed arguments have the same canonical form.
\<close>

theorem binding_check_exact:
  "binding_check js body a = None \<longleftrightarrow>
     (if trim_space body = '''' then is_empty_args a
      else \<exists>c j. jcs_transform js body = Some c \<and> json_marshal js a = Some j \<and> jcs_transform js j = Some c)"
  by (rule binding_check_None)

lemma check_nonce_replay_None:
  "check_nonce_replay js jwt ns n = (None, n') \<longleftrightarrow>
     (\<exists>check jti. ns = Some check \<and> decode_invocation_jti js jwt = Some jti \<and> jti \<noteq> '''' \<and>
        check jti n = (None, n'))"
  by (auto simp: check_nonce_replay_def split: option.splits prod.splits nonce_error.splits if_splits)

lemma check_nonce_replay_Some:
  "check_nonce_replay js jwt ns n = (Some resp, n') \<Longrightarrow> fst resp \<in> {400, 409, 503}"
  by (auto simp: check_nonce_replay_def split: option.splits prod.splits nonce_error.splits if_splits)

lemma check_request_binding_Inr:
  "check_request_binding js r jwt mode = Inr r' \<longleftrightarrow> r' = r \<and>
     (mode = ''off'' \<or>
      (\<exists>body. rq_body r = (body, AtEOF) \<and> length body \<le> 65536 \<and>
         (mode = ''enforced'' \<longrightarrow>
            (\<exists>a. decode_invocation_args js jwt = Some a \<and> binding_check js body a = None))))"
proof (cases "read_all (max_bytes_reader maxBindingBodyBytes (rq_body r))")
  case (Inl e)
  then have "\<nexists>body. rq_body r = (body, AtEOF) \<and> length body \<le> 65536"
    by (auto simp: max_bytes_reader_def read_all_def maxBindingBodyBytes_def)
  with Inl show ?thesis
    by (auto simp: check_request_binding_def BindingModeOff_def split: stream_end.splits)
next
  case (Inr body)
  then have "rq_body r = (body, AtEOF) \<and> length body \<le> 65536"
    by (simp add: read_all_Inr max_bytes_reader_complete maxBindingBodyBytes_def)
  moreover from this have "r\<lparr>rq_body := (body, AtEOF)\<rparr> = r" by (cases r) simp
  ultimately show ?thesis using Inr
    by (auto simp: check_request_binding_def BindingModeOff_def BindingModeEnforced_def Let_def
        split: option.splits if_splits)
qed

lemma check_request_binding_Inl:
  "check_request_binding js r jwt mode = Inl resp \<Longrightarrow> fst resp \<in> {400, 403, 413}"
  by (auto simp: check_request_binding_def Let_def
      split: sum.splits stream_end.splits option.splits if_splits)

text \<open>
  The gate as a specification: the one bundle header decodes to a bundle that verifies with
  result \<open>res\<close>, its JTI is claimed, and the body passes the binding mode.
\<close>

definition admitted ::
  "prims \<Rightarrow> json_ops \<Rightarrow> (string list \<Rightarrow> string list) \<Rightarrow> int64 \<Rightarrow> 'w deps \<Rightarrow>
   (string \<Rightarrow> 'n \<Rightarrow> nonce_error option \<times> 'n) option \<Rightarrow> string \<Rightarrow> request \<Rightarrow> 'w \<times> 'n \<Rightarrow>
   chain_bundle \<Rightarrow> verification_result \<Rightarrow> 'w \<times> 'n \<Rightarrow> bool" where
  "admitted pr js sched now d ns mode r s b res s' =
     ((\<exists>h. h \<noteq> '''' \<and> header_values ''X-DRS-Bundle'' r = [h] \<and> decode_bundle js h = Some b) \<and>
      chain pr sched d now b (fst s) = (Some res, fst s') \<and> Valid res \<and>
      (\<exists>check jti. ns = Some check \<and> decode_invocation_jti js (Invocation b) = Some jti \<and> jti \<noteq> '''' \<and>
         check jti (snd s) = (None, snd s')) \<and>
      (mode = ''off'' \<or>
       (\<exists>body. rq_body r = (body, AtEOF) \<and> length body \<le> 65536 \<and>
          (mode = ''enforced'' \<longrightarrow>
             (\<exists>a. decode_invocation_args js (Invocation b) = Some a \<and> binding_check js body a = None)))))"

definition refused ::
  "prims \<Rightarrow> json_ops \<Rightarrow> (string list \<Rightarrow> string list) \<Rightarrow> int64 \<Rightarrow> 'w deps \<Rightarrow> request \<Rightarrow> 'w \<times> 'n \<Rightarrow>
   response option \<Rightarrow> 'w \<times> 'n \<Rightarrow> bool" where
  "refused pr js sched now d r s resp s' =
     ((case resp of None \<Rightarrow> True | Some (code, _) \<Rightarrow> code \<in> {400, 401, 403, 409, 413, 503}) \<and>
      (snd s' = snd s \<or>
       (\<exists>h b. header_values ''X-DRS-Bundle'' r = [h] \<and> decode_bundle js h = Some b \<and>
          accepts pr sched d now b (fst s))))"

lemma header_single:
  assumes "\<not> 1 < length (header_values k r)" and "header_get k r \<noteq> ''''"
  shows "header_values k r = [header_get k r]"
  using assms by (cases "header_values k r") (auto simp: header_get_def)

lemma refused_simps:
  "refused pr js sched now d r s (Some (code, p)) s \<longleftrightarrow> code \<in> {400, 401, 403, 409, 413, 503}"
  "refused pr js sched now d r s None (w, snd s)"
  "refused pr js sched now d r s (Some (403, p)) (w, snd s)"
  by (auto simp: refused_def)

abbreviation gated ::
  "prims \<Rightarrow> json_ops \<Rightarrow> (string list \<Rightarrow> string list) \<Rightarrow> int64 \<Rightarrow> 'w deps \<Rightarrow>
   (string \<Rightarrow> 'n \<Rightarrow> nonce_error option \<times> 'n) option \<Rightarrow> string \<Rightarrow> request \<Rightarrow> 'w \<times> 'n \<Rightarrow>
   (('w \<times> 'n) handler \<Rightarrow> ('w \<times> 'n) handler) \<Rightarrow> bool" where
  "gated pr js sched now d ns mode r s mw \<equiv>
     (\<exists>resp s'. (\<forall>nxt. mw nxt r s = (resp, s')) \<and> refused pr js sched now d r s resp s') \<or>
     (\<exists>b res s'. admitted pr js sched now d ns mode r s b res s' \<and>
        (\<forall>nxt. mw nxt r s = nxt (r\<lparr>rq_context := Context res\<rparr>) s'))"

lemma middleware_bundle:
  assumes h: "header_values ''X-DRS-Bundle'' r = [h]" "h \<noteq> ''''" and b: "decode_bundle js h = Some b"
  shows "gated pr js sched now d ns mode r s (mcp_middleware pr js sched now d ns mode)"
proof -
  note mw = mcp_middleware_def mcp_middleware_inner_def h header_get_single [OF h(1)] Let_def
  obtain out w where c: "chain pr sched d now b (fst s) = (out, w)" by (cases "chain pr sched d now b (fst s)")
  show ?thesis
  proof (cases "\<exists>res. out = Some res \<and> Valid res")
    case False
    then show ?thesis
      by (intro disjI1 exI [of _ "map_option (\<lambda>res. (403, VerifyBody res)) out"] exI [of _ "(w, snd s)"],
          cases out) (auto simp: mw b c refused_def)
  next
    case True
    then obtain res where res: "out = Some res" "Valid res" by blast
    have acc: "accepts pr sched d now b (fst s)" by (simp add: accepts_def c res)
    obtain a n where nr: "check_nonce_replay js (Invocation b) ns (snd s) = (a, n)"
      by (cases "check_nonce_replay js (Invocation b) ns (snd s)")
    show ?thesis
    proof (cases a)
      case (Some resp)
      with check_nonce_replay_Some nr have "fst resp \<in> {400, 409, 503}" by metis
      with Some acc show ?thesis
        by (intro disjI1 exI [of _ a] exI [of _ "(w, n)"], cases resp)
          (auto simp: mw b c res nr refused_def)
    next
      case None
      show ?thesis
      proof (cases "check_request_binding js r (Invocation b) mode")
        case (Inl resp)
        with check_request_binding_Inl have "fst resp \<in> {400, 403, 413}" by metis
        with Inl None acc show ?thesis
          by (intro disjI1 exI [of _ "Some resp"] exI [of _ "(w, n)"], cases resp)
            (auto simp: mw b c res nr refused_def)
      next
        case (Inr r')
        from Inr check_request_binding_Inr have "r' = r" by metis
        moreover have "admitted pr js sched now d ns mode r s b res (w, n)"
          using Inr nr None c res b h
          unfolding check_request_binding_Inr check_nonce_replay_None admitted_def
          by (simp add: check_nonce_replay_None)
        ultimately show ?thesis using Inr None
          by (intro disjI2 exI [of _ b] exI [of _ res] exI [of _ "(w, n)"]) (simp add: mw b c res nr)
      qed
    qed
  qed
qed

lemma middleware_cases: "gated pr js sched now d ns mode r s (mcp_middleware pr js sched now d ns mode)"
  (is "?refusal \<or> _")
proof (cases "1 < length (header_values ''X-DRS-Bundle'' r) \<or> header_get ''X-DRS-Bundle'' r = ''''")
  case True
  let ?resp = "if 1 < length (header_values ''X-DRS-Bundle'' r)
    then (400, ErrorText ''multiple X-DRS-Bundle headers are not allowed'') else (401, ErrorText missing_bundle)"
  from True have "?refusal"
    by (intro exI [of _ "Some ?resp"] exI [of _ s])
      (auto simp: mcp_middleware_def mcp_middleware_inner_def refused_simps Let_def)
  then show ?thesis ..
next
  case False
  define h where "h = header_get ''X-DRS-Bundle'' r"
  from False have h: "header_values ''X-DRS-Bundle'' r = [h]" "h \<noteq> ''''"
    using header_single [of "''X-DRS-Bundle''" r] by (auto simp: h_def)
  show ?thesis
  proof (cases "decode_bundle js h")
    case None
    with h header_get_single [OF h(1)] show ?thesis
      by (intro disjI1 exI [of _ "Some (400, ErrorText ''X-DRS-Bundle header is not valid base64url JSON'')"]
          exI [of _ s]) (simp add: mcp_middleware_def mcp_middleware_inner_def Let_def refused_simps)
  qed (rule middleware_bundle [OF h])
qed

text \<open>
  C8. Both middlewares are gates. For every request and state they either answer by themselves,
  independently of the protected handler, with an error status or the crash that the chain
  verification ran into, or they hand the handler exactly the original request, its body intact,
  with the verification context attached; and this only when the header, the chain, the JTI and
  the body have all passed. A request whose chain does not verify never consumes a nonce.
\<close>

theorem middleware_gate:
  "(\<exists>resp s'. (\<forall>nxt. mcp_middleware pr js sched now d ns mode nxt r s = (resp, s') \<and>
        a2a_middleware pr js sched now d ns mode nxt r s = (resp, s')) \<and>
      refused pr js sched now d r s resp s') \<or>
   (\<exists>b res s'. admitted pr js sched now d ns mode r s b res s' \<and>
      (\<forall>nxt. mcp_middleware pr js sched now d ns mode nxt r s = nxt (r\<lparr>rq_context := Context res\<rparr>) s' \<and>
         a2a_middleware pr js sched now d ns mode nxt r s = nxt (r\<lparr>rq_context := Context res\<rparr>) s'))"
proof -
  have "a2a_middleware pr js sched now d ns mode nxt = mcp_middleware pr js sched now d ns mode nxt" for nxt
    by (simp add: a2a_middleware_def mcp_middleware_def a2a_is_mcp)
  with middleware_cases [of pr js sched now d ns mode r s] show ?thesis by simp
qed

lemma middleware_reaches:
  assumes "mcp_middleware pr js sched now d ns mode nxt r s \<noteq> mcp_middleware pr js sched now d ns mode nxt' r s"
  obtains b res s' where "admitted pr js sched now d ns mode r s b res s'"
    "\<And>h. mcp_middleware pr js sched now d ns mode h r s = h (r\<lparr>rq_context := Context res\<rparr>) s'"
  using middleware_cases [of pr js sched now d ns mode r s] assms by auto

end
