(* ===== verification/DRS_RateLimit.thy ===== *)
theory DRS_RateLimit
  imports DRS_Http DRS_LRU
begin

text \<open>
  \<^verbatim>\<open>pkg/middleware/ratelimit.go\<close>: the token buckets per client address and for the whole server.
  The bucket of \<^verbatim>\<open>golang.org/x/time/rate\<close> and \<^verbatim>\<open>net.ParseIP\<close> are parameters. The cache holds
  pointers to buckets, so the buckets live in a store and the cache maps an address to a
  location of it.
\<close>

section \<open>State\<close>

record 'l limiter_ops =
  new_limiter :: "f64 \<Rightarrow> int \<Rightarrow> 'l"
  limiter_allow :: "int \<Rightarrow> 'l \<Rightarrow> bool \<times> 'l"

record ('c, 'l) rate_limiter =
  rl_global :: 'l
  rl_perIP :: 'c
  rl_limiters :: "'l list"
  rl_perIPRate :: f64
  rl_trustProxy :: bool

definition ipLimiterCacheSize :: int where
  "ipLimiterCacheSize = 10000"

text \<open>\<open>int(x)\<close> on float64; \<open>oor\<close> is the platform's answer for values that have no int.\<close>

definition f64_to_int :: "int \<Rightarrow> f64 \<Rightarrow> int" where
  "f64_to_int oor x =
     (case x of
        Finite a \<Rightarrow>
          let n = (if a < 0 then - \<lfloor>- a\<rfloor> else \<lfloor>a\<rfloor>)
          in if - (2 ^ 63) \<le> n \<and> n < 2 ^ 63 then n else oor
      | _ \<Rightarrow> oor)"

fun f64_double :: "f64 \<Rightarrow> f64" where
  "f64_double (Finite a) = Finite (2 * a)"
| "f64_double x = x"

definition new_rate_limiter ::
  "'l limiter_ops \<Rightarrow> (nat, 'c) lru \<Rightarrow> int \<Rightarrow> f64 \<Rightarrow> f64 \<Rightarrow> bool \<Rightarrow> string + ('c, 'l) rate_limiter" where
  "new_rate_limiter B L oor per_ip global trust =
     (case lru_new L ipLimiterCacheSize of
        Inl e \<Rightarrow> Inl e
      | Inr c \<Rightarrow>
          Inr \<lparr>rl_global = new_limiter B global (max 1 (f64_to_int oor (f64_double global))),
               rl_perIP = c, rl_limiters = [], rl_perIPRate = per_ip, rl_trustProxy = trust\<rparr>)"

section \<open>Operations\<close>

definition get_or_create_ip_limiter ::
  "'l limiter_ops \<Rightarrow> (nat, 'c) lru \<Rightarrow> int \<Rightarrow> string \<Rightarrow> ('c, 'l) rate_limiter \<Rightarrow>
   nat \<times> ('c, 'l) rate_limiter" where
  "get_or_create_ip_limiter B L oor ip rl =
     (let (found, c) = lru_get L ip (rl_perIP rl)
      in case found of
           Some a \<Rightarrow> (a, rl\<lparr>rl_perIP := c\<rparr>)
         | None \<Rightarrow>
             let a = length (rl_limiters rl);
                 l = new_limiter B (rl_perIPRate rl) (max 1 (f64_to_int oor (rl_perIPRate rl)))
             in (a, rl\<lparr>rl_perIP := lru_add L ip a c, rl_limiters := rl_limiters rl @ [l]\<rparr>))"

definition client_ip :: "(string \<Rightarrow> byte list option) \<Rightarrow> request \<Rightarrow> bool \<Rightarrow> string" where
  "client_ip parse r trust_proxy =
     (let remote = (case split_host_port (rq_remote r) of None \<Rightarrow> rq_remote r | Some (host, _) \<Rightarrow> host);
          xff = header_get ''X-Forwarded-For'' r;
          rightmost = trim_space (last (split_on CHR '','' xff))
      in if trust_proxy \<and> xff \<noteq> '''' \<and> parse rightmost \<noteq> None then rightmost else remote)"

definition reject_too_many_requests :: response where
  "reject_too_many_requests = (429, ErrorText ''RATE_LIMIT_EXCEEDED'')"

text \<open>\<open>ts\<close> are the clock readings of the two \<^verbatim>\<open>Allow\<close> calls.\<close>

definition rate_middleware ::
  "'l limiter_ops \<Rightarrow> (nat, 'c) lru \<Rightarrow> int \<Rightarrow> (string \<Rightarrow> byte list option) \<Rightarrow> int \<times> int \<Rightarrow>
   's handler \<Rightarrow> (('c, 'l) rate_limiter \<times> 's) handler" where
  "rate_middleware B L oor parse ts nxt r st =
     (let (rl, s) = st in
      if rq_path r = ''/healthz'' \<or> rq_path r = ''/readyz''
      then let (resp, s') = nxt r s in (resp, (rl, s'))
      else
        let ip = client_ip parse r (rl_trustProxy rl);
            (a, rl1) = get_or_create_ip_limiter B L oor ip rl;
            (ok, l) = limiter_allow B (fst ts) (rl_limiters rl1 ! a);
            rl2 = rl1\<lparr>rl_limiters := (rl_limiters rl1)[a := l]\<rparr>
        in if \<not> ok then (Some reject_too_many_requests, (rl2, s))
           else let (ok_global, g) = limiter_allow B (snd ts) (rl_global rl2);
                    rl3 = rl2\<lparr>rl_global := g\<rparr>
                in if \<not> ok_global then (Some reject_too_many_requests, (rl3, s))
                   else let (resp, s') = nxt r s in (resp, (rl3, s')))"

section \<open>Separation of the clients\<close>

text \<open>The bucket that requests of an address are charged to.\<close>

definition bucket :: "('c \<Rightarrow> string \<rightharpoonup> nat) \<Rightarrow> ('c, 'l) rate_limiter \<Rightarrow> string \<rightharpoonup> 'l" where
  "bucket look rl ip = map_option (\<lambda>a. rl_limiters rl ! a) (look (rl_perIP rl) ip)"

text \<open>Every cached pointer is allocated, and no two addresses share a bucket.\<close>

definition limiters_ok :: "('c \<Rightarrow> string \<rightharpoonup> nat) \<Rightarrow> ('c, 'l) rate_limiter \<Rightarrow> bool" where
  "limiters_ok look rl =
     ((\<forall>ip a. look (rl_perIP rl) ip = Some a \<longrightarrow> a < length (rl_limiters rl)) \<and>
      (\<forall>ip ip' a. look (rl_perIP rl) ip = Some a \<longrightarrow> look (rl_perIP rl) ip' = Some a \<longrightarrow> ip = ip'))"

lemma limiters_okD:
  assumes "limiters_ok look rl"
  shows "look (rl_perIP rl) ip = Some a \<Longrightarrow> a < length (rl_limiters rl)"
    and "look (rl_perIP rl) ip = Some a \<Longrightarrow> look (rl_perIP rl) ip' = Some a \<Longrightarrow> ip = ip'"
  using assms by (auto simp: limiters_ok_def)

lemma new_rate_limiter_ok:
  "lru_ok L look \<Longrightarrow> new_rate_limiter B L oor p g t = Inr rl \<Longrightarrow> limiters_ok look rl"
  by (auto simp: new_rate_limiter_def limiters_ok_def lru_new_look split: sum.splits)

text \<open>The cell returned is the one cached for the address; other addresses keep theirs or lose them.\<close>

lemma get_or_create_spec:
  assumes "lru_ok L look" "limiters_ok look rl"
    and "get_or_create_ip_limiter B L oor ip rl = (a, rl1)"
  shows "limiters_ok look rl1" and "look (rl_perIP rl1) ip = Some a"
    and "rl_global rl1 = rl_global rl" "rl_trustProxy rl1 = rl_trustProxy rl" "rl_perIPRate rl1 = rl_perIPRate rl"
    and "ip' \<noteq> ip \<Longrightarrow> bucket look rl1 ip' = None \<or> bucket look rl1 ip' = bucket look rl ip'"
proof -
  note look = lru_get_fst [OF assms(1)] lru_get_look [OF assms(1)]
  note L = limiters_okD [OF assms(2)]
  obtain c where g: "lru_get L ip (rl_perIP rl) = (look (rl_perIP rl) ip, c)" "look c = look (rl_perIP rl)"
    using look [of ip "rl_perIP rl"] by (cases "lru_get L ip (rl_perIP rl)") auto
  show "rl_global rl1 = rl_global rl" "rl_trustProxy rl1 = rl_trustProxy rl" "rl_perIPRate rl1 = rl_perIPRate rl"
    using assms(3) by (auto simp: get_or_create_ip_limiter_def g Let_def split: option.splits)
  have all: "limiters_ok look rl1 \<and> look (rl_perIP rl1) ip = Some a \<and>
    (ip' \<noteq> ip \<longrightarrow> bucket look rl1 ip' = None \<or> bucket look rl1 ip' = bucket look rl ip')"
  proof (cases "look (rl_perIP rl) ip")
    case (Some b)
    then have "a = b" "rl1 = rl\<lparr>rl_perIP := c\<rparr>"
      using assms(3) by (auto simp: get_or_create_ip_limiter_def g)
    with Some assms(2) g show ?thesis by (simp add: limiters_ok_def bucket_def)
  next
    case None
    let ?n = "length (rl_limiters rl)" and ?c = "lru_add L ip (length (rl_limiters rl)) c"
    from None obtain l where rl1: "a = ?n" "rl_perIP rl1 = ?c" "rl_limiters rl1 = rl_limiters rl @ [l]"
      using assms(3) by (auto simp: get_or_create_ip_limiter_def g Let_def)
    have new: "look ?c ip = Some ?n" by (rule lru_add_same [OF assms(1)])
    have old: "look (rl_perIP rl) j = Some b" if "look ?c j = Some b" "j \<noteq> ip" for j b
      using lru_add_cases [OF assms(1) that(1)] that(2) g(2) by auto
    have "limiters_ok look rl1"
      unfolding limiters_ok_def rl1
    proof (intro conjI allI impI)
      fix j b assume "look ?c j = Some b"
      then show "b < length (rl_limiters rl @ [l])" using new old [of j b] L(1) [of j b] by (cases "j = ip") auto
    next
      fix j k b assume "look ?c j = Some b" "look ?c k = Some b"
      then show "j = k" using new old L(1) L(2) [of j b k] by (metis nat_neq_iff option.inject)
    qed
    moreover have "bucket look rl1 ip' = None \<or> bucket look rl1 ip' = bucket look rl ip'" if "ip' \<noteq> ip"
    proof (cases "look ?c ip'")
      case (Some b)
      from old [OF Some that] L(1) [OF old [OF Some that]] Some show ?thesis
        by (simp add: bucket_def rl1 nth_append)
    qed (simp add: bucket_def rl1)
    ultimately show ?thesis using rl1 new by simp
  qed
  then show "limiters_ok look rl1" "look (rl_perIP rl1) ip = Some a"
    "ip' \<noteq> ip \<Longrightarrow> bucket look rl1 ip' = None \<or> bucket look rl1 ip' = bucket look rl ip'" by blast+
qed

lemma bucket_update:
  assumes "limiters_ok look rl" "look (rl_perIP rl) ip = Some a"
  shows "limiters_ok look (rl\<lparr>rl_limiters := (rl_limiters rl)[a := l]\<rparr>)"
    and "bucket look (rl\<lparr>rl_limiters := (rl_limiters rl)[a := l]\<rparr>) ip = Some l"
    and "ip' \<noteq> ip \<Longrightarrow> bucket look (rl\<lparr>rl_limiters := (rl_limiters rl)[a := l]\<rparr>) ip' = bucket look rl ip'"
proof -
  note L = limiters_okD [OF assms(1)]
  show "limiters_ok look (rl\<lparr>rl_limiters := (rl_limiters rl)[a := l]\<rparr>)"
    using assms(1) by (simp add: limiters_ok_def)
  show "bucket look (rl\<lparr>rl_limiters := (rl_limiters rl)[a := l]\<rparr>) ip = Some l"
    using assms(2) L(1) by (simp add: bucket_def)
  show "bucket look (rl\<lparr>rl_limiters := (rl_limiters rl)[a := l]\<rparr>) ip' = bucket look rl ip'" if "ip' \<noteq> ip"
  proof (cases "look (rl_perIP rl) ip'")
    case (Some b)
    with that L(2) [OF assms(2)] have "b \<noteq> a" by auto
    with Some show ?thesis by (simp add: bucket_def)
  qed (simp add: bucket_def)
qed

text \<open>
  C36. The limiter separates clients. A request never touches the bucket of another address
  (the cache may at most evict it); a request refused by the per-address bucket costs the global
  bucket nothing; the protected handler runs at most once, on the unchanged state, and only when
  both buckets granted a token; the probes \<^verbatim>\<open>/healthz\<close> and \<^verbatim>\<open>/readyz\<close> change no bucket. The
  separation invariant is kept.
\<close>

theorem rate_limiter_separates:
  assumes "lru_ok L look" and "limiters_ok look rl"
    and "rate_middleware B L oor parse ts nxt r (rl, s) = (resp, (rl', s'))"
  shows "limiters_ok look rl' \<and>
    (\<forall>ip. ip \<noteq> client_ip parse r (rl_trustProxy rl) \<longrightarrow>
       bucket look rl' ip = None \<or> bucket look rl' ip = bucket look rl ip) \<and>
    ((resp, s') = nxt r s \<and> (rl' = rl \<or> rl_global rl' = snd (limiter_allow B (snd ts) (rl_global rl)) \<and>
          fst (limiter_allow B (snd ts) (rl_global rl))) \<or>
     resp = Some reject_too_many_requests \<and> s' = s \<and>
       (rl_global rl' = rl_global rl \<or>
        rl_global rl' = snd (limiter_allow B (snd ts) (rl_global rl)) \<and>
          \<not> fst (limiter_allow B (snd ts) (rl_global rl))))"
proof (cases "rq_path r = ''/healthz'' \<or> rq_path r = ''/readyz''")
  case True
  then show ?thesis using assms(2,3) by (auto simp: rate_middleware_def split: prod.splits)
next
  case False
  let ?ip = "client_ip parse r (rl_trustProxy rl)"
  obtain a rl1 where g: "get_or_create_ip_limiter B L oor ?ip rl = (a, rl1)"
    by (cases "get_or_create_ip_limiter B L oor ?ip rl")
  note spec = get_or_create_spec [OF assms(1,2) g]
  obtain ok l where al: "limiter_allow B (fst ts) (rl_limiters rl1 ! a) = (ok, l)"
    by (cases "limiter_allow B (fst ts) (rl_limiters rl1 ! a)")
  define rl2 where "rl2 = rl1\<lparr>rl_limiters := (rl_limiters rl1)[a := l]\<rparr>"
  note upd = bucket_update [OF spec(1,2), where l = l, folded rl2_def]
  have glob: "rl_global rl2 = rl_global rl" using spec(3) by (simp add: rl2_def)
  have sep: "bucket look rl2 ip = None \<or> bucket look rl2 ip = bucket look rl ip" if "ip \<noteq> ?ip" for ip
    using upd(3) [OF that] spec(6) [OF that] by simp
  obtain okg gl where ag: "limiter_allow B (snd ts) (rl_global rl) = (okg, gl)"
    by (cases "limiter_allow B (snd ts) (rl_global rl)")
  have same: "bucket look (rl2\<lparr>rl_global := gl\<rparr>) = bucket look rl2"
    "limiters_ok look (rl2\<lparr>rl_global := gl\<rparr>) = limiters_ok look rl2"
    by (auto simp: bucket_def limiters_ok_def)
  have run: "rate_middleware B L oor parse ts nxt r (rl, s) =
     (if \<not> ok then (Some reject_too_many_requests, (rl2, s))
      else if \<not> okg then (Some reject_too_many_requests, (rl2\<lparr>rl_global := gl\<rparr>, s))
      else let (resp, s') = nxt r s in (resp, (rl2\<lparr>rl_global := gl\<rparr>, s')))"
    using False ag glob by (simp add: rate_middleware_def g al rl2_def Let_def)
  show ?thesis
    using assms(3) upd(1) sep glob same ag unfolding run
    by (auto split: if_splits prod.splits)
qed

section \<open>The client address\<close>

text \<open>
  Without a trusted proxy the address is taken from the connection alone: no header a
  client sends changes the bucket it is charged to.
\<close>

theorem client_ip_untrusted:
  "client_ip parse (r\<lparr>rq_header := hs, rq_body := b\<rparr>) False = client_ip parse' r False"
  by (simp add: client_ip_def Let_def split: option.split)

text \<open>
  Behind a proxy that adds a header line of its own instead of extending the client's, the
  client chooses its address: with two lines the first one, which the client sent, is read, and
  the proxy's is ignored.
\<close>

theorem client_ip_spoofed:
  assumes "parse x \<noteq> None" and "x \<noteq> ''''" and "CHR '','' \<notin> set x" and "trim_space x = x"
  shows "client_ip parse (r\<lparr>rq_header := [(''X-Forwarded-For'', x), (''X-Forwarded-For'', proxy)]\<rparr>) True = x"
  using assms by (simp add: client_ip_def header_get_def header_values_def forwarded_header_key split_on_id)

theorem client_ip_spoofed_witness:
  "client_ip (\<lambda>s. if s = ''1.2.3.4'' then Some [1, 2, 3, 4] else None)
     \<lparr>rq_method = ''POST'', rq_path = ''/verify'',
      rq_header = [(''X-Forwarded-For'', ''1.2.3.4''), (''X-Forwarded-For'', ''203.0.113.7'')],
      rq_remote = ''10.0.0.1:4711'', rq_body = ('''', AtEOF), rq_context = None\<rparr> True = ''1.2.3.4''"
  using client_ip_spoofed [of "\<lambda>s. if s = ''1.2.3.4'' then Some [1, 2, 3, 4] else None" "''1.2.3.4''"
      "''203.0.113.7''"
      "\<lparr>rq_method = ''POST'', rq_path = ''/verify'', rq_header = [], rq_remote = ''10.0.0.1:4711'',
        rq_body = ('''', AtEOF), rq_context = None\<rparr>"]
  by (simp add: trim_space_visible visible_def)

definition demo_limiter :: "nat limiter_ops" where
  "demo_limiter =
     \<lparr>new_limiter = (\<lambda>rate burst. nat burst), limiter_allow = (\<lambda>t n. (0 < n, n - 1))\<rparr>"

definition demo_rate_limiter :: "(nat \<times> (string \<times> nat) list, nat) rate_limiter" where
  "demo_rate_limiter =
     \<lparr>rl_global = 3, rl_perIP = (9999, [(''10.0.0.1'', 0), (''10.0.0.2'', 1)]), rl_limiters = [1, 1],
      rl_perIPRate = Finite 1, rl_trustProxy = False\<rparr>"

theorem rate_limiter_separates_witness:
  "bucket list_look (fst (snd (rate_middleware demo_limiter list_lru 0 (\<lambda>_. None) (5, 5)
      (\<lambda>r s. (Some (200, NoPayload), s))
      \<lparr>rq_method = ''POST'', rq_path = ''/verify'', rq_header = [], rq_remote = ''10.0.0.1:4711'',
       rq_body = ('''', AtEOF), rq_context = None\<rparr> (demo_rate_limiter, ())))) ''10.0.0.2''
     \<in> {None, Some 1}"
proof -
  let ?r = "\<lparr>rq_method = ''POST'', rq_path = ''/verify'', rq_header = [], rq_remote = ''10.0.0.1:4711'',
       rq_body = ('''', AtEOF), rq_context = None\<rparr>"
  let ?run = "rate_middleware demo_limiter list_lru 0 (\<lambda>_. None) (5, 5)
      (\<lambda>r s. (Some (200, NoPayload), s)) ?r (demo_rate_limiter, ())"
  have ok: "limiters_ok list_look demo_rate_limiter"
    by (auto simp: limiters_ok_def demo_rate_limiter_def list_look_def split: if_splits)
  have ip: "client_ip (\<lambda>_. None) ?r (rl_trustProxy demo_rate_limiter) = ''10.0.0.1''"
    by (simp add: client_ip_def demo_rate_limiter_def split_host_port_def Let_def)
  have b: "bucket list_look demo_rate_limiter ''10.0.0.2'' = Some 1"
    by (simp add: bucket_def demo_rate_limiter_def list_look_def)
  obtain resp rl' s' where run: "?run = (resp, (rl', s'))" by (metis prod.exhaust)
  have "''10.0.0.2'' \<noteq> client_ip (\<lambda>_. None) ?r (rl_trustProxy demo_rate_limiter)" by (simp add: ip)
  with rate_limiter_separates [OF list_lru_ok ok run]
  have "bucket list_look rl' ''10.0.0.2'' = None \<or>
      bucket list_look rl' ''10.0.0.2'' = bucket list_look demo_rate_limiter ''10.0.0.2''" by blast
  with b have "bucket list_look rl' ''10.0.0.2'' \<in> {None, Some 1}" by simp
  with run show ?thesis by simp
qed

end
