(* ===== verification/DRS_Revocation.thy ===== *)
theory DRS_Revocation
  imports DRS_Verify
begin

text \<open>
  \<^verbatim>\<open>pkg/revocation\<close>: the interface of local revocation stores (\<^verbatim>\<open>interface.go\<close>) as a locale, its
  in-memory and file-backed implementations (\<^verbatim>\<open>local.go\<close>, \<^verbatim>\<open>file.go\<close>). The remote status list and
  the admin endpoint are in \<open>DRS_Status\<close>.
\<close>

section \<open>The LocalStore interface\<close>

text \<open>
  \<open>revoke\<close> takes, besides the index, the behaviour \<open>f\<close> of the storage during the call; it
  returns the error or \<open>None\<close>. The client is block F of the chain verification.
\<close>

fun revoke_run :: "('f \<Rightarrow> uint64 \<Rightarrow> 's \<Rightarrow> string option \<times> 's) \<Rightarrow> ('f \<times> uint64) list \<Rightarrow> 's \<Rightarrow> 's" where
  "revoke_run revoke [] s = s"
| "revoke_run revoke ((f, i) # ops) s = revoke_run revoke ops (snd (revoke f i s))"

locale local_store =
  fixes revoke :: "'f \<Rightarrow> uint64 \<Rightarrow> 's \<Rightarrow> string option \<times> 's"
    and is_revoked :: "uint64 \<Rightarrow> 's \<Rightarrow> bool"
  assumes revoke_ok: "revoke f i s = (None, s') \<Longrightarrow> is_revoked i s'"
    and revoke_keeps: "is_revoked j s \<Longrightarrow> is_revoked j (snd (revoke f i s))"
    and revoke_only: "is_revoked j (snd (revoke f i s)) \<Longrightarrow> j = i \<or> is_revoked j s"
begin

lemma run_keeps: "is_revoked j s \<Longrightarrow> is_revoked j (revoke_run revoke ops s)"
  by (induction ops arbitrary: s) (auto simp: revoke_keeps)

lemma run_only:
  "is_revoked j (revoke_run revoke ops s) \<Longrightarrow> j \<in> snd ` set ops \<or> is_revoked j s"
proof (induction ops arbitrary: s)
  case (Cons op ops)
  then show ?case using revoke_only [of j "fst op" "snd op" s] by (cases op) (auto simp: image_iff)
qed simp

lemma revoked_blocks:
  assumes "revoke f i s = (None, s')" and "r \<in> set rs" and "dr_DrsStatusListIndex r = Some i"
  shows "local_revocation (\<lambda>j. is_revoked j (revoke_run revoke ops s')) rs = Some REVOKED"
proof -
  have "is_revoked i (revoke_run revoke ops s')" using revoke_ok [OF assms(1)] by (rule run_keeps)
  with assms(2,3) show ?thesis by (auto simp: local_revocation_Some)
qed

end

section \<open>The in-memory store\<close>

record local_revocation_store =
  lrs_revoked :: "uint64 set"

definition new_local_revocation_store :: local_revocation_store where
  "new_local_revocation_store = \<lparr>lrs_revoked = {}\<rparr>"

definition local_revoke ::
  "unit \<Rightarrow> uint64 \<Rightarrow> local_revocation_store \<Rightarrow> string option \<times> local_revocation_store" where
  "local_revoke _ i s = (None, s\<lparr>lrs_revoked := insert i (lrs_revoked s)\<rparr>)"

definition local_is_revoked :: "uint64 \<Rightarrow> local_revocation_store \<Rightarrow> bool" where
  "local_is_revoked i s = (i \<in> lrs_revoked s)"

interpretation mem_revocation: local_store local_revoke local_is_revoked
  by unfold_locales (auto simp: local_revoke_def local_is_revoked_def)

section \<open>The file-backed store\<close>

text \<open>
  \<open>log\<close> is the content of the file. During a write the file system may fail after some of the
  bytes have reached the file, and \<^verbatim>\<open>fsync\<close> may fail after all of them have; a closed handle
  rejects the write.
\<close>

datatype write_behaviour = WriteOk | ShortWrite nat string | SyncFailed string

record file_store =
  frs_revoked :: "uint64 set"
  frs_log :: string
  frs_open :: bool

definition maxLine :: nat where
  "maxLine = 64 * 1024"

definition newline :: char where
  "newline = char_of (10 :: nat)"

text \<open>\<open>bufio.ScanLines\<close>: a final empty line is not reported, one trailing CR is dropped.\<close>

definition scan_lines :: "string \<Rightarrow> string list" where
  "scan_lines content =
     (let parts = split_on newline content
      in if last parts = '''' then butlast parts else parts)"

definition drop_cr :: "string \<Rightarrow> string" where
  "drop_cr line = (if line \<noteq> '''' \<and> code_of (last line) = 13 then butlast line else line)"

definition parse_line :: "string \<Rightarrow> uint64 option" where
  "parse_line raw =
     (let line = trim_space (drop_cr raw)
      in if line = '''' \<or> prefix ''#'' line then None else parse_uint line)"

definition indices_of :: "string list \<Rightarrow> uint64 set" where
  "indices_of lines = {i. \<exists>l \<in> set lines. parse_line l = Some i}"

text \<open>The existing file: it cannot be opened, is absent, or has a content.\<close>

definition load_existing :: "string + string option \<Rightarrow> string + uint64 set" where
  "load_existing file =
     (case file of
        Inl e \<Rightarrow> Inl (''revocation: open existing store: '' @ e)
      | Inr None \<Rightarrow> Inr {}
      | Inr (Some content) \<Rightarrow>
          if list_ex (\<lambda>l. maxLine \<le> length l) (scan_lines content)
          then Inl ''revocation: read store: bufio.Scanner: token too long''
          else Inr (indices_of (scan_lines content)))"

text \<open>
  \<open>OpenFileBackedRevocationStore\<close>; the directory and the append handle may fail to be made.
\<close>

definition open_file_store ::
  "string option \<Rightarrow> string + string option \<Rightarrow> string option \<Rightarrow> string + file_store" where
  "open_file_store mkdir_err file append_err =
     (case mkdir_err of
        Some e \<Rightarrow> Inl (''revocation: create store dir: '' @ e)
      | None \<Rightarrow>
          (case load_existing file of
             Inl e \<Rightarrow> Inl e
           | Inr revoked \<Rightarrow>
               (case append_err of
                  Some e \<Rightarrow> Inl (''revocation: open append handle: '' @ e)
                | None \<Rightarrow>
                    Inr \<lparr>frs_revoked = revoked,
                         frs_log = (case file of Inr (Some c) \<Rightarrow> c | _ \<Rightarrow> ''''),
                         frs_open = True\<rparr>)))"

definition revocation_line :: "uint64 \<Rightarrow> string" where
  "revocation_line i = format_uint i @ [newline]"

definition file_revoke :: "write_behaviour \<Rightarrow> uint64 \<Rightarrow> file_store \<Rightarrow> string option \<times> file_store" where
  "file_revoke w i s =
     (if \<not> frs_open s then (Some (''revocation: write index: invalid argument''), s)
      else case w of
             ShortWrite k e \<Rightarrow>
               (Some (''revocation: write index: '' @ e), s\<lparr>frs_log := frs_log s @ take k (revocation_line i)\<rparr>)
           | SyncFailed e \<Rightarrow>
               (Some (''revocation: fsync after index: '' @ e), s\<lparr>frs_log := frs_log s @ revocation_line i\<rparr>)
           | WriteOk \<Rightarrow>
               (None, s\<lparr>frs_log := frs_log s @ revocation_line i, frs_revoked := insert i (frs_revoked s)\<rparr>))"

definition file_is_revoked :: "uint64 \<Rightarrow> file_store \<Rightarrow> bool" where
  "file_is_revoked i s = (i \<in> frs_revoked s)"

definition file_close :: "string option \<Rightarrow> file_store \<Rightarrow> string option \<times> file_store" where
  "file_close close_err s = (if \<not> frs_open s then (None, s) else (close_err, s\<lparr>frs_open := False\<rparr>))"

interpretation file_revocation: local_store file_revoke file_is_revoked
  by unfold_locales
    (auto simp: file_revoke_def file_is_revoked_def split: write_behaviour.splits if_splits)

text \<open>A restart reads the file that the last process left.\<close>

definition restart :: "file_store \<Rightarrow> string + file_store" where
  "restart s = open_file_store None (Inr (Some (frs_log s))) None"

section \<open>Durability of the log\<close>

text \<open>A log of complete lines, none of them overlong.\<close>

definition clean_log :: "string \<Rightarrow> bool" where
  "clean_log c = ((c = '''' \<or> last c = newline) \<and> list_all (\<lambda>l. length l < maxLine) (scan_lines c))"

lemma split_on_snoc: "split_on c (s @ [c]) = split_on c s @ ['''']"
proof (induction s)
  case (Cons x s)
  obtain p ps where "split_on c s = p # ps" by (cases "split_on c s") auto
  with Cons show ?case by auto
qed simp

lemma split_on_app_sep: "split_on c (s @ c # t) = split_on c s @ split_on c t"
proof (induction s)
  case (Cons x s)
  obtain p ps where "split_on c s = p # ps" by (cases "split_on c s") auto
  with Cons show ?case by auto
qed simp

lemma scan_lines_app:
  assumes "c = '''' \<or> last c = newline" and "newline \<notin> set l"
  shows "scan_lines (c @ l @ [newline]) = scan_lines c @ [l]"
proof (cases "c = ''''")
  case True
  then show ?thesis using assms(2) split_on_snoc [of newline l]
    by (simp add: scan_lines_def Let_def split_on_id)
next
  case False
  with assms(1) obtain c0 where c: "c = c0 @ [newline]" by (metis append_butlast_last_id)
  have "split_on newline (c @ l @ [newline]) = split_on newline c0 @ l # ['''']"
    using assms(2) split_on_snoc [of newline l]
    by (simp add: c split_on_app_sep split_on_id)
  moreover have "split_on newline c = split_on newline c0 @ ['''']"
    by (simp add: c split_on_snoc)
  ultimately show ?thesis by (simp add: scan_lines_def Let_def butlast_append)
qed

lemma digit_visible: "is_digit c \<Longrightarrow> visible c \<and> c \<noteq> newline \<and> code_of c \<noteq> 13 \<and> c \<noteq> CHR ''#''"
proof -
  assume "is_digit c"
  then have n: "48 \<le> code_of c" "code_of c \<le> 57" by (auto simp: is_digit_def)
  moreover have "code_of newline = 10" "code_of CHR ''#'' = 35" by (simp_all add: newline_def code_of_def)
  ultimately show ?thesis by (auto simp: visible_def code_of_def)
qed

lemma dec_digits_nonempty: "dec_digits n \<noteq> ''''"
  by (subst dec_digits.simps) simp

lemma parse_line_format: "parse_line (format_uint i) = Some i"
proof -
  let ?s = "format_uint i"
  have ne: "?s \<noteq> ''''" by (simp add: format_uint_def dec_digits_nonempty)
  have d: "is_digit (hd ?s)" "is_digit (last ?s)"
    using ne format_uint_digits [of "hd ?s" i] format_uint_digits [of "last ?s" i] by simp_all
  then have "drop_cr ?s = ?s" using digit_visible by (auto simp: drop_cr_def)
  moreover have "trim_space ?s = ?s" using d digit_visible by (intro trim_space_visible) auto
  moreover have "\<not> prefix ''#'' ?s" using d(1) ne digit_visible by (cases ?s) auto
  ultimately show ?thesis using ne parse_format_uint by (simp add: parse_line_def)
qed

lemma dec_digits_length: "n < 10 ^ k \<Longrightarrow> 0 < k \<Longrightarrow> length (dec_digits n) \<le> k"
proof (induction k arbitrary: n)
  case (Suc k)
  show ?case
  proof (cases "n < 10")
    case True
    then show ?thesis by (subst dec_digits.simps) simp
  next
    case False
    then have "0 < k" using Suc.prems by (cases k) auto
    moreover have "n div 10 < 10 ^ k" using Suc.prems by (simp add: less_mult_imp_div_less mult.commute)
    ultimately have "length (dec_digits (n div 10)) \<le> k" using Suc.IH by blast
    with False show ?thesis by (subst dec_digits.simps) simp
  qed
qed simp

lemma format_uint_short: "length (format_uint i) < maxLine"
proof -
  have "unat i < 10 ^ 20" using unsigned_less [of i, where 'a = nat] by simp
  then have "length (format_uint i) \<le> 20" unfolding format_uint_def by (rule dec_digits_length) simp
  then show ?thesis by (simp add: maxLine_def)
qed

lemma format_uint_no_newline: "newline \<notin> set (format_uint i)"
  using format_uint_digits digit_visible by blast

definition log_ok :: "file_store \<Rightarrow> bool" where
  "log_ok s = (clean_log (frs_log s) \<and> frs_revoked s \<subseteq> indices_of (scan_lines (frs_log s)))"

lemma indices_of_app: "indices_of (ls @ [format_uint i]) = insert i (indices_of ls)"
  by (auto simp: indices_of_def parse_line_format)

lemma clean_log_line:
  assumes "clean_log c"
  shows "clean_log (c @ revocation_line i)"
    and "indices_of (scan_lines (c @ revocation_line i)) = insert i (indices_of (scan_lines c))"
proof -
  have "scan_lines (c @ revocation_line i) = scan_lines c @ [format_uint i]"
    using assms format_uint_no_newline by (simp add: revocation_line_def scan_lines_app clean_log_def)
  then show "clean_log (c @ revocation_line i)"
      "indices_of (scan_lines (c @ revocation_line i)) = insert i (indices_of (scan_lines c))"
    using assms format_uint_short by (simp_all add: clean_log_def revocation_line_def indices_of_app)
qed

text \<open>
  The whole line of the call has reached the file, which is also the case when \<^verbatim>\<open>fsync\<close> fails after
  the write; and no call of a run stops in the middle of its line.
\<close>

definition line_written :: "write_behaviour \<Rightarrow> uint64 \<Rightarrow> bool" where
  "line_written w i = (case w of ShortWrite k e \<Rightarrow> length (revocation_line i) \<le> k | _ \<Rightarrow> True)"

definition whole_writes :: "(write_behaviour \<times> uint64) list \<Rightarrow> bool" where
  "whole_writes ops = list_all (\<lambda>(w, i). line_written w i \<or> (case w of ShortWrite k e \<Rightarrow> k = 0 | _ \<Rightarrow> False)) ops"

lemma file_revoke_log:
  assumes "frs_open s" and "clean_log (frs_log s)" and "whole_writes [(w, i)]"
  shows "frs_open (snd (file_revoke w i s))" and "clean_log (frs_log (snd (file_revoke w i s)))"
    and "indices_of (scan_lines (frs_log (snd (file_revoke w i s)))) =
      indices_of (scan_lines (frs_log s)) \<union> (if line_written w i then {i} else {})"
    and "frs_revoked (snd (file_revoke w i s)) = frs_revoked s \<union> (if w = WriteOk then {i} else {})"
proof -
  note simps = file_revoke_def line_written_def whole_writes_def
  note line = clean_log_line [OF assms(2), of i]
  from assms(1) show "frs_open (snd (file_revoke w i s))"
    by (cases w) (simp_all add: simps)
  from assms(1) show "frs_revoked (snd (file_revoke w i s)) = frs_revoked s \<union> (if w = WriteOk then {i} else {})"
    by (cases w) (simp_all add: simps)
  from assms line show "clean_log (frs_log (snd (file_revoke w i s)))"
    by (cases w) (auto simp: simps)
  have "revocation_line i \<noteq> []" by (simp add: revocation_line_def)
  with assms line show "indices_of (scan_lines (frs_log (snd (file_revoke w i s)))) =
      indices_of (scan_lines (frs_log s)) \<union> (if line_written w i then {i} else {})"
    by (cases w) (auto simp: simps)
qed

lemma revoke_run_log:
  "frs_open s \<Longrightarrow> clean_log (frs_log s) \<Longrightarrow> whole_writes ops \<Longrightarrow>
    clean_log (frs_log (revoke_run file_revoke ops s)) \<and>
    indices_of (scan_lines (frs_log (revoke_run file_revoke ops s))) =
      indices_of (scan_lines (frs_log s)) \<union> {j. \<exists>w. (w, j) \<in> set ops \<and> line_written w j} \<and>
    frs_revoked (revoke_run file_revoke ops s) = frs_revoked s \<union> {j. (WriteOk, j) \<in> set ops}"
proof (induction ops arbitrary: s)
  case (Cons op ops)
  obtain w i where op: "op = (w, i)" by (cases op)
  with Cons.prems(3) have split: "whole_writes [(w, i)]" "whole_writes ops" by (simp_all add: whole_writes_def)
  note step = file_revoke_log [OF Cons.prems(1,2) split(1)]
  from Cons.IH [OF step(1,2) split(2)] show ?case unfolding op revoke_run.simps step(3,4) by auto
qed simp

lemma load_clean: "clean_log c \<Longrightarrow> load_existing (Inr (Some c)) = Inr (indices_of (scan_lines c))"
  by (auto simp: load_existing_def clean_log_def list_all_iff list_ex_iff)

text \<open>
  C15. What a restart brings back, exactly. Start from a log of complete lines, none overlong, and
  run any sequence of \<^verbatim>\<open>Revoke\<close> calls in which no write stops in the middle of a line. Then the store
  reopens, and revoked are the indices of the old log and those whose line was written: all for
  which \<^verbatim>\<open>Revoke\<close> returned nil, and also those for which only \<^verbatim>\<open>fsync\<close> failed and \<^verbatim>\<open>Revoke\<close> returned an
  error. Before the restart the latter are not in force. A write that does stop in the middle can
  lose a later revocation, see \<open>torn_write_loses_revocation\<close>.
\<close>

theorem revocations_survive_restart:
  assumes "open_file_store None (Inr (Some c)) None = Inr s0" and "clean_log c" and "whole_writes ops"
  shows "\<exists>s'. restart (revoke_run file_revoke ops s0) = Inr s' \<and>
    (\<forall>j. file_is_revoked j s' \<longleftrightarrow> file_is_revoked j s0 \<or> (\<exists>w. (w, j) \<in> set ops \<and> line_written w j)) \<and>
    (\<forall>j. file_is_revoked j (revoke_run file_revoke ops s0) \<longleftrightarrow>
       file_is_revoked j s0 \<or> (WriteOk, j) \<in> set ops)"
proof -
  have s0: "frs_open s0" "frs_log s0 = c" "frs_revoked s0 = indices_of (scan_lines c)"
    using assms(1,2) load_clean [of c] by (auto simp: open_file_store_def)
  let ?s = "revoke_run file_revoke ops s0"
  from revoke_run_log [OF s0(1) _ assms(3)] assms(2) s0
  have run: "clean_log (frs_log ?s)" "frs_revoked ?s = frs_revoked s0 \<union> {j. (WriteOk, j) \<in> set ops}"
      "indices_of (scan_lines (frs_log ?s)) = frs_revoked s0 \<union> {j. \<exists>w. (w, j) \<in> set ops \<and> line_written w j}"
    by simp_all
  then have "restart ?s = Inr \<lparr>frs_revoked = indices_of (scan_lines (frs_log ?s)),
      frs_log = frs_log ?s, frs_open = True\<rparr>"
    by (simp add: restart_def open_file_store_def load_clean)
  with run(2,3) show ?thesis by (auto simp: file_is_revoked_def)
qed

definition empty_file_store :: file_store where
  "empty_file_store = \<lparr>frs_revoked = {}, frs_log = '''', frs_open = True\<rparr>"

lemma empty_log: "clean_log ''''" "scan_lines '''' = []"
  by (simp_all add: clean_log_def scan_lines_def)

lemma open_empty: "open_file_store None (Inr (Some '''')) None = Inr empty_file_store"
  by (simp add: open_file_store_def load_existing_def empty_log empty_file_store_def indices_of_def)

theorem revocations_survive_restart_witness:
  "let s = revoke_run file_revoke [(WriteOk, 7), (SyncFailed ''EIO'', 8), (ShortWrite 0 ''ENOSPC'', 9)] empty_file_store
   in \<exists>s'. restart s = Inr s' \<and> file_is_revoked 7 s' \<and> file_is_revoked 8 s' \<and> \<not> file_is_revoked 8 s \<and>
        \<not> file_is_revoked 9 s'"
proof -
  let ?ops = "[(WriteOk, 7), (SyncFailed ''EIO'', 8), (ShortWrite 0 ''ENOSPC'', 9)] :: (write_behaviour \<times> uint64) list"
  have "revocation_line 9 \<noteq> []" by (simp add: revocation_line_def)
  then show ?thesis
    using revocations_survive_restart [OF open_empty empty_log(1), of ?ops]
    by (auto simp: Let_def whole_writes_def line_written_def file_is_revoked_def empty_file_store_def
        simp del: revoke_run.simps)
qed

text \<open>
  A write that fails half way breaks the promise for the next one: the rest of a torn line
  is still in the file, the next successful revocation is appended to it, and after a restart
  the merged line is another index. Here revoking 12 fails after one byte, revoking 34 succeeds
  and is in force, and after the restart 134 is revoked instead of 34.
\<close>

theorem torn_write_loses_revocation:
  "let s = revoke_run file_revoke [(ShortWrite 1 ''ENOSPC'', 12), (WriteOk, 34)] empty_file_store
   in file_is_revoked 34 s \<and>
      (\<exists>s'. restart s = Inr s' \<and> \<not> file_is_revoked 34 s' \<and> file_is_revoked 134 s')"
proof -
  let ?s = "revoke_run file_revoke [(ShortWrite 1 ''ENOSPC'', 12), (WriteOk, 34)] empty_file_store"
  have digits: "format_uint 12 = ''12''" "format_uint 34 = ''34''" "format_uint 134 = ''134''"
    by code_simp+
  have log: "frs_log ?s = ''134'' @ [newline]" and rev: "frs_revoked ?s = {34}"
    by (simp_all add: file_revoke_def empty_file_store_def revocation_line_def digits)
  have "frs_log ?s = '''' @ revocation_line 134" using log by (simp add: revocation_line_def digits)
  then have "clean_log (frs_log ?s)" "indices_of (scan_lines (frs_log ?s)) = {134}"
    using clean_log_line [OF empty_log(1), of 134] by (simp_all add: empty_log indices_of_def)
  then have "restart ?s = Inr \<lparr>frs_revoked = {134}, frs_log = frs_log ?s, frs_open = True\<rparr>"
    by (simp add: restart_def open_file_store_def load_clean)
  with rev show ?thesis by (simp add: file_is_revoked_def)
qed

end
