(* ===== verification/DRS_Status.thy ===== *)
theory DRS_Status
  imports DRS_Revocation DRS_Http
begin

text \<open>
  \<^verbatim>\<open>pkg/revocation/status.go\<close>, the cache of the remote bitstring status list, and
  \<^verbatim>\<open>pkg/revocation/admin_handler.go\<close>, the endpoint that revokes locally. The clock and HTTP are
  the record \<open>status_env\<close>.
\<close>

section \<open>The status list cache\<close>

datatype status_response =
    StatusFailed string
  | StatusResponse (sr_code: nat) (sr_length: string) (sr_body: "string + byte list")

record 'n status_env =
  se_clock :: "'n \<Rightarrow> int \<times> 'n"
  se_request :: "string \<Rightarrow> string option"
  se_get :: "string \<Rightarrow> 'n \<Rightarrow> status_response \<times> 'n"

record status_cache =
  bitstring :: "byte list"
  fetchedAt :: int
  hasSnapshot :: bool
  sc_ttl :: int
  baseURL :: string

definition new_status_cache :: "string \<Rightarrow> int \<Rightarrow> status_cache" where
  "new_status_cache url ttl =
     \<lparr>bitstring = [], fetchedAt = 0, hasSnapshot = False, sc_ttl = ttl, baseURL = url\<rparr>"

definition maxStatusListBytes :: nat where
  "maxStatusListBytes = 2 ^ 20"

text \<open>The checks of \<open>refresh\<close> on the response; \<open>Inr\<close> is the list to publish.\<close>

definition check_response :: "string \<Rightarrow> status_response \<Rightarrow> string + byte list" where
  "check_response url resp =
     (case resp of
        StatusFailed e \<Rightarrow> Inl (''HTTP GET '' @ url @ '': '' @ e)
      | StatusResponse code cl body \<Rightarrow>
          if code \<noteq> 200 then Inl (''HTTP GET '' @ url @ '' returned '' @ dec_digits code)
          else (case body of
                  Inl e \<Rightarrow> Inl (''status list from '' @ url @ '' truncated or unreadable: '' @ e)
                | Inr bytes \<Rightarrow>
                    let buf = take (maxStatusListBytes + 1) bytes in
                    if maxStatusListBytes < length buf
                    then Inl (''status list from '' @ url @ '' exceeds byte limit'')
                    else if length buf = 0 then Inl (''status list from '' @ url @ '' is empty'')
                    else if cl \<noteq> '''' \<and> (case parse_int cl of
                             None \<Rightarrow> False
                           | Some n \<Rightarrow> 0 \<le> sint n \<and> int (length buf) \<noteq> sint n)
                    then Inl (''status list from '' @ url @ '' truncated'')
                    else Inr buf))"

definition publish :: "'n status_env \<Rightarrow> byte list \<Rightarrow> status_cache \<times> 'n \<Rightarrow> status_cache \<times> 'n" where
  "publish E buf st =
     (let (now, n) = se_clock E (snd st)
      in ((fst st)\<lparr>bitstring := buf, fetchedAt := now, hasSnapshot := True\<rparr>, n))"

definition refresh :: "'n status_env \<Rightarrow> status_cache \<times> 'n \<Rightarrow> string option \<times> status_cache \<times> 'n" where
  "refresh E st =
     (if baseURL (fst st) = '''' then (None, publish E [] st)
      else case se_request E (baseURL (fst st)) of
             Some e \<Rightarrow> (Some (''building request for '' @ baseURL (fst st) @ '': '' @ e), st)
           | None \<Rightarrow>
               (let (resp, n) = se_get E (baseURL (fst st)) (snd st)
                in case check_response (baseURL (fst st)) resp of
                     Inl e \<Rightarrow> (Some e, (fst st, n))
                   | Inr buf \<Rightarrow> (None, publish E buf (fst st, n))))"

definition ensure_initial_snapshot ::
  "'n status_env \<Rightarrow> status_cache \<times> 'n \<Rightarrow> string option \<times> status_cache \<times> 'n" where
  "ensure_initial_snapshot E st = (if hasSnapshot (fst st) then (None, st) else refresh E st)"

definition warm_up :: "'n status_env \<Rightarrow> status_cache \<times> 'n \<Rightarrow> string option \<times> status_cache \<times> 'n" where
  "warm_up E st = ensure_initial_snapshot E st"

definition ready :: "status_cache \<Rightarrow> bool" where
  "ready s = hasSnapshot s"

text \<open>\<open>getBit\<close>, with the arithmetic at its width.\<close>

definition get_bit :: "byte list \<Rightarrow> uint64 \<Rightarrow> bool" where
  "get_bit bits index =
     (let byte_index = unat (index div 8); bit_index = unat (index mod 8)
      in byte_index < length bits \<and> drop_bit (7 - bit_index) (bits ! byte_index) AND 1 = 1)"

text \<open>The TTL refresh: the expiry is read before and after the refresh lock is taken.\<close>

definition refresh_if_expired :: "'n status_env \<Rightarrow> status_cache \<times> 'n \<Rightarrow> status_cache \<times> 'n" where
  "refresh_if_expired E st =
     (let (t1, n1) = se_clock E (snd st)
      in if t1 - fetchedAt (fst st) \<le> sc_ttl (fst st) then (fst st, n1)
         else let (t2, n2) = se_clock E n1
              in if t2 - fetchedAt (fst st) \<le> sc_ttl (fst st) then (fst st, n2)
                 else snd (refresh E (fst st, n2)))"

definition lookup_bit :: "uint64 \<Rightarrow> byte list \<Rightarrow> string + bool" where
  "lookup_bit index bits =
     (if 0 < length bits \<and> length bits \<le> unat (index div 8)
      then Inl (''revocation: status list index '' @ format_uint index @ '' is out of range'')
      else Inr (get_bit bits index))"

definition status_is_revoked ::
  "'n status_env \<Rightarrow> string option \<Rightarrow> uint64 \<Rightarrow> status_cache \<times> 'n \<Rightarrow> (string + bool) \<times> status_cache \<times> 'n" where
  "status_is_revoked E ctx_err index st =
     (case ctx_err of
        Some e \<Rightarrow> (Inl e, st)
      | None \<Rightarrow>
          (case ensure_initial_snapshot E st of
             (Some e, st1) \<Rightarrow>
               (Inl (''revocation: no valid status list snapshot available: '' @ e), st1)
           | (None, st1) \<Rightarrow>
               let st2 = refresh_if_expired E st1 in (lookup_bit index (bitstring (fst st2)), st2)))"

section \<open>The bit order\<close>

text \<open>The reference: the list as a sequence of bits, most significant bit of each byte first.\<close>

definition bits_of :: "byte list \<Rightarrow> bool list" where
  "bits_of bs = concat (map (\<lambda>b. map (\<lambda>k. bit b (7 - k)) [0..<8]) bs)"

lemma length_bits_of: "length (bits_of bs) = 8 * length bs"
  by (induction bs) (auto simp: bits_of_def)

lemma bits_of_nth: "i < 8 * length bs \<Longrightarrow> bits_of bs ! i = bit (bs ! (i div 8)) (7 - i mod 8)"
proof (induction bs arbitrary: i)
  case (Cons b bs)
  have eq: "bits_of (b # bs) = map (\<lambda>k. bit b (7 - k)) [0..<8] @ bits_of bs" by (simp add: bits_of_def)
  show ?case
  proof (cases "i < 8")
    case False
    then have "i div 8 = Suc ((i - 8) div 8)" "i mod 8 = (i - 8) mod 8"
      by (simp_all add: div_if [of i] mod_if [of i])
    with Cons False show ?thesis by (simp add: eq nth_append)
  qed (simp add: eq nth_append del: upt_Suc)
qed simp

lemma get_bit_iff: "get_bit bs i \<longleftrightarrow> unat i < length (bits_of bs) \<and> bits_of bs ! unat i"
proof -
  have "unat (i div 8) = unat i div 8" "unat (i mod 8) = unat i mod 8"
    by (simp_all add: unat_div unat_mod)
  moreover have "(drop_bit k b AND 1 = 1) = bit b k" for k and b :: byte
    by (simp add: and_one_eq bit_iff_odd_drop_bit odd_iff_mod_2_eq_one)
  ultimately show ?thesis
    by (auto simp: get_bit_def length_bits_of bits_of_nth Let_def)
qed

lemma lookup_bit_Inr:
  assumes "bits \<noteq> []" and "lookup_bit i bits = Inr b"
  shows "unat i < length (bits_of bits) \<and> b = bits_of bits ! unat i"
proof -
  have "unat (i div 8) = unat i div 8" by (simp add: unat_div)
  with assms have "unat i div 8 < length bits" "b = get_bit bits i"
    by (auto simp: lookup_bit_def not_le split: if_splits)
  then have "unat i < length (bits_of bits)" unfolding length_bits_of by linarith
  with \<open>b = get_bit bits i\<close> show ?thesis by (simp add: get_bit_iff)
qed

section \<open>Fail-closed answers\<close>

text \<open>Every state of a cache that was created for \<open>url\<close>, with any environment in between.\<close>

inductive status_reach :: "'n status_env \<Rightarrow> string \<Rightarrow> int \<Rightarrow> status_cache \<times> 'n \<Rightarrow> bool" for E url ttl where
  fresh: "status_reach E url ttl (new_status_cache url ttl, n)"
| warmed: "status_reach E url ttl st \<Longrightarrow> status_reach E url ttl (snd (warm_up E st))"
| asked: "status_reach E url ttl st \<Longrightarrow> status_reach E url ttl (snd (status_is_revoked E ctx i st))"
| elapsed: "status_reach E url ttl (s, n) \<Longrightarrow> status_reach E url ttl (s, n')"

definition snapshot_ok :: "string \<Rightarrow> int \<Rightarrow> status_cache \<Rightarrow> bool" where
  "snapshot_ok url ttl s =
     (baseURL s = url \<and> sc_ttl s = ttl \<and>
      (hasSnapshot s \<longrightarrow> bitstring s \<noteq> [] \<and> length (bitstring s) \<le> maxStatusListBytes))"

lemma check_response_list:
  assumes "check_response url resp = Inr buf"
  shows "buf \<noteq> [] \<and> length buf \<le> maxStatusListBytes \<and>
    (\<exists>cl. resp = StatusResponse 200 cl (Inr buf) \<and>
       (\<forall>n. cl \<noteq> '''' \<and> parse_int cl = Some n \<and> 0 \<le> sint n \<longrightarrow> sint n = int (length buf)))"
  using assms
  by (auto simp: check_response_def Let_def split: status_response.splits if_splits sum.splits option.splits)

lemma refresh_snapshot_ok:
  "url \<noteq> '''' \<Longrightarrow> snapshot_ok url ttl (fst st) \<Longrightarrow> snapshot_ok url ttl (fst (snd (refresh E st)))"
  by (auto simp: refresh_def publish_def snapshot_ok_def split_beta Let_def
      dest: check_response_list split: option.splits sum.splits)

lemma refresh_published:
  "hasSnapshot (fst st) \<or> refresh E st = (None, st') \<Longrightarrow> hasSnapshot (fst (snd (refresh E st)))"
  by (auto simp: refresh_def publish_def split_beta Let_def split: option.splits sum.splits if_splits)

lemma ensure_snapshot_ok:
  "url \<noteq> '''' \<Longrightarrow> snapshot_ok url ttl (fst st) \<Longrightarrow> snapshot_ok url ttl (fst (snd (ensure_initial_snapshot E st)))"
  by (simp add: ensure_initial_snapshot_def refresh_snapshot_ok)

lemma refresh_if_expired_ok:
  "url \<noteq> '''' \<Longrightarrow> snapshot_ok url ttl (fst st) \<Longrightarrow> snapshot_ok url ttl (fst (refresh_if_expired E st))"
  using refresh_snapshot_ok [of url ttl "(fst st, _)" E]
  by (simp add: refresh_if_expired_def split_beta Let_def)

lemma refresh_if_expired_published:
  "hasSnapshot (fst st) \<Longrightarrow> hasSnapshot (fst (refresh_if_expired E st))"
  using refresh_published [of "(fst st, _)" E]
  by (simp add: refresh_if_expired_def split_beta Let_def)

lemma status_is_revoked_ok:
  assumes "url \<noteq> ''''" "snapshot_ok url ttl (fst st)"
  shows "snapshot_ok url ttl (fst (snd (status_is_revoked E ctx i st)))"
proof -
  obtain e st1 where en: "ensure_initial_snapshot E st = (e, st1)" by (cases "ensure_initial_snapshot E st")
  have "snapshot_ok url ttl (fst st1)" using ensure_snapshot_ok [OF assms, of E] en by simp
  with assms show ?thesis
    by (auto simp: status_is_revoked_def en Let_def refresh_if_expired_ok split: option.split)
qed

lemma reach_snapshot_ok:
  "status_reach E url ttl st \<Longrightarrow> url \<noteq> '''' \<Longrightarrow> snapshot_ok url ttl (fst st)"
proof (induction rule: status_reach.induct)
  case (fresh n)
  then show ?case by (simp add: snapshot_ok_def new_status_cache_def)
next
  case (warmed st)
  then show ?case by (simp add: warm_up_def ensure_snapshot_ok)
next
  case (asked st ctx i)
  then show ?case by (simp add: status_is_revoked_ok)
qed simp

text \<open>
  C14. With a status list configured, the cache never guesses: whatever happened before, a
  verdict is returned only when a list has been published, the index lies inside it, and the
  verdict is its bit. Every other case (cancelled request, no list yet, index out of range) is
  an error, which block F turns into a rejection.
\<close>

theorem status_fail_closed:
  assumes "status_reach E url ttl st" and "url \<noteq> ''''"
    and "status_is_revoked E ctx i st = (Inr b, st')"
  shows "hasSnapshot (fst st') \<and> length (bitstring (fst st')) \<le> 2 ^ 20 \<and>
    unat i < length (bits_of (bitstring (fst st'))) \<and> b = bits_of (bitstring (fst st')) ! unat i"
proof -
  obtain st1 where en: "ensure_initial_snapshot E st = (None, st1)" and "ctx = None"
    and st': "st' = refresh_if_expired E st1" and b: "lookup_bit i (bitstring (fst st')) = Inr b"
    using assms(3) by (auto simp: status_is_revoked_def Let_def split: option.splits prod.splits)
  have "hasSnapshot (fst st1)"
    using en refresh_published [of st E] by (auto simp: ensure_initial_snapshot_def split: if_splits)
  then have pub: "hasSnapshot (fst st')" by (simp add: st' refresh_if_expired_published)
  have "snapshot_ok url ttl (fst st')"
    using status_is_revoked_ok [OF assms(2) reach_snapshot_ok [OF assms(1,2)], of E ctx i] assms(3) by simp
  with pub have ne: "bitstring (fst st') \<noteq> []" "length (bitstring (fst st')) \<le> 2 ^ 20"
    by (auto simp: snapshot_ok_def maxStatusListBytes_def)
  with pub lookup_bit_Inr [OF ne(1) b] show ?thesis by simp
qed

text \<open>
  A refresh is all or nothing: when it fails, the previous list stays in force unchanged,
  and when it succeeds, the published list is the complete body of one 200 response, not empty,
  within the size limit and of the length the response announced.
\<close>

theorem refresh_all_or_nothing:
  assumes "baseURL (fst st) \<noteq> ''''"
  shows "(\<exists>e. fst (refresh E st) = Some e \<and> fst (snd (refresh E st)) = fst st) \<or>
    (\<exists>cl buf n. fst (refresh E st) = None \<and>
       se_get E (baseURL (fst st)) (snd st) = (StatusResponse 200 cl (Inr buf), n) \<and>
       bitstring (fst (snd (refresh E st))) = buf \<and> buf \<noteq> [] \<and> length buf \<le> 2 ^ 20 \<and>
       (cl = '''' \<or> parse_int cl = None \<or> sint (the (parse_int cl)) < 0 \<or>
        sint (the (parse_int cl)) = int (length buf)))"
proof (cases "se_request E (baseURL (fst st))")
  case None
  obtain resp n where g: "se_get E (baseURL (fst st)) (snd st) = (resp, n)"
    by (cases "se_get E (baseURL (fst st)) (snd st)")
  show ?thesis
  proof (cases "check_response (baseURL (fst st)) resp")
    case (Inr buf)
    from check_response_list [OF this] obtain cl where "resp = StatusResponse 200 cl (Inr buf)" "buf \<noteq> []"
        "length buf \<le> maxStatusListBytes"
        "\<forall>n. cl \<noteq> '''' \<and> parse_int cl = Some n \<and> 0 \<le> sint n \<longrightarrow> sint n = int (length buf)" by blast
    with assms None g Inr show ?thesis
      by (intro disjI2 exI [of _ cl] exI [of _ buf] exI [of _ n])
        (auto simp: refresh_def publish_def split_beta Let_def maxStatusListBytes_def)
  qed (use assms None g in \<open>simp add: refresh_def\<close>)
qed (use assms in \<open>simp add: refresh_def\<close>)

section \<open>The admin endpoint\<close>

definition adminRevokeMaxBodyBytes :: int where
  "adminRevokeMaxBodyBytes = 1024"

text \<open>
  \<open>decode\<close> is the JSON decoder on the limited body stream: an error or the value of
  \<^verbatim>\<open>status_list_index\<close>.
\<close>

definition admin_revoke_handler ::
  "(string \<Rightarrow> byte list) \<Rightarrow> (body_stream \<Rightarrow> string + uint64) \<Rightarrow>
   (uint64 \<Rightarrow> 's \<Rightarrow> string option \<times> 's) \<Rightarrow> string \<Rightarrow> request \<Rightarrow> 's \<Rightarrow> response \<times> 's" where
  "admin_revoke_handler sha decode revoke token r s =
     (if rq_method r \<noteq> ''POST'' then ((405, NoPayload), s)
      else if token = '''' then ((503, ErrorText ''admin endpoint not configured''), s)
      else if sha (''Bearer '' @ token) \<noteq> sha (header_get ''Authorization'' r)
      then ((401, ErrorText ''unauthorized''), s)
      else case decode (max_bytes_reader adminRevokeMaxBodyBytes (rq_body r)) of
             Inl e \<Rightarrow> ((400, ErrorText e), s)
           | Inr i \<Rightarrow>
               (case revoke i s of
                  (Some e, s') \<Rightarrow> ((500, ErrorText (''revocation did not persist: '' @ e)), s')
                | (None, s') \<Rightarrow> ((200, RevokedIndex i), s')))"

text \<open>
  C16. The admin endpoint reports success exactly when the request is a POST with the
  configured, non-empty token and a decodable index, and the store has persisted the
  revocation; unless the storage itself failed (500), every other answer leaves the store as it
  was. The only assumption is that SHA-256 does not collide on the two header values.
\<close>

theorem admin_revoke_exact:
  assumes "inj_on sha {''Bearer '' @ token, header_get ''Authorization'' r}"
  shows "(fst (admin_revoke_handler sha decode (file_revoke w) token r s) = (200, RevokedIndex i) \<longleftrightarrow>
      rq_method r = ''POST'' \<and> token \<noteq> '''' \<and> header_get ''Authorization'' r = ''Bearer '' @ token \<and>
      decode (max_bytes_reader 1024 (rq_body r)) = Inr i \<and> fst (file_revoke w i s) = None) \<and>
    (fst (fst (admin_revoke_handler sha decode (file_revoke w) token r s)) \<in> {400, 401, 405, 503} \<longrightarrow>
      snd (admin_revoke_handler sha decode (file_revoke w) token r s) = s)"
proof -
  have "sha (''Bearer '' @ token) = sha (header_get ''Authorization'' r) \<longleftrightarrow>
      header_get ''Authorization'' r = ''Bearer '' @ token"
    using inj_on_eq_iff [OF assms] by auto
  then show ?thesis
    by (auto simp: admin_revoke_handler_def adminRevokeMaxBodyBytes_def
        split: sum.splits prod.splits option.splits)
qed

definition demo_admin_request :: request where
  "demo_admin_request =
     \<lparr>rq_method = ''POST'', rq_path = ''/admin/revoke'', rq_header = [(''Authorization'', ''Bearer t'')],
      rq_remote = ''10.0.0.9:999'', rq_body = ('''', AtEOF), rq_context = None\<rparr>"

lemma demo_admin_header: "header_get ''Authorization'' demo_admin_request = ''Bearer t''"
  by code_simp

theorem admin_revoke_exact_witness:
  "fst (admin_revoke_handler (\<lambda>s. map (\<lambda>c. word_of_nat (of_char c)) (take 32 s)) (\<lambda>b. Inr 7) (file_revoke WriteOk)
     ''t'' demo_admin_request empty_file_store) = (200, RevokedIndex 7)"
  using admin_revoke_exact [of "\<lambda>s. map (\<lambda>c. word_of_nat (of_char c)) (take 32 s)" "''t''"
      demo_admin_request "\<lambda>b. Inr 7" WriteOk empty_file_store 7]
  by (simp add: demo_admin_header) (simp add: demo_admin_request_def file_revoke_def empty_file_store_def)

definition demo_status_env :: "int status_env" where
  "demo_status_env =
     \<lparr>se_clock = (\<lambda>t. (t, t + 1)), se_request = (\<lambda>u. None),
      se_get = (\<lambda>u t. (StatusResponse 200 '''' (Inr [0x80, 0]), t))\<rparr>"

lemma demo_refresh:
  "refresh demo_status_env (new_status_cache ''u'' 300, 0) =
     (None, (\<lparr>bitstring = [0x80, 0], fetchedAt = 0, hasSnapshot = True, sc_ttl = 300, baseURL = ''u''\<rparr>, 1))"
  by (simp add: refresh_def new_status_cache_def demo_status_env_def check_response_def
      maxStatusListBytes_def publish_def)

theorem refresh_all_or_nothing_witness:
  "fst (refresh demo_status_env (new_status_cache ''u'' 300, 0)) = None \<and>
   bitstring (fst (snd (refresh demo_status_env (new_status_cache ''u'' 300, 0)))) \<noteq> []"
  using refresh_all_or_nothing [of "(new_status_cache ''u'' 300, 0)" demo_status_env] demo_refresh
  by (auto simp: new_status_cache_def)

theorem status_fail_closed_witness:
  "True = bits_of [0x80, 0] ! unat (0 :: uint64)"
proof -
  let ?st = "(new_status_cache ''u'' 300, 0) :: status_cache \<times> int"
  have "status_is_revoked demo_status_env None 0 ?st =
      (Inr True, (\<lparr>bitstring = [0x80, 0], fetchedAt = 0, hasSnapshot = True, sc_ttl = 300, baseURL = ''u''\<rparr>, 2))"
    using demo_refresh
    by (simp add: status_is_revoked_def ensure_initial_snapshot_def)
      (simp add: new_status_cache_def refresh_if_expired_def demo_status_env_def lookup_bit_def get_bit_def)
  from status_fail_closed [OF status_reach.fresh _ this] show ?thesis by simp
qed

end
