(* ===== verification/DRS_Frame.thy ===== *)
theory DRS_Frame
  imports DRS_Verify
begin

text \<open>
  What a verification leaves alone. The operations in \<^verbatim>\<open>Deps\<close> share one state; whenever each of
  them preserves a part of it, so does the whole chain verification. The part of interest is the
  local revocation store, which verification only reads.
\<close>

text \<open>Of the operations, first those of the status list and the receipt store alone.\<close>

definition lookups_frame :: "'w deps \<Rightarrow> ('w \<Rightarrow> 'p) \<Rightarrow> bool" where
  "lookups_frame d part =
     ((\<forall>is_rev i w. Revocation d = Some is_rev \<longrightarrow> part (snd (is_rev i w)) = part w) \<and>
      (\<forall>put get h jwt w. StoreOps d = Some (put, get) \<longrightarrow>
         part (snd (put h jwt w)) = part w \<and> part (snd (get h w)) = part w))"

definition deps_frame :: "'w deps \<Rightarrow> ('w \<Rightarrow> 'p) \<Rightarrow> bool" where
  "deps_frame d part = ((\<forall>did w. part (snd (Resolve d did w)) = part w) \<and> lookups_frame d part)"

lemma lookups_frameD:
  assumes "lookups_frame d part"
  shows "Revocation d = Some is_rev \<Longrightarrow> part (snd (is_rev i w)) = part w"
    and "StoreOps d = Some (put, get) \<Longrightarrow> part (snd (put h jwt w)) = part w"
    and "StoreOps d = Some (put, get) \<Longrightarrow> part (snd (get h w)) = part w"
  using assms by (auto simp: lookups_frame_def)

lemma deps_frameD:
  assumes "deps_frame d part"
  shows "part (snd (Resolve d did w)) = part w" and "lookups_frame d part"
  using assms by (auto simp: deps_frame_def)

lemma resolve_frame:
  assumes "\<And>did w. part (snd (res did w)) = part w"
  shows "part (snd (resolve_issuers_parallel sched res dids w)) = part w"
proof -
  have "part (snd (resolve_each res ds w)) = part w" for ds
    by (induction ds arbitrary: w) (simp_all add: split_beta Let_def assms)
  then show ?thesis by (simp add: resolve_issuers_parallel_def split_beta Let_def)
qed

lemma remote_revocation_frame:
  assumes "\<And>i w. part (snd (is_rev i w)) = part w"
  shows "part (snd (remote_revocation is_rev rs w)) = part w"
proof (induction rs arbitrary: w)
  case (Cons r rs)
  have "part w' = part w" if "is_rev i w = (x, w')" for i x w' using assms [of i w] that by simp
  with Cons show ?case by (auto split: option.split prod.split sum.split)
qed simp

lemma block_f_frame: "lookups_frame d part \<Longrightarrow> part (snd (block_f d rs w)) = part w"
  using remote_revocation_frame [of part] lookups_frameD(1) [of d part]
  by (auto simp: block_f_def split_beta Let_def split: option.split)

lemma store_receipts_frame:
  assumes "\<And>h jwt w. part (snd (put h jwt w)) = part w"
  shows "part (snd (store_receipts pr put jwts w)) = part w"
  by (induction jwts arbitrary: w) (simp_all add: split_beta Let_def assms)

lemma check_timestamps_frame:
  assumes "\<And>h w. part (snd (get h w)) = part w"
  shows "part (snd (check_timestamps pr get vts i jwts w)) = part w"
  by (induction jwts arbitrary: i w) (simp_all add: split_beta Let_def assms)

lemma finish_chain_frame:
  assumes "lookups_frame d part"
  shows "part (snd (finish_chain pr d jwts rs w)) = part w"
proof (cases "StoreOps d")
  case (Some ops)
  obtain put get where "ops = (put, get)" by (cases ops)
  with Some lookups_frameD(2,3) [OF assms] show ?thesis
    by (simp add: finish_chain_def split_beta Let_def store_receipts_frame check_timestamps_frame)
qed (simp add: finish_chain_def)

lemma chain_frame:
  assumes "deps_frame d part"
  shows "part (snd (chain pr sched d now b w)) = part w"
proof -
  note frames = finish_chain_frame [OF deps_frameD(2) [OF assms]] block_f_frame [OF deps_frameD(2) [OF assms]]
    resolve_frame [of part, OF deps_frameD(1) [OF assms]]
  have "part (snd (chain_decoded pr sched d now b rs iv w)) = part w" for rs iv
    by (simp add: chain_decoded_def split_beta Let_def frames split: option.split sum.split)
  then show ?thesis by (simp add: chain_def split: option.split)
qed

lemma lookups_frame_timestamps: "lookups_frame (d\<lparr>IncludeTimestamps := x\<rparr>) part = lookups_frame d part"
  by (simp add: lookups_frame_def)

lemma deps_frame_timestamps: "deps_frame (d\<lparr>IncludeTimestamps := x\<rparr>) part = deps_frame d part"
  by (simp add: deps_frame_def lookups_frame_timestamps)

text \<open>A chain with a locally revoked receipt is not reported valid.\<close>

lemma revoked_not_valid:
  assumes "deps_frame d part" and "LocalRevoked d = Some (\<lambda>i w. revoked i (part w))"
    and "decode_bundle_receipts pr b = Some rs" and "r \<in> set rs" and "dr_DrsStatusListIndex r = Some i"
    and "revoked i (part w)" and "chain pr sched d now b w = (Some res, w')"
  shows "\<not> Valid res"
proof
  assume "Valid res"
  with assms(7) have "\<exists>res w'. chain pr sched d now b w = (Some res, w') \<and> Valid res" by blast
  then obtain iv keys w1 w2 where
      r: "resolve_issuers_parallel sched (Resolve d) (issuer_dids rs iv) w = (Some (Inr keys), w1)"
    and f: "block_f d rs w1 = (None, w2)"
    unfolding chain_valid_spec using assms(3) by auto
  have "part w2 = part w"
    using resolve_frame [of part "Resolve d" sched "issuer_dids rs iv" w] deps_frameD(1) [OF assms(1)]
      block_f_frame [OF deps_frameD(2) [OF assms(1)], of rs w1] r f by simp
  moreover have "local_revocation (\<lambda>j. revoked j (part w2)) rs = None"
    using f assms(2) by (auto simp: block_f_def Let_def split: option.splits prod.splits)
  moreover have "local_revocation (\<lambda>j. revoked j (part w)) rs = Some REVOKED"
    using assms(4,5,6) by (auto simp: local_revocation_Some)
  ultimately show False by simp
qed

end
