(* ===== verification/DRS_Server.thy ===== *)
theory DRS_Server
  imports DRS_Config DRS_Middleware DRS_RateLimit DRS_Status DRS_Frame
begin

text \<open>
  \<^verbatim>\<open>cmd/server/main.go\<close> and \<^verbatim>\<open>pkg/health/handler.go\<close>: the endpoints, the routing, the choice of the
  components from the configuration, runs of the server over a sequence of requests, and the life
  of the process from the environment to its exit status (with \<^verbatim>\<open>StartServer\<close> of
  \<^verbatim>\<open>pkg/metrics/metrics.go\<close>). Log lines and timeouts are not modelled, metrics
  in \<open>DRS_Metrics\<close>.
\<close>

section \<open>Health endpoints\<close>

definition liveness :: response where
  "liveness = (200, HealthBody ''ok'')"

definition readiness :: "status_cache option \<Rightarrow> response" where
  "readiness sc =
     (if (case sc of None \<Rightarrow> True | Some c \<Rightarrow> ready c) then (200, HealthBody ''ready'')
      else (503, HealthBody ''not_ready''))"

text \<open>The multiplexer of \<^verbatim>\<open>health.Handler\<close>; \<^verbatim>\<open>main\<close> mounts it at its two paths.\<close>

definition health_handler :: "status_cache option \<Rightarrow> string \<Rightarrow> response" where
  "health_handler sc path =
     (if path = ''/healthz'' then liveness
      else if path = ''/readyz'' then readiness sc
      else (404, ErrorText ''404 page not found''))"

lemma health_handler_simps [simp]:
  "health_handler sc ''/healthz'' = liveness" "health_handler sc ''/readyz'' = readiness sc"
  by (simp_all add: health_handler_def)

section \<open>The verification endpoint\<close>

record verify_request =
  vr_bundle :: chain_bundle
  vr_include_timestamps :: bool
  vr_body :: string

datatype decode_error = DecodeTooLarge | DecodeFailed string

text \<open>The JSON decoder on the limited body stream, and \<^verbatim>\<open>json.Unmarshal\<close> into \<^verbatim>\<open>interface{}\<close>.\<close>

record verify_json =
  decode_verify :: "body_stream \<Rightarrow> decode_error + verify_request"
  json_value :: "string \<Rightarrow> gval option"

definition is_valid_json :: "verify_json \<Rightarrow> string \<Rightarrow> bool" where
  "is_valid_json vj raw = (json_value vj raw \<noteq> None)"

definition compute_binding_result :: "json_ops \<Rightarrow> verify_json \<Rightarrow> string \<Rightarrow> string \<Rightarrow> binding_label" where
  "compute_binding_result js vj body invocation =
     (case decode_invocation_args js invocation of
        None \<Rightarrow> BindInvalidBody
      | Some a \<Rightarrow>
          if \<not> is_valid_json vj body then BindInvalidBody
          else if binding_check js body a \<noteq> None then BindMismatch else BindMatch)"

definition verify_handler ::
  "prims \<Rightarrow> json_ops \<Rightarrow> verify_json \<Rightarrow> (string list \<Rightarrow> string list) \<Rightarrow> int64 \<Rightarrow> 'w deps \<Rightarrow>
   (string \<Rightarrow> 'n \<Rightarrow> nonce_error option \<times> 'n) option \<Rightarrow> int64 \<Rightarrow> ('w \<times> 'n) handler" where
  "verify_handler pr js vj sched now d ns max_body r s =
     (if rq_method r \<noteq> ''POST'' then (Some (405, ErrorText ''method not allowed''), s)
      else case decode_verify vj (max_bytes_reader (sint max_body) (rq_body r)) of
             Inl DecodeTooLarge \<Rightarrow> (Some (413, ErrorText ''REQUEST_BODY_TOO_LARGE''), s)
           | Inl (DecodeFailed e) \<Rightarrow> (Some (400, ErrorText e), s)
           | Inr req \<Rightarrow>
               (case chain pr sched (d\<lparr>IncludeTimestamps := vr_include_timestamps req\<rparr>) now (vr_bundle req) (fst s) of
                  (None, w) \<Rightarrow> (None, (w, snd s))
                | (Some result, w) \<Rightarrow>
                    if Valid result
                    then let result' = (if 0 < length (vr_body req)
                               then result\<lparr>Binding := compute_binding_result js vj (vr_body req)
                                                      (Invocation (vr_bundle req))\<rparr>
                               else result)
                         in (case check_nonce_replay js (Invocation (vr_bundle req)) ns (snd s) of
                               (Some resp, n) \<Rightarrow> (Some resp, (w, n))
                             | (None, n) \<Rightarrow> (Some (200, VerifyBody result'), (w, n)))
                    else (Some (200, VerifyBody result), (w, snd s))))"

section \<open>The server\<close>

text \<open>
  The parts that \<^verbatim>\<open>main\<close> wires together. \<open>'f\<close> is the behaviour of the revocation storage during a
  call, \<open>'n\<close> the state of the nonce checker, whose \<open>sv_check\<close> takes the clock reading.
\<close>

record ('w, 'n, 'f, 'c, 'l) server =
  sv_prims :: prims
  sv_json :: json_ops
  sv_verify_json :: verify_json
  sv_deps :: "'w deps"
  sv_check :: "int \<Rightarrow> string \<Rightarrow> 'n \<Rightarrow> nonce_error option \<times> 'n"
  sv_max_body :: int64
  sv_status :: "'w \<Rightarrow> status_cache option"
  sv_revoke :: "'f \<Rightarrow> uint64 \<Rightarrow> 'w \<Rightarrow> string option \<times> 'w"
  sv_admin_decode :: "body_stream \<Rightarrow> string + uint64"
  sv_token :: string
  sv_limiter :: "'l limiter_ops"
  sv_lru :: "(nat, 'c) lru"
  sv_oor :: int
  sv_parse_ip :: "string \<Rightarrow> byte list option"

text \<open>Everything that the environment contributes to one request: clock readings, the scheduler.\<close>

record 'f occasion =
  oc_limit :: "int \<times> int"
  oc_admin :: "int \<times> int"
  oc_sched :: "string list \<Rightarrow> string list"
  oc_now :: int64
  oc_nonce :: int
  oc_storage :: 'f

type_synonym ('w, 'n, 'c, 'l) server_state =
  "('c, 'l) rate_limiter \<times> ('c, 'l) rate_limiter \<times> 'w \<times> 'n"

definition admin_handler ::
  "('w, 'n, 'f, 'c, 'l) server \<Rightarrow> 'f occasion \<Rightarrow> ('w \<times> 'n) handler" where
  "admin_handler S oc r s =
     (let (resp, w) = admin_revoke_handler (sha256 (sv_prims S)) (sv_admin_decode S)
                        (sv_revoke S (oc_storage oc)) (sv_token S) r (fst s)
      in (Some resp, (w, snd s)))"

text \<open>The patterns that \<^verbatim>\<open>main\<close> registers on the multiplexer are exact paths.\<close>

definition serve_mux ::
  "('w, 'n, 'f, 'c, 'l) server \<Rightarrow> 'f occasion \<Rightarrow> (('c, 'l) rate_limiter \<times> 'w \<times> 'n) handler" where
  "serve_mux S oc r st =
     (let (adm, s) = st in
      if rq_path r = ''/healthz'' \<or> rq_path r = ''/readyz''
      then (Some (health_handler (sv_status S (fst s)) (rq_path r)), st)
      else if rq_path r = ''/verify''
      then let (resp, s') = verify_handler (sv_prims S) (sv_json S) (sv_verify_json S) (oc_sched oc)
                              (oc_now oc) (sv_deps S) (Some (sv_check S (oc_nonce oc))) (sv_max_body S) r s
           in (resp, (adm, s'))
      else if rq_path r = ''/admin/revoke''
      then rate_middleware (sv_limiter S) (sv_lru S) (sv_oor S) (sv_parse_ip S) (oc_admin oc)
             (admin_handler S oc) r (adm, s)
      else (Some (404, ErrorText ''404 page not found''), st))"

definition serve ::
  "('w, 'n, 'f, 'c, 'l) server \<Rightarrow> 'f occasion \<Rightarrow> ('w, 'n, 'c, 'l) server_state handler" where
  "serve S oc =
     rate_middleware (sv_limiter S) (sv_lru S) (sv_oor S) (sv_parse_ip S) (oc_limit oc) (serve_mux S oc)"

text \<open>A run of the server: one request after the other, until the first crash.\<close>

fun serve_all ::
  "('w, 'n, 'f, 'c, 'l) server \<Rightarrow> ('f occasion \<times> request) list \<Rightarrow> ('w, 'n, 'c, 'l) server_state \<Rightarrow>
   response option list \<times> ('w, 'n, 'c, 'l) server_state" where
  "serve_all S [] st = ([], st)"
| "serve_all S ((oc, r) # calls) st =
     (case serve S oc r st of
        (None, st1) \<Rightarrow> ([None], st1)
      | (Some resp, st1) \<Rightarrow> (let (resps, st2) = serve_all S calls st1 in (Some resp # resps, st2)))"

section \<open>What one request can do\<close>

lemma rate_middleware_pass:
  assumes "rate_middleware B L oor parse ts nxt r (rl, s) = (resp, (rl', s'))"
  shows "resp = Some reject_too_many_requests \<and> s' = s \<or> nxt r s = (resp, s')"
  using assms by (auto simp: rate_middleware_def Let_def split: prod.splits if_splits)

lemma verify_handler_valid:
  "verify_handler pr js vj sched now d ns mb r s = (Some (200, VerifyBody res), s') \<and> Valid res \<longleftrightarrow>
    rq_method r = ''POST'' \<and>
    (\<exists>req result. decode_verify vj (max_bytes_reader (sint mb) (rq_body r)) = Inr req \<and>
       chain pr sched (d\<lparr>IncludeTimestamps := vr_include_timestamps req\<rparr>) now (vr_bundle req) (fst s)
         = (Some result, fst s') \<and> Valid result \<and>
       check_nonce_replay js (Invocation (vr_bundle req)) ns (snd s) = (None, snd s') \<and>
       res = (if vr_body req = '''' then result
              else result\<lparr>Binding := compute_binding_result js vj (vr_body req) (Invocation (vr_bundle req))\<rparr>))"
  by (auto simp: verify_handler_def Let_def
      split: sum.splits decode_error.splits prod.splits option.splits if_splits
      dest: check_nonce_replay_Some)

lemma check_nonce_replay_path:
  "check_nonce_replay js jwt (Some (check t)) n = (resp, n') \<Longrightarrow> check_path check t n n'"
  by (auto simp: check_nonce_replay_def split: option.splits prod.splits nonce_error.splits if_splits
      intro: check_path.intros)

lemma verify_handler_nonce:
  "verify_handler pr js vj sched now d (Some (check t)) mb r s = (resp, s') \<Longrightarrow> check_path check t (snd s) (snd s')"
  by (auto simp: verify_handler_def Let_def
      split: sum.splits decode_error.splits prod.splits option.splits if_splits
      intro: check_path.intros check_nonce_replay_path)

lemma verify_handler_world:
  assumes "verify_handler pr js vj sched now d ns mb r s = (resp, s')" and "deps_frame d part"
  shows "part (fst s') = part (fst s)"
proof -
  have "part w = part (fst s)" if "chain pr sched (d\<lparr>IncludeTimestamps := x\<rparr>) now b (fst s) = (out, w)" for x b out w
    using chain_frame [of "d\<lparr>IncludeTimestamps := x\<rparr>" part pr sched now b "fst s"] assms(2) that
    by (simp add: deps_frame_timestamps)
  with assms(1) show ?thesis
    by (auto simp: verify_handler_def Let_def
        split: sum.splits decode_error.splits prod.splits option.splits if_splits)
qed

lemma admin_handler_effect:
  assumes "admin_handler S oc r s = (resp, s')"
  shows "snd s' = snd s" and "fst s' = fst s \<or> (\<exists>i e. sv_revoke S (oc_storage oc) i (fst s) = (e, fst s'))"
    and "resp = Some (200, RevokedIndex i) \<Longrightarrow> sv_revoke S (oc_storage oc) i (fst s) = (None, fst s')"
    and "resp \<noteq> Some (200, VerifyBody res)"
  using assms
  by (auto simp: admin_handler_def admin_revoke_handler_def split: sum.splits prod.splits option.splits if_splits)

text \<open>The endpoints behind the two limiters, as an elimination rule.\<close>

lemma serve_cases:
  assumes "serve S oc r (rl, adm, s) = (resp, (rl', adm', s'))"
  obtains (none) "s' = s" "\<And>res. resp \<noteq> Some (200, VerifyBody res)" "\<And>i. resp \<noteq> Some (200, RevokedIndex i)"
      "resp \<noteq> None"
  | (verify) "verify_handler (sv_prims S) (sv_json S) (sv_verify_json S) (oc_sched oc) (oc_now oc) (sv_deps S)
        (Some (sv_check S (oc_nonce oc))) (sv_max_body S) r s = (resp, s')"
      "rq_path r = ''/verify''"
  | (admin) "admin_handler S oc r s = (resp, s')" "rq_path r = ''/admin/revoke''"
proof -
  note out = reject_too_many_requests_def liveness_def readiness_def
  from rate_middleware_pass [OF assms [unfolded serve_def]]
  consider "resp = Some reject_too_many_requests" "s' = s" | "serve_mux S oc r (adm, s) = (resp, (adm', s'))"
    by auto
  then show thesis
  proof cases
    case 1
    then show ?thesis by (intro none) (auto simp: out)
  next
    case 2
    then show ?thesis
    proof (cases "rq_path r = ''/admin/revoke''")
      case True
      with 2 have "rate_middleware (sv_limiter S) (sv_lru S) (sv_oor S) (sv_parse_ip S) (oc_admin oc)
          (admin_handler S oc) r (adm, s) = (resp, (adm', s'))" by (simp add: serve_mux_def)
      from rate_middleware_pass [OF this] show ?thesis
      proof
        assume "resp = Some reject_too_many_requests \<and> s' = s"
        then show ?thesis by (intro none) (auto simp: out)
      qed (use admin True in blast)
    next
      case False
      show ?thesis
      proof (cases "rq_path r = ''/verify''")
        case True
        with 2 show ?thesis by (intro verify) (auto simp: serve_mux_def split: prod.splits)
      next
        case no_verify: False
        with 2 False show ?thesis by (intro none) (auto simp: serve_mux_def out split: if_splits)
      qed
    qed
  qed
qed

lemma serve_nonce:
  assumes "serve S oc r (rl, adm, w, n) = (resp, (rl', adm', w', n'))"
  shows "check_path (sv_check S) (oc_nonce oc) n n'"
  using assms
proof (cases rule: serve_cases)
  case verify
  from verify_handler_nonce [where check = "sv_check S", OF verify(1)] show ?thesis by simp
next
  case admin
  from admin_handler_effect(1) [OF admin(1)] show ?thesis by (simp add: check_path.path_stay)
qed (simp add: check_path.path_stay)

lemma serve_world:
  assumes "serve S oc r (rl, adm, w, n) = (resp, (rl', adm', w', n'))" and "deps_frame (sv_deps S) part"
  shows "part w' = part w \<or> (\<exists>i e. sv_revoke S (oc_storage oc) i w = (e, w'))"
  using assms(1)
proof (cases rule: serve_cases)
  case verify
  from verify_handler_world [OF verify(1) assms(2)] show ?thesis by simp
next
  case admin
  from admin_handler_effect(2) [OF admin(1)] show ?thesis by auto
qed simp

lemma serve_valid:
  assumes "serve S oc r (rl, adm, w, n) = (Some (200, VerifyBody res), (rl', adm', w', n'))"
  shows "\<exists>req result. decode_verify (sv_verify_json S) (max_bytes_reader (sint (sv_max_body S)) (rq_body r)) = Inr req \<and>
    chain (sv_prims S) (oc_sched oc) ((sv_deps S)\<lparr>IncludeTimestamps := vr_include_timestamps req\<rparr>) (oc_now oc)
      (vr_bundle req) w = (Some result, w') \<and> Valid result = Valid res \<and>
    (Valid res \<longrightarrow> (\<exists>jti. decode_invocation_jti (sv_json S) (Invocation (vr_bundle req)) = Some jti \<and>
       sv_check S (oc_nonce oc) jti n = (None, n')))"
  using assms
proof (cases rule: serve_cases)
  case verify
  then show ?thesis
    by (auto simp: verify_handler_def Let_def check_nonce_replay_None
        split: sum.splits decode_error.splits prod.splits option.splits if_splits
        dest: check_nonce_replay_Some)
next
  case admin
  with admin_handler_effect(4) [OF admin(1)] show ?thesis by blast
qed blast

lemma serve_all_nonce:
  assumes "serve_all S calls (rl, adm, w, n) = (resps, (rl', adm', w', n'))"
    and "\<forall>c \<in> set calls. oc_nonce (fst c) \<le> T"
  shows "check_path (sv_check S) T n n'"
  using assms
proof (induction calls arbitrary: rl adm w n resps)
  case (Cons c calls)
  obtain oc r where c: "c = (oc, r)" by (cases c)
  obtain out rl1 adm1 w1 n1 where step: "serve S oc r (rl, adm, w, n) = (out, (rl1, adm1, w1, n1))"
    by (metis prod.exhaust)
  have first: "check_path (sv_check S) T n n1"
    using serve_nonce [OF step] Cons.prems(2) c by (auto intro: check_path_mono)
  show ?case
  proof (cases out)
    case None
    with Cons.prems(1) c step first show ?thesis by simp
  next
    case (Some x)
    with Cons.prems(1) c step obtain resps1 where
        "serve_all S calls (rl1, adm1, w1, n1) = (resps1, (rl', adm', w', n'))" by (auto split: prod.splits)
    with Cons.IH Cons.prems(2) first show ?thesis by (auto intro: check_path_trans)
  qed
qed (simp add: check_path.path_stay)

section \<open>Revocation through the server\<close>

text \<open>The revocation store as the first part of the state that the components share.\<close>

definition on_first ::
  "('f \<Rightarrow> uint64 \<Rightarrow> 's \<Rightarrow> string option \<times> 's) \<Rightarrow> 'f \<Rightarrow> uint64 \<Rightarrow> 's \<times> 'v \<Rightarrow> string option \<times> 's \<times> 'v" where
  "on_first op f i w = (let (e, s) = op f i (fst w) in (e, (s, snd w)))"

context local_store
begin

lemma serve_keeps_revoked:
  assumes "sv_revoke S = on_first revoke" and "deps_frame (sv_deps S) fst" and "is_revoked i (fst w)"
    and "serve S oc r (rl, adm, w, n) = (resp, (rl', adm', w', n'))"
  shows "is_revoked i (fst w')"
  using serve_world [OF assms(4,2)]
proof
  assume "\<exists>j e. sv_revoke S (oc_storage oc) j w = (e, w')"
  then obtain j where "fst w' = snd (revoke (oc_storage oc) j (fst w))"
    using assms(1) by (auto simp: on_first_def split_beta)
  with revoke_keeps [OF assms(3)] show ?thesis by simp
qed (use assms(3) in simp)

lemma serve_all_keeps_revoked:
  assumes "sv_revoke S = on_first revoke" and "deps_frame (sv_deps S) fst" and "is_revoked i (fst w)"
    and "serve_all S calls (rl, adm, w, n) = (resps, (rl', adm', w', n'))"
  shows "is_revoked i (fst w')"
  using assms(3,4)
proof (induction calls arbitrary: rl adm w n resps)
  case (Cons c calls)
  obtain oc r where c: "c = (oc, r)" by (cases c)
  obtain out rl1 adm1 w1 n1 where step: "serve S oc r (rl, adm, w, n) = (out, (rl1, adm1, w1, n1))"
    by (metis prod.exhaust)
  with serve_keeps_revoked [OF assms(1,2) Cons.prems(1)] have "is_revoked i (fst w1)" .
  with Cons.IH Cons.prems(2) c step show ?case
    by (cases out) (auto split: prod.splits)
qed simp

lemma revoked_is_refused:
  assumes "sv_revoke S = on_first revoke" and "deps_frame (sv_deps S) fst"
    and "LocalRevoked (sv_deps S) = Some (\<lambda>j w. is_revoked j (fst w))"
    and "serve S oc1 r1 (rl, adm, w, n) = (Some (200, RevokedIndex i), (rl1, adm1, w1, n1))"
    and "serve_all S calls (rl1, adm1, w1, n1) = (resps, (rl2, adm2, w2, n2))"
    and "serve S oc2 r2 (rl2, adm2, w2, n2) = (Some (200, VerifyBody res), st)"
    and "decode_verify (sv_verify_json S) (max_bytes_reader (sint (sv_max_body S)) (rq_body r2)) = Inr req"
    and "decode_bundle_receipts (sv_prims S) (vr_bundle req) = Some rs" and "r \<in> set rs"
    and "dr_DrsStatusListIndex r = Some i"
  shows "\<not> Valid res"
proof -
  have rev: "is_revoked i (fst w1)"
    using assms(4)
  proof (cases rule: serve_cases)
    case verify
    then show ?thesis
      by (auto simp: verify_handler_def check_nonce_replay_def Let_def
          split: sum.splits decode_error.splits prod.splits option.splits nonce_error.splits if_splits)
  next
    case admin
    from admin_handler_effect(3) [OF admin(1) refl] assms(1) have "revoke (oc_storage oc1) i (fst w) = (None, fst w1)"
      by (auto simp: on_first_def split_beta prod_eq_iff)
    then show ?thesis by (rule revoke_ok)
  qed blast
  obtain rl3 adm3 w3 n3 where st: "st = (rl3, adm3, w3, n3)" by (cases st)
  from serve_valid [OF assms(6) [unfolded st]] assms(7) obtain result where
      v: "chain (sv_prims S) (oc_sched oc2) ((sv_deps S)\<lparr>IncludeTimestamps := vr_include_timestamps req\<rparr>)
        (oc_now oc2) (vr_bundle req) w2 = (Some result, w3)" "Valid result = Valid res" by auto
  have "\<not> Valid result"
    by (rule revoked_not_valid [where part = fst and revoked = is_revoked, OF _ _ assms(8,9,10) _ v(1)])
      (use serve_all_keeps_revoked [OF assms(1,2) rev assms(5)] assms(2,3) in \<open>simp_all add: deps_frame_timestamps\<close>)
  with v(2) show ?thesis by simp
qed

end

section \<open>Wiring from the configuration\<close>

datatype store_plan = MemoryTier | FilesystemTier string | AnchoredTier string string

datatype nonce_plan = RedisNonces string int | MemoryNonces int int

datatype log_format = TextLog | JSONLog

record server_plan =
  pl_log_level :: string
  pl_log_format :: log_format
  pl_resolver :: "int \<times> int \<times> int \<times> int"
  pl_status :: "(string \<times> int) option"
  pl_revocation :: "string option"
  pl_store :: store_plan
  pl_tsa_roots :: bool
  pl_identity :: string
  pl_max_age :: int
  pl_nonce :: nonce_plan
  pl_limits :: "f64 \<times> f64 \<times> bool"
  pl_admin_limits :: "f64 \<times> f64 \<times> bool"
  pl_tls :: "(string \<times> string) option"

definition log_level :: "string \<Rightarrow> string" where
  "log_level l = (if l = ''debug'' then ''debug'' else if l = ''warn'' then ''warn''
     else if l = ''error'' then ''error'' else ''info'')"

definition choose_log_format :: "string \<Rightarrow> log_format" where
  "choose_log_format f = (if f = ''json'' then JSONLog else TextLog)"

text \<open>TLS is on when both files are named; one without the other stops the process.\<close>

definition tls_enabled :: "config \<Rightarrow> bool" where
  "tls_enabled cfg = (TLSCertFile cfg \<noteq> '''' \<and> TLSKeyFile cfg \<noteq> '''')"

definition check_tls :: "config \<Rightarrow> string option" where
  "check_tls cfg =
     guard_err ((TLSCertFile cfg = '''') \<noteq> (TLSKeyFile cfg = ''''))
       ''TLS misconfigured: set BOTH TLS_CERT_FILE and TLS_KEY_FILE, or neither''"

lemmas tls_defs [simp] = tls_enabled_def check_tls_def

definition choose_store :: "config \<Rightarrow> store_plan" where
  "choose_store cfg =
     (if StoreDir cfg \<noteq> ''''
      then if TSAURL cfg \<noteq> '''' then AnchoredTier (StoreDir cfg) (TSAURL cfg) else FilesystemTier (StoreDir cfg)
      else MemoryTier)"

definition choose_nonce :: "config \<Rightarrow> nonce_plan" where
  "choose_nonce cfg =
     (if NonceStoreBackend cfg = ''redis''
      then RedisNonces (RedisURL cfg) (seconds_duration (NonceStoreTTLSecs cfg))
      else MemoryNonces (sint (NonceStoreMaxEntries cfg)) (seconds_duration (NonceStoreTTLSecs cfg)))"

text \<open>What the fallible constructors that \<^verbatim>\<open>main\<close> calls answer, in the order of the calls.\<close>

record init_errors =
  ie_resolver :: "string option"
  ie_revocation :: "string option"
  ie_store :: "string option"
  ie_no_certificates :: bool
  ie_redis :: "string option"

definition startup_error :: "config \<Rightarrow> init_errors \<Rightarrow> string option" where
  "startup_error cfg ie = first_error
     [ie_resolver ie,
      if RevocationStorePath cfg \<noteq> '''' then ie_revocation ie else None,
      ie_store ie,
      guard_err (TSARootCertPEM cfg \<noteq> '''' \<and> ie_no_certificates ie)
        ''TSA_ROOT_CERT_PEM: no valid certificates found in PEM data'',
      if NonceStoreBackend cfg = ''redis'' then ie_redis ie else None,
      check_tls cfg]"

definition startup :: "config \<Rightarrow> init_errors \<Rightarrow> string + server_plan" where
  "startup cfg ie =
     (case startup_error cfg ie of
        Some e \<Rightarrow> Inl e
      | None \<Rightarrow> Inr
          \<lparr>pl_log_level = log_level (LogLevel cfg),
           pl_log_format = choose_log_format (LogFormat cfg),
           pl_resolver = (sint (DidCacheSize cfg), seconds_duration (DidCacheTTLSecs cfg),
                          sint (CircuitBreakerThreshold cfg), seconds_duration (CircuitBreakerCooldownSecs cfg)),
           pl_status = (if StatusListBaseURL cfg \<noteq> ''''
                        then Some (StatusListBaseURL cfg, seconds_duration (StatusListCacheTTLSecs cfg)) else None),
           pl_revocation = (if RevocationStorePath cfg \<noteq> '''' then Some (RevocationStorePath cfg) else None),
           pl_store = choose_store cfg,
           pl_tsa_roots = (TSARootCertPEM cfg \<noteq> ''''),
           pl_identity = cfg_ServerIdentity cfg,
           pl_max_age = seconds_duration (NonceStoreTTLSecs cfg),
           pl_nonce = choose_nonce cfg,
           pl_limits = (RateLimitPerIP cfg, RateLimitGlobal cfg, TrustProxy cfg),
           pl_admin_limits = (Finite 1, Finite 5, TrustProxy cfg),
           pl_tls = (if tls_enabled cfg
                     then Some (TLSCertFile cfg, TLSKeyFile cfg) else None)\<rparr>)"

definition warn_if_server_identity_unset :: "string \<Rightarrow> bool" where
  "warn_if_server_identity_unset identity = (identity = '''')"

fun nonce_plan_ttl :: "nonce_plan \<Rightarrow> int" where
  "nonce_plan_ttl (RedisNonces _ t) = t"
| "nonce_plan_ttl (MemoryNonces _ t) = t"

lemma seconds_duration_exact:
  assumes "0 \<le> sint n" and "sint n * second < 2 ^ 63"
  shows "seconds_duration n = sint n * second" and "duration_secs (seconds_duration n) = sint n"
proof -
  show "seconds_duration n = sint n * second"
    using assms by (simp add: seconds_duration_def second_def sint_word_ariths signed_take_bit_int_eq_self)
  then show "duration_secs (seconds_duration n) = sint n" by simp
qed

text \<open>
  C37. How every server that starts is wired. The freshness bound of invocations and the lifetime of
  nonces are the same duration; if the configured seconds are positive and their nanoseconds fit
  an int64, it is the configured one, and a freshness check that passes means that the
  invocation is at most that many seconds old (by the int64 difference to the clock). The
  configuration does not enforce this condition: outside it, neither age nor replay is
  checked (\<open>nonpositive_ttl_disables_replay_protection\<close>). Replay state is shared through Redis
  whenever a proxy is trusted, receipts are timestamped exactly when both a directory and an
  authority are configured, and TLS is on with both files or off with neither.
\<close>

theorem startup_consistent:
  assumes "load_config pf getenv = Inr cfg" and "startup cfg ie = Inr plan"
  shows "pl_max_age plan = nonce_plan_ttl (pl_nonce plan) \<and>
    (0 < sint (NonceStoreTTLSecs cfg) \<and> sint (NonceStoreTTLSecs cfg) * second < 2 ^ 63 \<longrightarrow>
       nonce_plan_ttl (pl_nonce plan) = sint (NonceStoreTTLSecs cfg) * second \<and>
       (\<forall>now iat. check_freshness now (pl_max_age plan) iat = None \<longrightarrow>
          sint (now - iat) \<le> sint (NonceStoreTTLSecs cfg))) \<and>
    (snd (snd (pl_limits plan)) \<longrightarrow> (\<exists>url t. pl_nonce plan = RedisNonces url t \<and> url \<noteq> '''')) \<and>
    ((\<exists>dir tsa. pl_store plan = AnchoredTier dir tsa) \<longleftrightarrow> StoreDir cfg \<noteq> '''' \<and> TSAURL cfg \<noteq> '''') \<and>
    (pl_tls plan = None \<longleftrightarrow> TLSCertFile cfg = '''' \<and> TLSKeyFile cfg = '''') \<and>
    (ie_resolver ie = None \<and> ie_store ie = None)"
proof -
  have ok: "startup_error cfg ie = None" using assms(2) by (auto simp: startup_def split: option.splits)
  then have "ie_resolver ie = None" "ie_store ie = None" "(TLSCertFile cfg = '''') = (TLSKeyFile cfg = '''')"
    by (auto simp: startup_error_def check_None)
  moreover have "pl_max_age plan = seconds_duration (NonceStoreTTLSecs cfg)" "pl_nonce plan = choose_nonce cfg"
      "pl_store plan = choose_store cfg" "snd (snd (pl_limits plan)) = TrustProxy cfg"
      "pl_tls plan = None \<longleftrightarrow> \<not> (TLSCertFile cfg \<noteq> '''' \<and> TLSKeyFile cfg \<noteq> '''')"
    using assms(2) ok by (auto simp: startup_def split: if_splits)
  moreover have "(\<exists>dir tsa. choose_store cfg = AnchoredTier dir tsa) \<longleftrightarrow> StoreDir cfg \<noteq> '''' \<and> TSAURL cfg \<noteq> ''''"
    by (simp add: choose_store_def)
  moreover have "check_freshness now (seconds_duration (NonceStoreTTLSecs cfg)) iat = None \<longrightarrow>
      sint (now - iat) \<le> sint (NonceStoreTTLSecs cfg)"
    if "0 < sint (NonceStoreTTLSecs cfg) \<and> sint (NonceStoreTTLSecs cfg) * second < 2 ^ 63" for now iat
    using that seconds_duration_exact [of "NonceStoreTTLSecs cfg"]
    by (simp add: check_freshness_None second_def)
  ultimately show ?thesis
    using load_config_backend [OF assms(1)] seconds_duration_exact(1) [of "NonceStoreTTLSecs cfg"]
    by (auto simp: choose_nonce_def)
qed

text \<open>
  The nonce lifetime is not validated: when the configured seconds come out as zero or less
  nanoseconds, which on int64 also happens to large values, the server checks neither the age of
  an invocation nor its replay. The nonce store of such a server never reports a replay.
\<close>

theorem nonpositive_ttl_disables_replay_protection:
  assumes "seconds_duration (NonceStoreTTLSecs cfg) \<le> 0"
    and "startup cfg ie = Inr plan" and "pl_nonce plan = MemoryNonces n t" and "ttl s = t"
    and "\<forall>e \<in> set (seen s). snd e \<le> now"
  shows "fst (nonce_check now jti s) \<noteq> Some ErrReplayDetected \<and>
    check_freshness c (pl_max_age plan) iat = check_freshness c 0 iat"
proof -
  have plan: "t = seconds_duration (NonceStoreTTLSecs cfg)" "pl_max_age plan = seconds_duration (NonceStoreTTLSecs cfg)"
    using assms(2,3) by (auto simp: startup_def choose_nonce_def split: option.splits if_splits)
  then have "duration_secs (ttl s) \<le> 0" using assms(1,4) by (simp add: duration_secs_nonpos)
  with assms(5) have "\<not> nonce_claimed s jti now" by (fastforce simp: nonce_claimed_def dest: map_of_SomeD)
  with plan assms(1) show ?thesis by (simp add: nonce_check_outcome check_freshness_def)
qed

text \<open>The environment of the worked examples: defaults but for a nonce lifetime of ten thousand million seconds.\<close>

definition demo_env :: environment where
  "demo_env key = (if key = ''NONCE_STORE_TTL_SECS'' then ''10000000000'' else '''')"

definition no_init_errors :: init_errors where
  "no_init_errors = \<lparr>ie_resolver = None, ie_revocation = None, ie_store = None, ie_no_certificates = False, ie_redis = None\<rparr>"

lemma demo_env_ttl: "parse_int ''10000000000'' = Some 10000000000"
  by (simp add: parse_int_def dec_value_def code_of_def is_digit_def)

lemma demo_env_loads: "\<exists>cfg. load_config pf demo_env = Inr cfg \<and> NonceStoreTTLSecs cfg = 10000000000 \<and>
   NonceStoreBackend cfg = ''memory'' \<and> RevocationStorePath cfg = '''' \<and> TSARootCertPEM cfg = '''' \<and>
   TLSCertFile cfg = '''' \<and> TLSKeyFile cfg = ''''"
proof -
  have "backend_error False ''memory'' '''' = None" by (simp add: backend_error_None)
  then show ?thesis
    by (simp add: load_config_def get_env_int_def get_env_int64_def get_env_float64_def get_env_or_default_def
        Let_def demo_env_def demo_env_ttl)
qed

theorem nonpositive_ttl_disables_replay_protection_witness:
  "\<exists>cfg. load_config (\<lambda>_. None) demo_env = Inr cfg \<and>
     fst (nonce_check 100 ''inv:1'' \<lparr>seen = [(''inv:1'', 100)], maxEntries = 5,
            ttl = seconds_duration (NonceStoreTTLSecs cfg)\<rparr>) \<noteq> Some ErrReplayDetected"
proof -
  obtain cfg where cfg: "load_config (\<lambda>_. None) demo_env = Inr cfg" "NonceStoreTTLSecs cfg = 10000000000"
      "NonceStoreBackend cfg = ''memory''" "RevocationStorePath cfg = ''''" "TSARootCertPEM cfg = ''''"
      "TLSCertFile cfg = ''''" "TLSKeyFile cfg = ''''" using demo_env_loads [of "\<lambda>_. None"] by blast
  have "startup_error cfg no_init_errors = None"
    using cfg by (simp add: startup_error_def no_init_errors_def check_None)
  then obtain plan where plan: "startup cfg no_init_errors = Inr plan" "pl_nonce plan = choose_nonce cfg"
    by (simp add: startup_def)
  have neg: "seconds_duration (NonceStoreTTLSecs cfg) \<le> 0" using cfg(2) by (simp add: seconds_duration_def)
  have "fst (nonce_check 100 ''inv:1'' \<lparr>seen = [(''inv:1'', 100)], maxEntries = 5,
            ttl = seconds_duration (NonceStoreTTLSecs cfg)\<rparr>) \<noteq> Some ErrReplayDetected"
    using nonpositive_ttl_disables_replay_protection [OF neg plan(1), of _ _ "\<lparr>seen = [(''inv:1'', 100)], maxEntries = 5,
            ttl = seconds_duration (NonceStoreTTLSecs cfg)\<rparr>" 100 "''inv:1''"] plan(2) cfg(3)
    by (simp add: choose_nonce_def)
  with cfg(1) show ?thesis by blast
qed

text \<open>With an empty environment, an invocation of 901 seconds is stale.\<close>

theorem startup_consistent_witness:
  "\<exists>cfg plan. load_config (\<lambda>_. None) (\<lambda>_. '''') = Inr cfg \<and> startup cfg no_init_errors = Inr plan \<and>
     pl_max_age plan = 900 * second \<and> nonce_plan_ttl (pl_nonce plan) = 900 * second \<and>
     check_freshness 2000 (pl_max_age plan) 1099 \<noteq> None"
proof -
  obtain cfg where cfg: "load_config (\<lambda>_. None) (\<lambda>_. '''') = Inr cfg" "NonceStoreTTLSecs cfg = 900"
      "NonceStoreBackend cfg = ''memory''" "RevocationStorePath cfg = ''''" "TSARootCertPEM cfg = ''''"
      "TLSCertFile cfg = ''''" "TLSKeyFile cfg = ''''"
    using load_config_defaults [of "\<lambda>_. None"] by simp
  have "startup_error cfg no_init_errors = None"
    using cfg by (simp add: startup_error_def no_init_errors_def check_None)
  then obtain plan where plan: "startup cfg no_init_errors = Inr plan" by (simp add: startup_def)
  have "0 < sint (NonceStoreTTLSecs cfg) \<and> sint (NonceStoreTTLSecs cfg) * second < 2 ^ 63"
    by (simp add: cfg(2) second_def)
  note ttl = startup_consistent [OF cfg(1) plan, THEN conjunct2, THEN conjunct1, rule_format, OF this]
  from ttl startup_consistent [OF cfg(1) plan, THEN conjunct1] have wired: "pl_max_age plan = 900 * second"
      "nonce_plan_ttl (pl_nonce plan) = 900 * second"
    by (simp_all add: cfg(2))
  have "check_freshness 2000 (pl_max_age plan) 1099 \<noteq> None"
  proof
    assume "check_freshness 2000 (pl_max_age plan) 1099 = None"
    with ttl have "sint (2000 - 1099 :: int64) \<le> sint (NonceStoreTTLSecs cfg)" by blast
    then show False by (simp add: cfg(2))
  qed
  with wired(1,2) cfg(1) plan show ?thesis by blast
qed

section \<open>The life of the process\<close>

text \<open>\<^verbatim>\<open>metrics.StartServer\<close>; \<^verbatim>\<open>net.Listen\<close> is a parameter that gives an error or the bound address.\<close>

definition start_metrics_server :: "(string \<Rightarrow> string + string) \<Rightarrow> string \<Rightarrow> string + string option" where
  "start_metrics_server listen addr =
     (if addr = '''' then Inr None
      else case listen addr of Inl e \<Rightarrow> Inl e | Inr a \<Rightarrow> Inr (Some a))"

text \<open>
  What ends the \<^verbatim>\<open>select\<close> at the end of \<^verbatim>\<open>main\<close>: the server goroutine reports (\<open>None\<close> for
  \<^verbatim>\<open>http.ErrServerClosed\<close>) or a signal arrives.
\<close>

datatype stop_event = ServerReports "string option" | SignalReceived

record lifecycle =
  lc_listen :: "string \<Rightarrow> string + string"
  lc_stop :: stop_event
  lc_shutdown :: "string option"
  lc_drained :: "string option"

text \<open>
  The exit status and whether the deferred calls have run, which close the revocation log and the
  Redis client: \<^verbatim>\<open>os.Exit\<close> skips them.
\<close>

definition run_until_exit :: "config \<Rightarrow> lifecycle \<Rightarrow> nat \<times> bool" where
  "run_until_exit cfg lc =
     (case start_metrics_server (lc_listen lc) (MetricsAddr cfg) of
        Inl e \<Rightarrow> (1, False)
      | Inr _ \<Rightarrow>
          (case lc_stop lc of
             ServerReports (Some e) \<Rightarrow> (1, False)
           | ServerReports None \<Rightarrow> (0, True)
           | SignalReceived \<Rightarrow>
               if lc_shutdown lc \<noteq> None then (1, False)
               else if lc_drained lc \<noteq> None then (1, False)
               else (0, True)))"

definition main :: "(string \<Rightarrow> f64 option) \<Rightarrow> environment \<Rightarrow> (config \<Rightarrow> init_errors) \<Rightarrow> lifecycle \<Rightarrow> nat \<times> bool" where
  "main parse_float getenv inits lc =
     (case load_config parse_float getenv of
        Inl e \<Rightarrow> (1, False)
      | Inr cfg \<Rightarrow>
          (case startup cfg (inits cfg) of
             Inl e \<Rightarrow> (1, False)
           | Inr plan \<Rightarrow> run_until_exit cfg lc))"

text \<open>
  The process exits with status 0 exactly when the configuration loads, every component starts,
  the metrics listener binds if there is one, and the server is closed in order; and exactly then
  the deferred calls close the revocation log and the nonce store.
\<close>

lemma main_exit:
  "main pf getenv inits lc = (if \<exists>cfg plan. load_config pf getenv = Inr cfg \<and> startup cfg (inits cfg) = Inr plan \<and>
       (MetricsAddr cfg = '''' \<or> (\<exists>a. lc_listen lc (MetricsAddr cfg) = Inr a)) \<and>
       (lc_stop lc = ServerReports None \<or>
        lc_stop lc = SignalReceived \<and> lc_shutdown lc = None \<and> lc_drained lc = None)
     then (0, True) else (1, False))"
  by (auto simp: main_def run_until_exit_def start_metrics_server_def split: sum.splits stop_event.splits option.splits)

end
