(* ===== verification/DRS_Demo.thy ===== *)
theory DRS_Demo
  imports DRS_Server
begin

text \<open>
  A worked example of the whole server: the bundle of \<open>DRS_Verify\<close> is posted to a server whose
  parameters are concrete functions. The witnesses of the theorems on servers run it.
\<close>

text \<open>
  The JSON of the example: the signed arguments as \<^verbatim>\<open>json.Marshal\<close> writes them, which is also their
  canonical form, and a body with other white space, another order and another form of the number.
\<close>

definition demo_value :: gval where
  "demo_value = GMap [(''estimated_cost_usd'', GFloat64 (Finite 2)), (''pii_access'', GBool False),
     (''tool'', GString ''search'')]"

definition demo_text :: string where
  "demo_text = ''{\"estimated_cost_usd\":2,\"pii_access\":false,\"tool\":\"search\"}''"

definition demo_body :: string where
  "demo_body = ''{ \"tool\": \"search\", \"pii_access\": false, \"estimated_cost_usd\": 2.0 }''"

definition demo_json :: json_ops where
  "demo_json =
     \<lparr>unmarshal_bundle = (\<lambda>_. Some demo_bundle), unmarshal_jti = (\<lambda>_. Some ''inv:1''),
      unmarshal_args = (\<lambda>_. Some demo_value),
      json_marshal = (\<lambda>v. if v = demo_value then Some demo_text else if v = GMap [] then Some ''{}'' else None),
      jcs_transform = (\<lambda>s. if s = demo_text \<or> s = demo_body then Some demo_text
                           else if s = ''{}'' then Some ''{}'' else None)\<rparr>"

definition demo_parse :: "string \<Rightarrow> gval option" where
  "demo_parse s =
     (if s = demo_text \<or> s = demo_body then Some demo_value else if s = ''{}'' then Some (GMap []) else None)"

lemma demo_texts: "demo_text \<noteq> ''{}''" "demo_body \<noteq> ''{}''" "demo_value \<noteq> GMap []"
  by (simp_all add: demo_text_def demo_body_def demo_value_def)

lemma demo_body_size: "length demo_body \<le> 65536" "trim_space demo_body \<noteq> ''''"
proof -
  have "visible (hd demo_body)" "visible (last demo_body)" "demo_body \<noteq> ''''"
    by (simp_all add: demo_body_def visible_def)
  then show "trim_space demo_body \<noteq> ''''" by (simp add: trim_space_visible)
qed (simp add: demo_body_def)

lemma demo_jti: "decode_invocation_jti demo_json (Invocation demo_bundle) = Some ''inv:1''"
  by (simp add: decode_invocation_jti_def demo_bundle_def demo_payloads demo_json_def)

lemma demo_iat: "inv_Iat demo_invocation = 290"
  by (simp add: demo_invocation_def)

lemma demo_index: "dr_DrsStatusListIndex demo_root = Some 7"
  by (simp add: demo_root_def)

definition demo_result :: verification_result where
  "demo_result = valid_result (success_context [demo_root, demo_leaf])"

lemma demo_verifies:
  assumes "290 \<le> sint now" "sint now \<le> 350"
  shows "chain demo_prims id (demo_deps\<lparr>IncludeTimestamps := False\<rparr>) now demo_bundle w = (Some demo_result, w)"
    and "chain demo_prims id demo_deps now demo_bundle w = (Some demo_result, w)"
  using assms by (simp_all add: demo_chain demo_deps_def block_f_def finish_chain_def demo_result_def valid_result_def)

definition demo_request :: "string \<Rightarrow> request" where
  "demo_request path =
     \<lparr>rq_method = ''POST'', rq_path = path,
      rq_header = [(''X-Drs-Bundle'', ''AA''), (''Authorization'', ''Bearer t'')],
      rq_remote = ''10.0.0.1:4711'', rq_body = (demo_body, AtEOF), rq_context = None\<rparr>"

lemma demo_request_simps [simp]:
  "rq_method (demo_request p) = ''POST''" "rq_path (demo_request p) = p" "rq_body (demo_request p) = (demo_body, AtEOF)"
  by (simp_all add: demo_request_def)

lemma demo_request_headers:
  "header_values ''X-DRS-Bundle'' (demo_request p) = [''AA'']"
  "header_get ''Authorization'' (demo_request p) = ''Bearer t''"
proof -
  have "canonical_header_key ''Authorization'' = ''Authorization''" by code_simp
  then show "header_get ''Authorization'' (demo_request p) = ''Bearer t''"
    by (simp add: header_get_def header_values_def demo_request_def)
qed (simp add: header_values_def bundle_header_key demo_request_def)

definition demo_server ::
  "'w deps \<Rightarrow> (write_behaviour \<Rightarrow> uint64 \<Rightarrow> 'w \<Rightarrow> string option \<times> 'w) \<Rightarrow>
   ('w, nonce_store, write_behaviour, nat \<times> (string \<times> nat) list, unit) server" where
  "demo_server d revoke =
     \<lparr>sv_prims = demo_prims, sv_json = demo_json,
      sv_verify_json = \<lparr>decode_verify = (\<lambda>_. Inr \<lparr>vr_bundle = demo_bundle, vr_include_timestamps = False, vr_body = ''''\<rparr>),
                        json_value = demo_parse\<rparr>,
      sv_deps = d, sv_check = nonce_check, sv_max_body = 1048576, sv_status = (\<lambda>_. None),
      sv_revoke = revoke, sv_admin_decode = (\<lambda>_. Inr 7), sv_token = ''t'',
      sv_limiter = \<lparr>new_limiter = (\<lambda>_ _. ()), limiter_allow = (\<lambda>_ _. (True, ()))\<rparr>,
      sv_lru = list_lru, sv_oor = 0, sv_parse_ip = (\<lambda>_. None)\<rparr>"

definition demo_occasion :: "int64 \<Rightarrow> int \<Rightarrow> write_behaviour occasion" where
  "demo_occasion now t =
     \<lparr>oc_limit = (t, t), oc_admin = (t, t), oc_sched = id, oc_now = now, oc_nonce = t, oc_storage = WriteOk\<rparr>"

definition demo_limiter :: "(nat \<times> (string \<times> nat) list, unit) rate_limiter" where
  "demo_limiter = \<lparr>rl_global = (), rl_perIP = (9, []), rl_limiters = [], rl_perIPRate = Finite 1, rl_trustProxy = False\<rparr>"

text \<open>The limiter of the example lets everything pass, so a request reaches the multiplexer.\<close>

lemma demo_serve:
  assumes "p \<noteq> ''/healthz''" "p \<noteq> ''/readyz''"
    and "serve_mux (demo_server d revoke) oc (demo_request p) (adm, s) = (resp, st')"
  shows "\<exists>rl'. serve (demo_server d revoke) oc (demo_request p) (rl, adm, s) = (resp, (rl', st'))"
  using assms by (simp add: serve_def rate_middleware_def demo_server_def split_beta Let_def)

lemma demo_serve_verify:
  assumes "nonce_check t ''inv:1'' n = (None, n')" "290 \<le> sint now" "sint now \<le> 350"
  shows "\<exists>rl'. serve (demo_server demo_deps revoke) (demo_occasion now t) (demo_request ''/verify'') (rl, adm, w, n) =
    (Some (200, VerifyBody demo_result), (rl', adm, w, n'))"
proof (rule demo_serve)
  have "check_nonce_replay demo_json (Invocation demo_bundle) (Some (nonce_check t)) n = (None, n')"
    using assms(1) by (simp add: check_nonce_replay_None demo_jti)
  then show "serve_mux (demo_server demo_deps revoke) (demo_occasion now t) (demo_request ''/verify'') (adm, w, n) =
      (Some (200, VerifyBody demo_result), (adm, w, n'))"
    using assms(2,3)
    by (simp add: serve_mux_def demo_server_def demo_occasion_def verify_handler_def demo_verifies Let_def)
      (simp add: demo_result_def)
qed simp_all

end
