(* ===== verification/DRS_Trust.thy ===== *)
theory DRS_Trust
  imports DRS_Verify
begin

text \<open>
  The chain verification of \<^verbatim>\<open>pkg/verify/chain.go\<close> running on the resolver of
  \<^verbatim>\<open>pkg/resolver/did.go\<close>: what an accepted bundle says about the holders of keys, which
  bundles crash the process, and that the verdict on did:key chains is independent of the schedule
  and of the state of the resolver.
\<close>

section \<open>The resolver behind the chain\<close>

text \<open>
  The resolver is one part \<open>get\<close> of the state that the dependencies share, and resolution works on
  that part.
\<close>

definition resolver_view ::
  "'n net \<Rightarrow> (cache_entry, 'c) lru \<Rightarrow> (nat, 'd) lru \<Rightarrow> resolver_config \<Rightarrow> ('w \<Rightarrow> ('c, 'd, 'n) resolver) \<Rightarrow>
   (string \<Rightarrow> 'w \<Rightarrow> resolve_outcome \<times> 'w) \<Rightarrow> bool" where
  "resolver_view N CA CS cfg get res =
     (\<forall>did w. fst (res did w) = fst (resolve N CA CS cfg did (get w)) \<and>
              get (snd (res did w)) = snd (resolve N CA CS cfg did (get w)))"

text \<open>For example the first part.\<close>

definition resolver_op ::
  "'n net \<Rightarrow> (cache_entry, 'c) lru \<Rightarrow> (nat, 'd) lru \<Rightarrow> resolver_config \<Rightarrow> string \<Rightarrow>
   ('c, 'd, 'n) resolver \<times> 'v \<Rightarrow> resolve_outcome \<times> ('c, 'd, 'n) resolver \<times> 'v" where
  "resolver_op N CA CS cfg did w = (let (out, r) = resolve N CA CS cfg did (fst w) in (out, (r, snd w)))"

lemma resolver_op_view: "resolver_view N CA CS cfg fst (resolver_op N CA CS cfg)"
  by (simp add: resolver_view_def resolver_op_def split_beta Let_def)

lemma resolver_view_step:
  assumes "lru_ok CA look" and "resolver_view N CA CS cfg get res" and "cache_sound N look (get w)"
  shows "cache_sound N look (get (snd (res did w)))"
    and "prefix ''did:key:z'' did \<Longrightarrow> fst (res did w) = resolve_did_key N did"
  using resolve_sound [OF assms(1,3), of CS cfg did] assms(2) by (auto simp: resolver_view_def)

lemma resolve_each_did_keys:
  assumes "lru_ok CA look" and "resolver_view N CA CS cfg get res"
  shows "cache_sound N look (get w) \<Longrightarrow> (did, out) \<in> set (fst (resolve_each res dids w)) \<Longrightarrow>
    prefix ''did:key:z'' did \<Longrightarrow> out = resolve_did_key N did"
proof (induction dids arbitrary: w)
  case (Cons d dids)
  note step = resolver_view_step [OF assms Cons.prems(1), of d]
  from Cons.prems(2) consider "did = d" "out = fst (res d w)"
    | "(did, out) \<in> set (fst (resolve_each res dids (snd (res d w))))"
    by (auto simp: split_beta Let_def)
  then show ?case using Cons.IH [OF step(1)] step(2) Cons.prems(3) by cases auto
qed simp

lemma resolve_each_sound:
  assumes "lru_ok CA look" and "resolver_view N CA CS cfg get res"
  shows "cache_sound N look (get w) \<Longrightarrow> cache_sound N look (get (snd (resolve_each res dids w)))"
  by (induction dids arbitrary: w) (simp_all add: split_beta Let_def resolver_view_step [OF assms])

lemma parallel_sound:
  assumes "lru_ok CA look" and "resolver_view N CA CS cfg get res" and "cache_sound N look (get w)"
  shows "cache_sound N look (get (snd (resolve_issuers_parallel sched res dids w)))"
  using resolve_each_sound [OF assms] by (simp add: resolve_issuers_parallel_def split_beta Let_def)

lemma drain_results_from:
  "drain_results results keys = Inr keys' \<Longrightarrow> keys' did = Some k \<Longrightarrow>
    (did, Resolved k) \<in> set results \<or> keys did = Some k"
  by (induction results keys rule: drain_results.induct) (auto split: if_splits)

lemma resolved_did_key:
  assumes "lru_ok CA look" and "resolver_view N CA CS cfg get res" and "cache_sound N look (get w)"
    and "resolve_issuers_parallel sched res dids w = (Some (Inr keys), w')"
    and "keys (did_key_of key) = Some k" and "length key = 32"
  shows "k = key"
proof -
  obtain results where res: "results = fst (resolve_each res (sched (dedup [] dids)) w)"
      "drain_results results Map.empty = Inr keys"
    using assms(4) by (auto simp: resolve_issuers_parallel_def split_beta Let_def split: if_splits)
  with drain_results_from assms(5) have "(did_key_of key, Resolved k) \<in> set results" by fastforce
  with resolve_each_did_keys [OF assms(1-3)] res(1) have "Resolved k = resolve_did_key N (did_key_of key)"
    by (simp add: did_key_of_def)
  with resolve_did_key_encoded [OF assms(6)] show ?thesis by (metis resolve_outcome.inject(1))
qed

section \<open>Authenticity\<close>

text \<open>A token signed with a key: three parts, EdDSA, a canonical signature over the first two parts.\<close>

definition signed_with :: "prims \<Rightarrow> byte list \<Rightarrow> string \<Rightarrow> bool" where
  "signed_with pr key jwt =
     (\<exists>h p s sig. split_n CHR ''.'' 4 jwt = [h, p, s] \<and> decode_jwt_header pr jwt = Inr ''EdDSA'' \<and>
        raw_url_decode s = Some sig \<and> strict_verify_ed25519 sig = None \<and> ed25519_verify pr key (h @ ''.'' @ p) sig)"

lemma signature_valid_signed:
  "signature_valid pr keys jwt issuer \<longleftrightarrow> (\<exists>key. keys issuer = Some key \<and> signed_with pr key jwt)"
  by (auto simp: signature_valid_def signed_with_def)

text \<open>
  Who signed what: the issuers of the receipts, and the audiences that the following receipt or the
  invocation has to come from.
\<close>

definition authentic :: "prims \<Rightarrow> chain_bundle \<Rightarrow> delegation_receipt list \<Rightarrow> bool" where
  "authentic pr b rs =
     ((\<forall>i < length rs. \<forall>key. length key = 32 \<and> dr_Iss (rs ! i) = did_key_of key \<longrightarrow> signed_with pr key (Receipts b ! i)) \<and>
      (\<forall>i key. Suc i < length rs \<and> length key = 32 \<and> dr_Aud (rs ! i) = did_key_of key \<longrightarrow>
         signed_with pr key (Receipts b ! Suc i)) \<and>
      (\<forall>key. length key = 32 \<and> dr_Aud (last rs) = did_key_of key \<longrightarrow> signed_with pr key (Invocation b)))"

lemma spec_authentic:
  assumes "lru_ok CA look" and "resolver_view N CA CS cfg get res" and "cache_sound N look (get w)"
    and "resolve_issuers_parallel sched res dids w = (Some (Inr keys), w')"
    and spec: "chain_spec pr d now keys b rs iv"
  shows "authentic pr b rs"
proof -
  have named: "signed_with pr key jwt" if "signature_valid pr keys jwt (did_key_of key)" "length key = 32" for jwt key
    using that resolved_did_key [OF assms(1-4)] by (auto simp: signature_valid_signed)
  have sig: "\<forall>i < length rs. signature_valid pr keys (Receipts b ! i) (dr_Iss (rs ! i))"
      "signature_valid pr keys (Invocation b) (inv_Iss iv)"
    and link: "\<forall>i. Suc i < length rs \<longrightarrow> dr_Iss (rs ! Suc i) = dr_Aud (rs ! i)" "inv_Iss iv = dr_Aud (last rs)"
    using spec by (auto simp: chain_spec_def linked_chain_def)
  show ?thesis
    unfolding authentic_def
  proof (intro conjI allI impI; (elim conjE)?)
    show "signed_with pr key (Receipts b ! i)" if "i < length rs" "length key = 32" "dr_Iss (rs ! i) = did_key_of key" for i key
      using that sig(1) named by auto
    show "signed_with pr key (Receipts b ! Suc i)" if "Suc i < length rs" "length key = 32" "dr_Aud (rs ! i) = did_key_of key" for i key
      using that sig(1) link(1) named [of "Receipts b ! Suc i" key] by auto
    show "signed_with pr key (Invocation b)" if "length key = 32" "dr_Aud (last rs) = did_key_of key" for key
      using that sig(2) link(2) named by auto
  qed
qed

text \<open>
  Authenticity, end to end, for did:key identities. Run the verification on the real resolver
  in any state that earlier resolutions, expiry, eviction and any behaviour of remote hosts lead
  to. If a bundle is accepted, then every receipt whose issuer names a key is signed with that key,
  and so is the invocation; and the holder of the key that signs a receipt is the one to whom the
  receipt before it delegates. No cache content, did:web document or scheduling of the resolver
  goroutines can put another key in its place.
\<close>

theorem accepted_signed_by_named_keys:
  assumes "lru_ok CA look" and "resolver_reach env N CA CS cfg r"
    and "Resolve d = resolver_op N CA CS cfg" and "accepts pr sched d now b (r, v)"
  shows "\<exists>rs iv. decode_bundle_receipts pr b = Some rs \<and>
    decode_jwt_payload (unmarshal_invocation pr) (Invocation b) = Some iv \<and>
    (\<forall>i < length rs. \<forall>key. length key = 32 \<and> dr_Iss (rs ! i) = did_key_of key \<longrightarrow> signed_with pr key (Receipts b ! i)) \<and>
    (\<forall>i key. Suc i < length rs \<and> length key = 32 \<and> dr_Aud (rs ! i) = did_key_of key \<longrightarrow>
       signed_with pr key (Receipts b ! Suc i)) \<and>
    (\<forall>key. length key = 32 \<and> dr_Aud (last rs) = did_key_of key \<longrightarrow> signed_with pr key (Invocation b))"
proof -
  have "\<exists>res w'. chain pr sched d now b (r, v) = (Some res, w') \<and> Valid res"
    using assms(4) by (cases "chain pr sched d now b (r, v)") (auto simp: accepts_def split: option.splits)
  then obtain rs iv keys w1 where dec: "decode_bundle_receipts pr b = Some rs"
      "decode_jwt_payload (unmarshal_invocation pr) (Invocation b) = Some iv"
    and res: "resolve_issuers_parallel sched (Resolve d) (issuer_dids rs iv) (r, v) = (Some (Inr keys), w1)"
    and spec: "chain_spec pr d now keys b rs iv" unfolding chain_valid_spec by blast
  have "authentic pr b rs"
    by (rule spec_authentic [OF assms(1) resolver_op_view _ res [unfolded assms(3)] spec])
      (simp add: reach_cache_sound [OF assms(1,2)])
  with dec show ?thesis unfolding authentic_def by blast
qed

section \<open>Crashes\<close>

lemma panic_in_resolve_each:
  assumes "lru_ok CA look" and "resolve_did_key N did = ResolvePanic" and "prefix ''did:key:z'' did"
  shows "cache_sound N look (fst w) \<Longrightarrow> did \<in> set dids \<Longrightarrow>
    ResolvePanic \<in> snd ` set (fst (resolve_each (resolver_op N CA CS cfg) dids w))"
proof (induction dids arbitrary: w)
  case (Cons d dids)
  obtain out1 r1 where d: "resolve N CA CS cfg d (fst w) = (out1, r1)" by (cases "resolve N CA CS cfg d (fst w)")
  with resolve_sound [OF assms(1) Cons.prems(1), of CS cfg d] have
    r1: "cache_sound N look r1" "prefix ''did:key:z'' d \<longrightarrow> out1 = resolve_did_key N d" by auto
  show ?case
  proof (cases "d = did")
    case True
    with r1(2) assms(2,3) d show ?thesis by (simp add: resolver_op_def split_beta Let_def)
  next
    case False
    with Cons.prems(2) Cons.IH [of "(r1, snd w)"] r1(1) d show ?thesis
      by (auto simp: resolver_op_def split_beta Let_def)
  qed
qed simp

text \<open>
  C40. A bundle can crash the verifier without any valid signature: issuers are resolved before
  signatures are checked, so it is enough that the unsigned parts decode and link up and that one
  issuer is a did:key with a rune beyond U+00FF after valid base58 characters. The goroutine that
  resolves it panics and nothing recovers.
\<close>

theorem unsigned_bundle_crashes:
  assumes "lru_ok CA look" and "resolver_reach env N CA CS cfg r" and "Resolve d = resolver_op N CA CS cfg"
    and "\<And>ds. set (sched ds) = set ds"
    and "block_a b = None" and "decode_bundle_receipts pr b = Some rs"
    and "decode_jwt_payload (unmarshal_invocation pr) (Invocation b) = Some iv"
    and "block_b pr (Receipts b) rs iv = None"
    and "did \<in> set (issuer_dids rs iv)" and "prefix ''did:key:z'' did"
    and "go_runes (drop 9 did) = pre @ rune # post" and "256 \<le> rune"
    and "\<forall>p \<in> set pre. p < 256 \<and> b58_lookup p \<noteq> None"
  shows "fst (chain pr sched d now b (r, v)) = None"
proof -
  have "b58_loop (go_runes (drop 9 did)) [] = B58Panic" using assms(11-13) b58_loop_panic by blast
  then have "resolve_did_key N did = ResolvePanic"
    using assms(10) by (simp add: resolve_did_key_def base58_decode_def)
  moreover have "did \<in> set (sched (dedup [] (issuer_dids rs iv)))" using assms(4,9) by (simp add: set_dedup)
  ultimately have "fst (resolve_issuers_parallel sched (Resolve d) (issuer_dids rs iv) (r, v)) = None"
    using panic_in_resolve_each [OF assms(1) _ assms(10), of N "(r, v)"] reach_cache_sound [OF assms(1,2)] assms(3)
    by (simp add: resolve_issuers_parallel_def split_beta Let_def)
  then show ?thesis
    using assms(5-8) by (auto simp: chain_def chain_decoded_def split: prod.splits)
qed

section \<open>Verification of one token\<close>

text \<open>
  \<open>verifyJWTSignature\<close> resolves the issuer by itself, after the header has been checked; \<open>None\<close> is
  the panic of the resolver.
\<close>

definition verify_jwt_signature ::
  "prims \<Rightarrow> (string \<Rightarrow> 'w \<Rightarrow> resolve_outcome \<times> 'w) \<Rightarrow> string \<Rightarrow> string \<Rightarrow> 'w \<Rightarrow> sig_error option option \<times> 'w" where
  "verify_jwt_signature pr res jwt issuer w =
     (case decode_jwt_header pr jwt of
        Inl e \<Rightarrow> (Some (Some (SigError (''JWT header decode failed: '' @ e) False)), w)
      | Inr alg \<Rightarrow>
          if alg \<noteq> ''EdDSA''
          then (Some (Some (SigError (''unsupported JWT algorithm '' @ go_quote (is_print pr) alg
                                      @ '': DRS receipts must use EdDSA'') False)), w)
          else
            (case res issuer w of
               (ResolvePanic, w') \<Rightarrow> (None, w')
             | (ResolveError e, w') \<Rightarrow> (Some (Some (SigError (''DID resolution failed: '' @ e) False)), w')
             | (Resolved key, w') \<Rightarrow>
                 (Some (case split_n CHR ''.'' 4 jwt of
                    [header, payload, sig] \<Rightarrow>
                      (case raw_url_decode sig of
                         None \<Rightarrow> Some (SigError ''signature base64 decode: illegal base64 data'' False)
                       | Some sig_bytes \<Rightarrow>
                           (case strict_verify_ed25519 sig_bytes of
                              Some e \<Rightarrow> Some (SigError (''Ed25519 strict check failed: '' @ sig_text e) (malleable e))
                            | None \<Rightarrow>
                                if \<not> ed25519_verify pr key (header @ ''.'' @ payload) sig_bytes
                                then Some (SigError ''Ed25519 signature verification failed'' False)
                                else None))
                  | _ \<Rightarrow> Some (SigError ''malformed JWT'' False)), w')))"

text \<open>
  The two verifiers of a token agree: with the key that the resolver gives for the issuer,
  \<^verbatim>\<open>verifyJWTSignatureWithKey\<close> answers what \<^verbatim>\<open>verifyJWTSignature\<close> answers, error texts included, and
  without a key neither accepts.
\<close>

theorem jwt_verifiers_agree:
  "(\<forall>key. fst (res issuer w) = Resolved key \<longrightarrow>
      fst (verify_jwt_signature pr res jwt issuer w) = Some (verify_jwt_signature_with_key pr jwt issuer [issuer \<mapsto> key])) \<and>
   ((\<nexists>key. fst (res issuer w) = Resolved key) \<longrightarrow>
      fst (verify_jwt_signature pr res jwt issuer w) \<noteq> Some None \<and>
      verify_jwt_signature_with_key pr jwt issuer Map.empty \<noteq> None)"
proof (cases "res issuer w")
  case (Pair out w')
  show ?thesis
    by (cases out)
      (auto simp: verify_jwt_signature_def verify_jwt_signature_with_key_def Pair split: sum.split)
qed

section \<open>A worked example on the real resolver\<close>

definition trust_root :: "string \<Rightarrow> delegation_receipt" where
  "trust_root did = demo_root\<lparr>dr_Iss := did, dr_Aud := did\<rparr>"

definition trust_hash :: string where
  "trust_hash = ''sha256:'' @ hex_encode (replicate 32 0xaa)"

definition trust_invocation :: "string \<Rightarrow> invocation_receipt" where
  "trust_invocation did = demo_invocation\<lparr>inv_Iss := did, inv_DrChain := [trust_hash]\<rparr>"

definition trust_bundle :: chain_bundle where
  "trust_bundle = demo_bundle\<lparr>Receipts := [demo_jwt ''AQ'']\<rparr>"

definition trust_prims :: "string \<Rightarrow> prims" where
  "trust_prims did = demo_prims\<lparr>sha256 := (\<lambda>_. replicate 32 0xaa), unmarshal_receipt := (\<lambda>_. Some (trust_root did)),
     unmarshal_invocation := (\<lambda>_. Some (trust_invocation did))\<rparr>"

definition trust_deps ::
  "((nat \<times> (string \<times> cache_entry) list, nat \<times> (string \<times> nat) list, int) resolver \<times> unit) deps" where
  "trust_deps = demo_deps\<lparr>Resolve := resolver_op demo_net list_lru list_lru demo_config\<rparr>"

lemma trust_decoded:
  "decode_bundle_receipts (trust_prims did) trust_bundle = Some [trust_root did]"
  "decode_jwt_payload (unmarshal_invocation (trust_prims did)) (Invocation trust_bundle) = Some (trust_invocation did)"
  by (simp_all add: decode_bundle_receipts_def decode_jwt_payload_def trust_bundle_def demo_bundle_def demo_payloads
      trust_prims_def)

lemma trust_block_a: "block_a trust_bundle = None"
  by (simp add: block_a_None trust_bundle_def demo_bundle_def demo_jwt_def)

lemma trust_block_b: "block_b (trust_prims did) (Receipts trust_bundle) [trust_root did] (trust_invocation did) = None"
proof -
  have "check_root (trust_root did) = None" using demo_consent by (simp add: check_root_None root_ok_def trust_root_def)
  moreover have "compute_chain_hash (trust_prims did) (demo_jwt ''AQ'') = trust_hash"
    by (simp add: compute_chain_hash_def trust_prims_def trust_hash_def)
  ultimately show ?thesis
    by (simp add: block_b_def trust_bundle_def check_dr_chain_def guard_err_def)
      (simp add: trust_root_def trust_invocation_def demo_receipts check_type_version_def expected_defs guard_err_def)
qed

theorem unsigned_bundle_crashes_witness:
  "fst (chain (trust_prims (''did:key:z'' @ bytes_of [196, 128])) id trust_deps 300 trust_bundle (demo_resolver, ())) = None"
proof (rule unsigned_bundle_crashes [OF list_lru_ok demo_created [of "\<lambda>_ _. False"] _ _ trust_block_a trust_decoded trust_block_b,
    where did = "''did:key:z'' @ bytes_of [196, 128]" and pre = "[]" and rune = 256 and post = "[]"])
  have "go_runes (bytes_of [196, 128]) = [256]" by code_simp
  then show "go_runes (drop 9 (''did:key:z'' @ bytes_of [196, 128])) = [] @ 256 # []" by simp
qed (simp_all add: trust_deps_def issuer_dids_def trust_invocation_def)

text \<open>The key of the example: 32 zero bytes.\<close>

definition trust_did :: string where
  "trust_did = did_key_of (replicate 32 0)"

lemma trust_resolved:
  assumes "lru_ok CA look" and "resolver_view N CA CS cfg get res" and "cache_sound N look (get w)"
  shows "\<exists>w'. resolve_issuers_parallel id res (issuer_dids [trust_root trust_did] (trust_invocation trust_did)) w =
    (Some (Inr [trust_did \<mapsto> replicate 32 0]), w')"
proof -
  have "fst (res trust_did w) = Resolved (replicate 32 0)"
    using resolver_view_step(2) [OF assms, of trust_did] resolve_did_key_encoded [of "replicate 32 0"]
    by (simp add: trust_did_def did_key_of_def)
  then show ?thesis
    by (simp add: resolve_issuers_parallel_def issuer_dids_def trust_root_def trust_invocation_def split_beta Let_def)
qed

lemma trust_signature:
  "p \<in> {''AQ'', ''Aw''} \<Longrightarrow> signature_valid (trust_prims did) [did \<mapsto> replicate 32 0] (demo_jwt p) did"
  using demo_bytes
  by (auto simp: signature_valid_def decode_jwt_header_def demo_payloads trust_prims_def demo_prims_def)

lemma trust_cde:
  assumes "ServerIdentity d = ''srv''" and "MaxInvocationAge d = 60 * second"
  shows "blocks_cde (trust_prims trust_did) d 300 [trust_did \<mapsto> replicate 32 0] trust_bundle
    [trust_root trust_did] (trust_invocation trust_did) = None"
proof -
  let ?rs = "[trust_root trust_did]" and ?iv = "trust_invocation trust_did"
  have "semantics_ok ''srv'' [demo_root, demo_leaf] demo_invocation" using demo_block_d by (simp add: block_d_None)
  moreover have "cmd_is_subpath (dr_Cmd demo_root) (inv_Cmd demo_invocation)"
    by (simp add: cmd_is_subpath_iff demo_receipts)
  ultimately have "semantics_ok ''srv'' ?rs ?iv"
    by (simp add: semantics_ok_def trust_root_def trust_invocation_def)
  moreover have "times_ok 300 (60 * second) ?rs ?iv"
    using demo_block_e [of 300] by (simp add: block_e_None times_ok_def trust_root_def trust_invocation_def)
  ultimately show ?thesis
    by (simp add: blocks_cde_def assms verify_signatures_None block_d_None block_e_None)
      (simp add: trust_bundle_def demo_bundle_def verify_signatures_None trust_signature
        trust_root_def trust_invocation_def)
qed

text \<open>Any verifier on the resolver, with the identity and the freshness bound of the example, accepts the bundle.\<close>

lemma trust_accepts:
  assumes "lru_ok CA look" and "resolver_view N CA CS cfg get (Resolve d)" and "cache_sound N look (get w)"
    and "ServerIdentity d = ''srv''" and "MaxInvocationAge d = 60 * second"
    and "fst (block_f d [trust_root trust_did] (snd (resolve_issuers_parallel id (Resolve d)
           (issuer_dids [trust_root trust_did] (trust_invocation trust_did)) w))) = None"
  shows "accepts (trust_prims trust_did) id d 300 trust_bundle w"
proof -
  let ?rs = "[trust_root trust_did]" and ?iv = "trust_invocation trust_did"
  note cde = trust_cde [OF assms(4,5)]
  obtain w' where res: "resolve_issuers_parallel id (Resolve d) (issuer_dids ?rs ?iv) w =
      (Some (Inr [trust_did \<mapsto> replicate 32 0]), w')" using trust_resolved [OF assms(1-3)] by blast
  with assms(6) have "fst (block_f d ?rs w') = None" by simp
  then obtain w2 where "block_f d ?rs w' = (None, w2)" by (cases "block_f d ?rs w'") simp
  with res cde finish_chain_valid show ?thesis
    by (auto simp: accepts_def chain_def chain_decoded_def trust_block_a trust_decoded trust_block_b split_beta Let_def)
qed

lemma trust_accepted: "accepts (trust_prims trust_did) id trust_deps 300 trust_bundle (demo_resolver, ())"
proof (rule trust_accepts [OF list_lru_ok])
  show "resolver_view demo_net list_lru list_lru demo_config fst (Resolve trust_deps)"
    by (simp add: trust_deps_def resolver_op_view)
  show "cache_sound demo_net list_look (fst (demo_resolver, ()))"
    using reach_cache_sound [OF list_lru_ok demo_created [of "\<lambda>_ _. False"]] by simp
qed (simp_all add: trust_deps_def demo_deps_def block_f_def)

theorem accepted_signed_by_named_keys_witness:
  "signed_with (trust_prims trust_did) (replicate 32 0) (demo_jwt ''AQ'') \<and>
   signed_with (trust_prims trust_did) (replicate 32 0) (Invocation trust_bundle)"
proof -
  note authentic = accepted_signed_by_named_keys [OF list_lru_ok demo_created [of "\<lambda>_ _. False"] _ trust_accepted]
  have named: "dr_Iss (trust_root trust_did) = did_key_of (replicate 32 0)"
    "dr_Aud (trust_root trust_did) = did_key_of (replicate 32 0)" "Receipts trust_bundle = [demo_jwt ''AQ'']"
    by (simp_all add: trust_root_def trust_did_def trust_bundle_def)
  show ?thesis
    using authentic by (simp add: trust_deps_def trust_decoded named del: split_paired_All)
qed

section \<open>The verdict on did:key chains\<close>

text \<open>
  Operations that work beside the resolver: what they answer, and what they do to the rest of the
  state, does not depend on the resolver part of it.
\<close>

definition same_beside :: "'a \<times> 'r \<times> 'v \<Rightarrow> 'a \<times> 'r \<times> 'v \<Rightarrow> bool" where
  "same_beside x y = (fst x = fst y \<and> snd (snd x) = snd (snd y))"

definition beside :: "('r \<times> 'v \<Rightarrow> 'a \<times> 'r \<times> 'v) \<Rightarrow> bool" where
  "beside f = (\<forall>w w'. snd w = snd w' \<longrightarrow> same_beside (f w) (f w'))"

definition beside_resolver :: "('r \<times> 'v) deps \<Rightarrow> bool" where
  "beside_resolver d =
     ((\<forall>is_rev i. Revocation d = Some is_rev \<longrightarrow> beside (is_rev i)) \<and>
      (\<forall>is_rev i w w'. LocalRevoked d = Some is_rev \<longrightarrow> snd w = snd w' \<longrightarrow> is_rev i w = is_rev i w') \<and>
      (\<forall>put get h jwt. StoreOps d = Some (put, get) \<longrightarrow> beside (put h jwt) \<and> beside (get h)))"

lemma besideE:
  assumes "beside f" and "snd w = snd w'"
  obtains a w1 w1' where "f w = (a, w1)" "f w' = (a, w1')" "snd w1 = snd w1'"
proof -
  from assms have "same_beside (f w) (f w')" unfolding beside_def by blast
  then show thesis by (intro that [of "fst (f w)" "snd (f w)" "snd (f w')"]) (auto simp: same_beside_def prod_eq_iff)
qed

lemma beside_remote_revocation:
  assumes "\<And>i. beside (is_rev i)"
  shows "beside (remote_revocation is_rev rs)"
proof -
  have "same_beside (remote_revocation is_rev rs w) (remote_revocation is_rev rs w')" if "snd w = snd w'" for w w'
    using that
  proof (induction rs arbitrary: w w')
    case (Cons r rs)
    show ?case
    proof (cases "dr_DrsStatusListIndex r")
      case None
      with Cons show ?thesis by simp
    next
      case (Some i)
      obtain a w1 w1' where "is_rev i w = (a, w1)" "is_rev i w' = (a, w1')" "snd w1 = snd w1'"
        using besideE [OF assms Cons.prems] by metis
      with Some Cons.IH [of w1 w1'] show ?thesis by (cases a) (simp_all add: same_beside_def)
    qed
  qed (simp add: same_beside_def)
  then show ?thesis by (simp add: beside_def)
qed

lemma beside_store_receipts:
  assumes "\<And>h jwt. beside (put h jwt)"
  shows "beside (store_receipts pr put jwts)"
proof -
  have "same_beside (store_receipts pr put jwts w) (store_receipts pr put jwts w')" if "snd w = snd w'" for w w'
    using that
  proof (induction jwts arbitrary: w w')
    case (Cons jwt jwts)
    obtain a w1 w1' where "put (compute_chain_hash pr jwt) jwt w = (a, w1)"
        "put (compute_chain_hash pr jwt) jwt w' = (a, w1')" "snd w1 = snd w1'"
      using besideE [OF assms Cons.prems] by metis
    with Cons.IH [of w1 w1'] show ?case by (cases a) (simp_all add: same_beside_def split_beta Let_def)
  qed (simp add: same_beside_def)
  then show ?thesis by (simp add: beside_def)
qed

lemma beside_check_timestamps:
  assumes "\<And>h. beside (get h)"
  shows "beside (check_timestamps pr get vts i jwts)"
proof -
  have "same_beside (check_timestamps pr get vts i jwts w) (check_timestamps pr get vts i jwts w')"
    if "snd w = snd w'" for w w'
    using that
  proof (induction jwts arbitrary: w w' i)
    case (Cons jwt jwts)
    obtain a w1 w1' where "get (compute_chain_hash pr jwt @ ''.tst'') w = (a, w1)"
        "get (compute_chain_hash pr jwt @ ''.tst'') w' = (a, w1')" "snd w1 = snd w1'"
      using besideE [OF assms Cons.prems] by metis
    with Cons.IH [of w1 w1' "Suc i"] show ?case by (cases a) (simp_all add: same_beside_def split_beta Let_def)
  qed (simp add: same_beside_def)
  then show ?thesis by (simp add: beside_def)
qed

lemma beside_block_f:
  assumes "beside_resolver d"
  shows "beside (block_f d rs)"
proof -
  have "same_beside (block_f d rs w) (block_f d rs w')" if w: "snd w = snd w'" for w w'
  proof (cases "Revocation d")
    case None
    have "(\<lambda>i. is_loc i w) = (\<lambda>i. is_loc i w')" if "LocalRevoked d = Some is_loc" for is_loc
      using assms that w unfolding beside_resolver_def by blast
    with None w show ?thesis by (auto simp: block_f_def same_beside_def split: option.split)
  next
    case (Some is_rev)
    with assms have "\<And>i. beside (is_rev i)" by (auto simp: beside_resolver_def)
    then obtain a w1 w1' where
        step: "remote_revocation is_rev rs w = (a, w1)" "remote_revocation is_rev rs w' = (a, w1')" "snd w1 = snd w1'"
      using besideE [OF beside_remote_revocation w] by blast
    have "(\<lambda>i. is_loc i w1) = (\<lambda>i. is_loc i w1')" if "LocalRevoked d = Some is_loc" for is_loc
      using assms that step(3) unfolding beside_resolver_def by blast
    with Some step show ?thesis by (auto simp: block_f_def same_beside_def split: option.split)
  qed
  then show ?thesis by (simp add: beside_def)
qed

lemma beside_finish_chain:
  assumes "beside_resolver d"
  shows "beside (finish_chain pr d jwts rs)"
proof (cases "StoreOps d")
  case None
  then show ?thesis by (simp add: beside_def same_beside_def finish_chain_def)
next
  case (Some ops)
  obtain put get where ops: "ops = (put, get)" by fastforce
  with Some assms have op: "\<And>h jwt. beside (put h jwt)" "\<And>h. beside (get h)"
    by (simp_all add: beside_resolver_def)
  have "same_beside (finish_chain pr d jwts rs w) (finish_chain pr d jwts rs w')" if w: "snd w = snd w'" for w w'
  proof -
    obtain a w1 w1' where
      1: "store_receipts pr put jwts w = (a, w1)" "store_receipts pr put jwts w' = (a, w1')" "snd w1 = snd w1'"
      by (rule besideE [OF beside_store_receipts [OF op(1)] w])
    obtain ts w2 w2' where
      2: "check_timestamps pr get (VerifyTimestamp d) 0 jwts w1 = (ts, w2)"
         "check_timestamps pr get (VerifyTimestamp d) 0 jwts w1' = (ts, w2')" "snd w2 = snd w2'"
      by (rule besideE [OF beside_check_timestamps [OF op(2)] 1(3)])
    from 1 2 show ?thesis by (simp add: finish_chain_def Some ops same_beside_def)
  qed
  then show ?thesis by (simp add: beside_def)
qed

text \<open>The outcome of resolving did:key issuers, up to the text of the error.\<close>

lemma resolve_each_named:
  assumes "lru_ok CA look"
  shows "cache_sound N look (fst w) \<Longrightarrow> \<forall>d \<in> set dids. prefix ''did:key:z'' d \<Longrightarrow>
    fst (resolve_each (resolver_op N CA CS cfg) dids w) = map (\<lambda>d. (d, resolve_did_key N d)) dids \<and>
    snd (snd (resolve_each (resolver_op N CA CS cfg) dids w)) = snd w"
proof (induction dids arbitrary: w)
  case (Cons d dids)
  note step = resolver_view_step [OF assms resolver_op_view [where CA = CA and CS = CS and cfg = cfg] Cons.prems(1), of d]
  have rest: "snd (snd (resolver_op N CA CS cfg d w)) = snd w" by (simp add: resolver_op_def split_beta Let_def)
  from Cons.IH [OF step(1)] step(2) rest Cons.prems(2) show ?case by (simp add: split_beta Let_def)
qed simp

lemma index_sub_in: "index_sub pat (pat @ b) \<noteq> None"
proof (cases "pat @ b")
  case (Cons x xs)
  then have "prefix pat (x # xs)" by (metis prefixI)
  with Cons show ?thesis by simp
qed simp

lemma contains_sub_in: "contains_sub (a @ pat @ b) pat"
  using index_sub_in [of pat b] by (induction a) (auto simp: contains_sub_def)

lemma did_key_error_class:
  assumes "resolve_did_key N did = ResolveError e" and "prefix ''did:key:z'' did"
  shows "classify_signature_error (SigError (a @ e) False) = UNRESOLVABLE_DID"
proof -
  from assms obtain x y pat where e: "e = x @ pat @ y"
    and pat: "pat \<in> {''base58 decoding failed'', ''decoded length'', ''unsupported key type''}"
  proof (atomize_elim, goal_cases)
    case 1
    then consider t where "e = ''did:key base58 decoding failed'' @ t" | t where "e = ''did:key decoded length '' @ t"
      | t where "e = ''did:key unsupported key type'' @ t"
      by (auto simp: resolve_did_key_def split: if_splits b58_outcome.splits)
    then show ?case
    proof cases
      case (1 t)
      then have "e = ''did:key '' @ ''base58 decoding failed'' @ t" by simp
      then show ?thesis by blast
    next
      case (2 t)
      then have "e = ''did:key '' @ ''decoded length'' @ CHR '' '' # t" by simp
      then show ?thesis by blast
    next
      case (3 t)
      then have "e = ''did:key '' @ ''unsupported key type'' @ t" by simp
      then show ?thesis by blast
    qed
  qed
  have "contains_sub (a @ e) pat" using contains_sub_in [of "a @ x" pat y] e by simp
  with pat show ?thesis by (auto simp: classify_signature_error_def)
qed

lemma drain_named_error:
  assumes "\<forall>d \<in> set ds. prefix ''did:key:z'' d \<and> resolve_did_key N d \<noteq> ResolvePanic"
    and "drain_results (map (\<lambda>d. (d, resolve_did_key N d)) ds) keys = Inl e"
  shows "classify_signature_error (SigError e False) = UNRESOLVABLE_DID"
  using assms
proof (induction ds arbitrary: keys)
  case (Cons d ds)
  show ?case
  proof (cases "resolve_did_key N d")
    case (ResolveError t)
    with Cons.prems did_key_error_class [OF ResolveError, of "''resolve '' @ d @ '': ''"] show ?thesis by auto
  qed (use Cons in auto)
qed simp

text \<open>What resolution does to a chain: crash, an unresolvable issuer, or the keys.\<close>

fun resolution_class :: "(string + (string \<rightharpoonup> byte list)) option \<Rightarrow> (vcode + (string \<rightharpoonup> byte list)) option" where
  "resolution_class None = None"
| "resolution_class (Some (Inl e)) = Some (Inl (classify_signature_error (SigError e False)))"
| "resolution_class (Some (Inr keys)) = Some (Inr keys)"

lemma resolution_named:
  assumes "lru_ok CA look" and "cache_sound N look (fst w)" and "\<And>ds. set (sched ds) = set ds"
    and "\<forall>d \<in> set dids. prefix ''did:key:z'' d"
  shows "resolution_class (fst (resolve_issuers_parallel sched (resolver_op N CA CS cfg) dids w)) =
    (if \<exists>d \<in> set dids. resolve_did_key N d = ResolvePanic then None
     else if \<exists>d \<in> set dids. resolved_key (resolve_did_key N d) = None then Some (Inl UNRESOLVABLE_DID)
     else Some (Inr (\<lambda>d. if d \<in> set dids then resolved_key (resolve_did_key N d) else None)))"
    and "snd (snd (resolve_issuers_parallel sched (resolver_op N CA CS cfg) dids w)) = snd w"
proof -
  let ?ds = "sched (dedup [] dids)" and ?f = "resolve_did_key N"
  have ds: "set ?ds = set dids" using assms(3) by (simp add: set_dedup)
  with assms(4) have named: "\<forall>d \<in> set ?ds. prefix ''did:key:z'' d" by simp
  note each = resolve_each_named [OF assms(1,2) named, of CS cfg]
  show "snd (snd (resolve_issuers_parallel sched (resolver_op N CA CS cfg) dids w)) = snd w"
    using each by (simp add: resolve_issuers_parallel_def split_beta Let_def)
  have out: "fst (resolve_issuers_parallel sched (resolver_op N CA CS cfg) dids w) =
      (if ResolvePanic \<in> ?f ` set dids then None else Some (drain_results (map (\<lambda>d. (d, ?f d)) ?ds) Map.empty))"
    using each by (simp add: resolve_issuers_parallel_def split_beta Let_def image_image ds)
  show "resolution_class (fst (resolve_issuers_parallel sched (resolver_op N CA CS cfg) dids w)) =
    (if \<exists>d \<in> set dids. ?f d = ResolvePanic then None
     else if \<exists>d \<in> set dids. resolved_key (?f d) = None then Some (Inl UNRESOLVABLE_DID)
     else Some (Inr (\<lambda>d. if d \<in> set dids then resolved_key (?f d) else None)))"
  proof (cases "ResolvePanic \<in> ?f ` set dids")
    case False
    then have fine: "\<forall>d \<in> set ?ds. prefix ''did:key:z'' d \<and> ?f d \<noteq> ResolvePanic" using named ds by force
    show ?thesis
    proof (cases "drain_results (map (\<lambda>d. (d, ?f d)) ?ds) Map.empty")
      case (Inl e)
      have "\<exists>d \<in> set dids. resolved_key (?f d) = None"
      proof (rule ccontr)
        assume "\<not> (\<exists>d \<in> set dids. resolved_key (?f d) = None)"
        then have "drain_results (map (\<lambda>d. (d, ?f d)) ?ds) Map.empty =
            Inr (\<lambda>d. if d \<in> set ?ds then resolved_key (?f d) else None)"
          unfolding drain_results_pure by (simp add: ds)
        with Inl show False by simp
      qed
      moreover have "\<not> (\<exists>d \<in> set dids. ?f d = ResolvePanic)" using False by force
      ultimately show ?thesis using False Inl drain_named_error [OF fine Inl] by (simp add: out)
    next
      case (Inr keys)
      with drain_results_pure [of ?f ?ds Map.empty keys] ds
      have "\<forall>d \<in> set dids. resolved_key (?f d) \<noteq> None"
        "keys = (\<lambda>d. if d \<in> set dids then resolved_key (?f d) else None)" by simp_all
      moreover have "\<not> (\<exists>d \<in> set dids. ?f d = ResolvePanic)" using False by force
      ultimately show ?thesis using False Inr by (simp add: out)
    qed
  next
    case True
    then have "\<exists>d \<in> set dids. ?f d = ResolvePanic" by force
    with True show ?thesis by (simp add: out)
  qed
qed

lemma chain_decoded_beside:
  assumes "resolution_class (fst (resolve_issuers_parallel sched (Resolve d) (issuer_dids rs iv) w)) =
      resolution_class (fst (resolve_issuers_parallel sched' (Resolve d) (issuer_dids rs iv) w'))"
    and "snd (snd (resolve_issuers_parallel sched (Resolve d) (issuer_dids rs iv) w)) =
      snd (snd (resolve_issuers_parallel sched' (Resolve d) (issuer_dids rs iv) w'))"
    and "beside_resolver d" and "snd w = snd w'"
  shows "same_beside (chain_decoded pr sched d now b rs iv w) (chain_decoded pr sched' d now b rs iv w')"
proof (cases "block_b pr (Receipts b) rs iv")
  case None
  obtain out w1 where r: "resolve_issuers_parallel sched (Resolve d) (issuer_dids rs iv) w = (out, w1)" by (rule prod.exhaust)
  obtain out' w1' where r': "resolve_issuers_parallel sched' (Resolve d) (issuer_dids rs iv) w' = (out', w1')" by (rule prod.exhaust)
  from assms(1,2) r r' have same: "resolution_class out = resolution_class out'" "snd w1 = snd w1'" by simp_all
  consider "out = None" "out' = None" | e e' where "out = Some (Inl e)" "out' = Some (Inl e')"
      "classify_signature_error (SigError e False) = classify_signature_error (SigError e' False)"
    | keys where "out = Some (Inr keys)" "out' = Some (Inr keys)"
    using same(1) by (cases out rule: resolution_class.cases; cases out' rule: resolution_class.cases) auto
  then show ?thesis
  proof cases
    case 1
    with None r r' same(2) show ?thesis by (simp add: chain_decoded_def same_beside_def)
  next
    case 2
    with None r r' same(2) show ?thesis by (simp add: chain_decoded_def same_beside_def)
  next
    case (3 keys)
    show ?thesis
    proof (cases "blocks_cde pr d now keys b rs iv")
      case (Some code)
      with 3 None r r' same(2) show ?thesis by (simp add: chain_decoded_def same_beside_def)
    next
      case cde: None
      obtain code w2 w2' where f: "block_f d rs w1 = (code, w2)" "block_f d rs w1' = (code, w2')" "snd w2 = snd w2'"
        by (rule besideE [OF beside_block_f [OF assms(3)] same(2)])
      obtain res w3 w3' where "finish_chain pr d (Receipts b) rs w2 = (res, w3)"
          "finish_chain pr d (Receipts b) rs w2' = (res, w3')" "snd w3 = snd w3'"
        by (rule besideE [OF beside_finish_chain [OF assms(3)] f(3)])
      with f 3 None cde r r' show ?thesis by (cases code) (simp_all add: chain_decoded_def same_beside_def)
    qed
  qed
qed (simp add: chain_decoded_def same_beside_def assms(4))

text \<open>
  C29. The verdict on a chain of did:key identities is a function of the bundle, the clock and the
  revocation and receipt stores. Take two runs on the real resolver, each in any state that earlier
  resolutions, expiry, eviction and any behaviour of remote hosts lead to, and with the goroutines
  of \<^verbatim>\<open>resolveIssuersParallel\<close> scheduled in any order. If the issuers are did:key identifiers and the
  other dependencies do not look into the resolver, both runs give the same result, be it a
  result with the same error code or the crash, and leave the stores the same. (For did:web
  issuers the answers of the remote hosts decide; which of several failing issuers is reported
  first depends on the schedule, but not the code.)
\<close>

theorem did_key_verdict_stable:
  assumes "lru_ok CA look" and "resolver_reach env N CA CS cfg r" and "resolver_reach env' N CA CS cfg r'"
    and "Resolve d = resolver_op N CA CS cfg" and "beside_resolver d"
    and "\<And>ds. set (sched ds) = set ds" and "\<And>ds. set (sched' ds) = set ds"
    and "\<And>rs iv did. decode_bundle_receipts pr b = Some rs \<Longrightarrow>
      decode_jwt_payload (unmarshal_invocation pr) (Invocation b) = Some iv \<Longrightarrow>
      did \<in> set (issuer_dids rs iv) \<Longrightarrow> prefix ''did:key:z'' did"
  shows "fst (chain pr sched d now b (r, v)) = fst (chain pr sched' d now b (r', v)) \<and>
    snd (snd (chain pr sched d now b (r, v))) = snd (snd (chain pr sched' d now b (r', v)))"
proof -
  have sound: "cache_sound N look (fst (r, v))" "cache_sound N look (fst (r', v))"
    using reach_cache_sound [OF assms(1)] assms(2,3) by auto
  have "same_beside (chain_decoded pr sched d now b rs iv (r, v)) (chain_decoded pr sched' d now b rs iv (r', v))"
    if "decode_bundle_receipts pr b = Some rs" "decode_jwt_payload (unmarshal_invocation pr) (Invocation b) = Some iv" for rs iv
  proof (rule chain_decoded_beside)
    from assms(8) [OF that] have named: "\<forall>did \<in> set (issuer_dids rs iv). prefix ''did:key:z'' did" by blast
    note runs = resolution_named [OF assms(1) sound(1) assms(6) named, of CS cfg]
      resolution_named [OF assms(1) sound(2) assms(7) named, of CS cfg]
    show "resolution_class (fst (resolve_issuers_parallel sched (Resolve d) (issuer_dids rs iv) (r, v))) =
        resolution_class (fst (resolve_issuers_parallel sched' (Resolve d) (issuer_dids rs iv) (r', v)))"
      unfolding assms(4) runs(1,3) by (rule refl)
    show "snd (snd (resolve_issuers_parallel sched (Resolve d) (issuer_dids rs iv) (r, v))) =
        snd (snd (resolve_issuers_parallel sched' (Resolve d) (issuer_dids rs iv) (r', v)))"
      unfolding assms(4) runs(2,4) by simp
  qed (simp_all add: assms(5))
  then show ?thesis by (auto simp: chain_def same_beside_def split: option.split)
qed

theorem did_key_verdict_stable_witness:
  "\<exists>res. fst (chain (trust_prims trust_did) rev trust_deps 300 trust_bundle
     (snd (resolve demo_net list_lru list_lru demo_config ''did:web:h'' demo_resolver), ())) = Some res \<and> Valid res"
proof -
  have "fst (chain (trust_prims trust_did) id trust_deps 300 trust_bundle (demo_resolver, ())) =
    fst (chain (trust_prims trust_did) rev trust_deps 300 trust_bundle
      (snd (resolve demo_net list_lru list_lru demo_config ''did:web:h'' demo_resolver), ()))"
  proof (rule did_key_verdict_stable [OF list_lru_ok demo_created [of "\<lambda>_ _. False"]
        resolver_reach.resolved [OF demo_created [of "\<lambda>_ _. False"]], THEN conjunct1])
    show "beside_resolver trust_deps" by (simp add: beside_resolver_def trust_deps_def demo_deps_def)
  qed (auto simp: trust_deps_def trust_decoded issuer_dids_def trust_root_def trust_invocation_def trust_did_def did_key_of_def)
  moreover have "\<exists>res. fst (chain (trust_prims trust_did) id trust_deps 300 trust_bundle (demo_resolver, ())) = Some res \<and> Valid res"
    using trust_accepted by (auto simp: accepts_def split: option.splits prod.splits)
  ultimately show ?thesis by simp
qed

end
