(* ===== verification/DRS_Concurrent.thy ===== *)
theory DRS_Concurrent
  imports DRS_Demo DRS_Trust
begin

text \<open>
  Overlapping requests to the server of \<^verbatim>\<open>cmd/server/main.go\<close>. \<^verbatim>\<open>net/http\<close> runs every request in a
  goroutine of its own, so requests interleave wherever the code leaves the shared state: a request
  to \<^verbatim>\<open>/verify\<close> is cut into the phases between which other requests may run (decoding with the pure
  blocks A and B, resolution of the issuers, blocks C to E on the keys, every single lookup of block F,
  every store access for a receipt or its timestamp, and the nonce claim). Requests to the other endpoints have one phase. The rate
  limiters in front only decide which requests arrive.
\<close>

section \<open>Phases\<close>

datatype phase =
    Arrived
  | Resolving verify_request "delegation_receipt list" invocation_receipt
  | Checking verify_request "delegation_receipt list" invocation_receipt "string \<rightharpoonup> byte list"
  | Revoking verify_request "delegation_receipt list" "delegation_receipt list"
  | Screening verify_request "delegation_receipt list" "delegation_receipt list"
  | Storing verify_request "delegation_receipt list" "string list" "string list"
  | Stamping verify_request "delegation_receipt list" "string list" "string list" "timestamp_result list"
  | Claiming verify_request verification_result
  | Answered "response option"

definition rejection :: "vcode \<Rightarrow> phase" where
  "rejection code = Answered (Some (200, VerifyBody (invalid_result code)))"

definition request_deps :: "('w, 'n, 'f, 'c, 'l) server \<Rightarrow> verify_request \<Rightarrow> 'w deps" where
  "request_deps S req = (sv_deps S)\<lparr>IncludeTimestamps := vr_include_timestamps req\<rparr>"

abbreviation decoded_request :: "('w, 'n, 'f, 'c, 'l) server \<Rightarrow> request \<Rightarrow> decode_error + verify_request" where
  "decoded_request S r \<equiv> decode_verify (sv_verify_json S) (max_bytes_reader (sint (sv_max_body S)) (rq_body r))"

text \<open>The endpoints with one phase.\<close>

definition other_endpoint ::
  "('w, 'n, 'f, 'c, 'l) server \<Rightarrow> 'f occasion \<Rightarrow> request \<Rightarrow> 'w \<times> 'n \<Rightarrow> response option \<times> 'w \<times> 'n" where
  "other_endpoint S oc r s =
     (if rq_path r = ''/healthz'' then (Some liveness, s)
      else if rq_path r = ''/readyz'' then (Some (readiness (sv_status S (fst s))), s)
      else if rq_path r = ''/admin/revoke'' then admin_handler S oc r s
      else (Some (404, ErrorText ''404 page not found''), s))"

text \<open>The result of \<^verbatim>\<open>verify.Chain\<close> with the binding label of the handler.\<close>

definition finished ::
  "('w, 'n, 'f, 'c, 'l) server \<Rightarrow> verify_request \<Rightarrow> delegation_receipt list \<Rightarrow> string list \<Rightarrow> timestamp_result list \<Rightarrow>
   verification_result" where
  "finished S req rs ws ts =
     (let result = (valid_result (success_context rs))\<lparr>Timestamps := ts, StoreWarnings := ws\<rparr>
      in if 0 < length (vr_body req)
         then result\<lparr>Binding := compute_binding_result (sv_json S) (sv_verify_json S) (vr_body req)
                                 (Invocation (vr_bundle req))\<rparr>
         else result)"

text \<open>Decoding and the blocks that look at the bundle only.\<close>

definition first_phase :: "('w, 'n, 'f, 'c, 'l) server \<Rightarrow> request \<Rightarrow> phase" where
  "first_phase S r =
     (if rq_method r \<noteq> ''POST'' then Answered (Some (405, ErrorText ''method not allowed''))
      else case decoded_request S r of
             Inl DecodeTooLarge \<Rightarrow> Answered (Some (413, ErrorText ''REQUEST_BODY_TOO_LARGE''))
           | Inl (DecodeFailed e) \<Rightarrow> Answered (Some (400, ErrorText e))
           | Inr req \<Rightarrow>
               (case block_a (vr_bundle req) of
                  Some code \<Rightarrow> rejection code
                | None \<Rightarrow>
                    (case decode_bundle_receipts (sv_prims S) (vr_bundle req) of
                       None \<Rightarrow> rejection MALFORMED_RECEIPT
                     | Some rs \<Rightarrow>
                         (case decode_jwt_payload (unmarshal_invocation (sv_prims S)) (Invocation (vr_bundle req)) of
                            None \<Rightarrow> rejection MALFORMED_INVOCATION
                          | Some iv \<Rightarrow>
                              (case block_b (sv_prims S) (Receipts (vr_bundle req)) rs iv of
                                 Some code \<Rightarrow> rejection code
                               | None \<Rightarrow> Resolving req rs iv)))))"

fun phase_step ::
  "('w, 'n, 'f, 'c, 'l) server \<Rightarrow> 'f occasion \<Rightarrow> request \<Rightarrow> phase \<Rightarrow> 'w \<times> 'n \<Rightarrow> phase \<times> 'w \<times> 'n" where
  "phase_step S oc r Arrived s =
     (if rq_path r = ''/verify'' then (first_phase S r, s)
      else let (resp, s') = other_endpoint S oc r s in (Answered resp, s'))"
| "phase_step S oc r (Resolving req rs iv) (w, n) =
     (case resolve_issuers_parallel (oc_sched oc) (Resolve (sv_deps S)) (issuer_dids rs iv) w of
        (None, w') \<Rightarrow> (Answered None, w', n)
      | (Some (Inl e), w') \<Rightarrow> (rejection (classify_signature_error (SigError e False)), w', n)
      | (Some (Inr keys), w') \<Rightarrow> (Checking req rs iv keys, w', n))"
| "phase_step S oc r (Checking req rs iv keys) s =
     (case blocks_cde (sv_prims S) (sv_deps S) (oc_now oc) keys (vr_bundle req) rs iv of
        Some code \<Rightarrow> (rejection code, s)
      | None \<Rightarrow> (Revoking req rs rs, s))"
| "phase_step S oc r (Revoking req rs todo) (w, n) =
     (case (Revocation (sv_deps S), todo) of
        (Some is_rev, x # todo') \<Rightarrow>
          (case remote_revocation is_rev [x] w of
             (Some code, w') \<Rightarrow> (rejection code, w', n)
           | (None, w') \<Rightarrow> (Revoking req rs todo', w', n))
      | _ \<Rightarrow> (Screening req rs rs, w, n))"
| "phase_step S oc r (Screening req rs todo) (w, n) =
     (case (LocalRevoked (sv_deps S), todo) of
        (Some is_rev, x # todo') \<Rightarrow>
          (case local_revocation (\<lambda>i. is_rev i w) [x] of
             Some code \<Rightarrow> (rejection code, w, n)
           | None \<Rightarrow> (Screening req rs todo', w, n))
      | _ \<Rightarrow> (Storing req rs (Receipts (vr_bundle req)) [], w, n))"
| "phase_step S oc r (Storing req rs todo ws) (w, n) =
     (case (StoreOps (sv_deps S), todo) of
        (Some (put, get), jwt # todo') \<Rightarrow>
          let (ws', w') = store_receipts (sv_prims S) put [jwt] w in (Storing req rs todo' (ws @ ws'), w', n)
      | _ \<Rightarrow> (Stamping req rs (if vr_include_timestamps req then Receipts (vr_bundle req) else []) ws [], w, n))"
| "phase_step S oc r (Stamping req rs todo ws ts) (w, n) =
     (case (StoreOps (sv_deps S), todo) of
        (Some (put, get), jwt # todo') \<Rightarrow>
          let (ts', w') = check_timestamps (sv_prims S) get (VerifyTimestamp (sv_deps S)) (length ts) [jwt] w
          in (Stamping req rs todo' ws (ts @ ts'), w', n)
      | _ \<Rightarrow> (Claiming req (finished S req rs ws ts), w, n))"
| "phase_step S oc r (Claiming req result) (w, n) =
     (case check_nonce_replay (sv_json S) (Invocation (vr_bundle req)) (Some (sv_check S (oc_nonce oc))) n of
        (Some resp, n') \<Rightarrow> (Answered (Some resp), w, n')
      | (None, n') \<Rightarrow> (Answered (Some (200, VerifyBody result)), w, n'))"
| "phase_step S oc r (Answered resp) s = (Answered resp, s)"

section \<open>Interleavings\<close>

record ('w, 'n) traffic =
  tr_world :: 'w
  tr_nonces :: 'n
  tr_calls :: "(request \<times> phase) list"

text \<open>A crash ends the process, and with it all requests.\<close>

definition crashed :: "('w, 'n) traffic \<Rightarrow> bool" where
  "crashed st = list_ex (\<lambda>c. snd c = Answered None) (tr_calls st)"

definition traffic_step ::
  "('w, 'n, 'f, 'c, 'l) server \<Rightarrow> nat \<times> 'f occasion \<Rightarrow> ('w, 'n) traffic \<Rightarrow> ('w, 'n) traffic" where
  "traffic_step S ev st =
     (if fst ev < length (tr_calls st) \<and> \<not> crashed st
      then let (r, p) = tr_calls st ! fst ev;
               (p', w', n') = phase_step S (snd ev) r p (tr_world st, tr_nonces st)
           in \<lparr>tr_world = w', tr_nonces = n', tr_calls = (tr_calls st)[fst ev := (r, p')]\<rparr>
      else st)"

definition traffic_run ::
  "('w, 'n, 'f, 'c, 'l) server \<Rightarrow> (nat \<times> 'f occasion) list \<Rightarrow> ('w, 'n) traffic \<Rightarrow> ('w, 'n) traffic" where
  "traffic_run S evs st = fold (traffic_step S) evs st"

definition arrivals :: "'w \<Rightarrow> 'n \<Rightarrow> request list \<Rightarrow> ('w, 'n) traffic" where
  "arrivals w n rs = \<lparr>tr_world = w, tr_nonces = n, tr_calls = map (\<lambda>r. (r, Arrived)) rs\<rparr>"

lemma traffic_run_simps [simp]:
  "traffic_run S [] st = st"
  "traffic_run S (ev # evs) st = traffic_run S evs (traffic_step S ev st)"
  "traffic_run S (evs @ evs') st = traffic_run S evs' (traffic_run S evs st)"
  by (simp_all add: traffic_run_def)

text \<open>One step, as an elimination rule.\<close>

lemma traffic_step_cases:
  obtains (idle) "traffic_step S ev st = st"
  | (move) r p p' w' n' where "fst ev < length (tr_calls st)" "tr_calls st ! fst ev = (r, p)"
      "phase_step S (snd ev) r p (tr_world st, tr_nonces st) = (p', w', n')"
      "traffic_step S ev st = \<lparr>tr_world = w', tr_nonces = n', tr_calls = (tr_calls st)[fst ev := (r, p')]\<rparr>"
proof (cases "fst ev < length (tr_calls st) \<and> \<not> crashed st")
  case True
  obtain r p where "tr_calls st ! fst ev = (r, p)" by (cases "tr_calls st ! fst ev")
  moreover obtain p' w' n' where "phase_step S (snd ev) r p (tr_world st, tr_nonces st) = (p', w', n')"
    by (cases "phase_step S (snd ev) r p (tr_world st, tr_nonces st)")
  ultimately show thesis using True by (intro move) (simp_all add: traffic_step_def)
qed (use idle in \<open>auto simp: traffic_step_def\<close>)

text \<open>A bound on the steps that are left; block A limits the receipts of a bundle.\<close>

fun phase_rank :: "phase \<Rightarrow> nat" where
  "phase_rank Arrived = 8 + 4 * maxChainDepth"
| "phase_rank (Resolving req rs iv) = 7 + 2 * length (Receipts (vr_bundle req)) + 2 * length rs"
| "phase_rank (Checking req rs iv keys) = 6 + 2 * length (Receipts (vr_bundle req)) + 2 * length rs"
| "phase_rank (Revoking req rs todo) = 5 + 2 * length (Receipts (vr_bundle req)) + length rs + length todo"
| "phase_rank (Screening req rs todo) = 4 + 2 * length (Receipts (vr_bundle req)) + length todo"
| "phase_rank (Storing req rs todo ws) = 3 + length (Receipts (vr_bundle req)) + length todo"
| "phase_rank (Stamping req rs todo ws ts) = 2 + length todo"
| "phase_rank (Claiming req result) = 1"
| "phase_rank (Answered resp) = 0"

lemma phase_rank_0: "phase_rank p = 0 \<longleftrightarrow> (\<exists>resp. p = Answered resp)"
  by (cases p) auto

lemma rejection_rank [simp]: "phase_rank (rejection code) = 0"
  by (simp add: rejection_def)

lemma first_phase_rank: "phase_rank (first_phase S r) \<le> 7 + 4 * maxChainDepth"
  by (auto simp: first_phase_def block_a_None maxChainDepth_def dest!: decode_bundle_receipts_length
      split: sum.split decode_error.split option.split)

lemma phase_step_rank:
  "phase_step S oc r p s = (p', s') \<Longrightarrow> phase_rank p' \<le> phase_rank p - 1"
  using first_phase_rank [of S r]
  by (cases "(S, oc, r, p, s)" rule: phase_step.cases)
    (auto simp: split_beta Let_def split: if_splits option.splits prod.splits sum.splits list.splits)

section \<open>One request alone\<close>

text \<open>The blocks look at the dependencies, but not at the timestamp flag.\<close>

lemma blocks_ignore_timestamps:
  "blocks_cde pr (d\<lparr>IncludeTimestamps := x\<rparr>) = blocks_cde pr d" "block_f (d\<lparr>IncludeTimestamps := x\<rparr>) = block_f d"
  by (intro ext; simp add: blocks_cde_def block_f_def split: prod.split option.split)+

text \<open>\<open>k\<close> steps of one request without others in between.\<close>

fun alone ::
  "('w, 'n, 'f, 'c, 'l) server \<Rightarrow> 'f occasion \<Rightarrow> request \<Rightarrow> nat \<Rightarrow> phase \<Rightarrow> 'w \<times> 'n \<Rightarrow> phase \<times> 'w \<times> 'n" where
  "alone S oc r 0 p s = (p, s)"
| "alone S oc r (Suc k) p s =
     (if p = Answered None then (p, s) else let (p', s') = phase_step S oc r p s in alone S oc r k p' s')"

lemma alone_answered [simp]: "alone S oc r k (Answered a) s = (Answered a, s)"
  by (induction k) simp_all

lemma alone_rejection [simp]:
  "alone S oc r k (rejection code) s = (Answered (Some (200, VerifyBody (invalid_result code))), s)"
  by (simp add: rejection_def)

lemma rejection_not_crash [simp]: "rejection code \<noteq> Answered None"
  by (simp add: rejection_def)

lemma alone_step:
  assumes "p \<noteq> Answered None" and "phase_rank p \<le> k" and "phase_rank p \<noteq> 0"
  shows "alone S oc r k p s = (let (p', s') = phase_step S oc r p s in alone S oc r (k - 1) p' s')"
  using assms by (cases k) simp_all

text \<open>More steps than the rank change nothing, so a request can be run out.\<close>

lemma alone_enough:
  "phase_rank p \<le> k \<Longrightarrow> alone S oc r k p s = alone S oc r (phase_rank p) p s"
proof (induction k arbitrary: p s rule: less_induct)
  case (less k)
  show ?case
  proof (cases "phase_rank p = 0")
    case False
    obtain p' s' where step: "phase_step S oc r p s = (p', s')" by (cases "phase_step S oc r p s")
    have rank: "phase_rank p' \<le> phase_rank p - 1" by (rule phase_step_rank [OF step])
    have "p \<noteq> Answered None" using False by auto
    with step False less.prems have "alone S oc r k p s = alone S oc r (k - 1) p' s'"
        "alone S oc r (phase_rank p) p s = alone S oc r (phase_rank p - 1) p' s'"
      using alone_step [of p k S oc r s] alone_step [of p "phase_rank p" S oc r s] by simp_all
    moreover have "alone S oc r (k - 1) p' s' = alone S oc r (phase_rank p') p' s'"
      by (rule less.IH) (use rank less.prems False in linarith)+
    moreover have "alone S oc r (phase_rank p - 1) p' s' = alone S oc r (phase_rank p') p' s'"
      by (rule less.IH) (use rank less.prems False in linarith)+
    ultimately show ?thesis by simp
  qed (auto simp: phase_rank_0)
qed

definition run_out ::
  "('w, 'n, 'f, 'c, 'l) server \<Rightarrow> 'f occasion \<Rightarrow> request \<Rightarrow> phase \<Rightarrow> 'w \<times> 'n \<Rightarrow> phase \<times> 'w \<times> 'n" where
  "run_out S oc r p s = alone S oc r (phase_rank p) p s"

lemma run_out_Answered [simp]: "run_out S oc r (Answered a) s = (Answered a, s)"
  by (simp add: run_out_def)

lemma run_out_rejection [simp]:
  "run_out S oc r (rejection code) s = (Answered (Some (200, VerifyBody (invalid_result code))), s)"
  by (simp add: rejection_def)

lemma run_out_step:
  assumes "phase_rank p \<noteq> 0" and "phase_step S oc r p s = (p', s')"
  shows "run_out S oc r p s = run_out S oc r p' s'"
proof -
  have "p \<noteq> Answered None" using assms(1) by auto
  from alone_step [OF this order_refl assms(1), of S oc r s] assms(2)
  have "run_out S oc r p s = alone S oc r (phase_rank p - 1) p' s'" by (simp add: run_out_def)
  with alone_enough [OF phase_step_rank [OF assms(2)]] show ?thesis by (simp add: run_out_def)
qed

lemma traffic_run_alone:
  assumes "alone S oc r k p (w, n) = (p', w', n')"
  shows "traffic_run S (replicate k (0, oc)) \<lparr>tr_world = w, tr_nonces = n, tr_calls = [(r, p)]\<rparr> =
    \<lparr>tr_world = w', tr_nonces = n', tr_calls = [(r, p')]\<rparr>"
  using assms
proof (induction k arbitrary: p w n)
  case (Suc k)
  show ?case
  proof (cases "p = Answered None")
    case True
    have "traffic_run S (replicate m (0, oc)) st = st" if "crashed st" for m st
      by (induction m) (simp_all add: traffic_step_def that)
    with True Suc.prems show ?thesis by (simp add: crashed_def del: replicate.simps)
  next
    case False
    obtain p1 w1 n1 where one: "phase_step S oc r p (w, n) = (p1, w1, n1)" by (cases "phase_step S oc r p (w, n)")
    with False Suc show ?thesis by (simp add: traffic_step_def crashed_def)
  qed
qed simp

lemma run_out_traffic:
  assumes "run_out S oc r Arrived (w, n) = (p, w', n')"
  shows "traffic_run S (replicate (8 + 4 * maxChainDepth) (0, oc)) (arrivals w n [r]) =
    \<lparr>tr_world = w', tr_nonces = n', tr_calls = [(r, p)]\<rparr>"
  using traffic_run_alone [OF assms [unfolded run_out_def]] by (simp add: arrivals_def)

text \<open>What is left to do after the bundle has been decoded, in terms of the chain verification.\<close>

definition claim_result ::
  "('w, 'n, 'f, 'c, 'l) server \<Rightarrow> 'f occasion \<Rightarrow> verify_request \<Rightarrow> verification_result option \<times> 'w \<Rightarrow> 'n \<Rightarrow>
   response option \<times> 'w \<times> 'n" where
  "claim_result S oc req out n =
     (case out of
        (None, w) \<Rightarrow> (None, (w, n))
      | (Some result, w) \<Rightarrow>
          if Valid result
          then let result' = (if 0 < length (vr_body req)
                     then result\<lparr>Binding := compute_binding_result (sv_json S) (sv_verify_json S) (vr_body req)
                                            (Invocation (vr_bundle req))\<rparr>
                     else result)
               in (case check_nonce_replay (sv_json S) (Invocation (vr_bundle req)) (Some (sv_check S (oc_nonce oc))) n of
                     (Some resp, n') \<Rightarrow> (Some resp, (w, n'))
                   | (None, n') \<Rightarrow> (Some (200, VerifyBody result'), (w, n')))
          else (Some (200, VerifyBody result), (w, n)))"

lemma run_out_stamping:
  "run_out S oc r (Stamping req rs todo ws ts) (w, n) =
     (let (ts', w') = (case StoreOps (sv_deps S) of
                         None \<Rightarrow> ([], w)
                       | Some (put, get) \<Rightarrow>
                           check_timestamps (sv_prims S) get (VerifyTimestamp (sv_deps S)) (length ts) todo w)
      in run_out S oc r (Claiming req (finished S req rs ws (ts @ ts'))) (w', n))"
proof (cases "StoreOps (sv_deps S)")
  case (Some ops)
  obtain put get where "ops = (put, get)" by (cases ops)
  with Some show ?thesis
    by (induction todo arbitrary: w ts) (simp_all add: run_out_step split_beta Let_def)
qed (simp add: run_out_step)

lemma run_out_storing:
  "run_out S oc r (Storing req rs todo ws) (w, n) =
     (let (ws', w') = (case StoreOps (sv_deps S) of
                         None \<Rightarrow> ([], w) | Some (put, get) \<Rightarrow> store_receipts (sv_prims S) put todo w)
      in run_out S oc r (Stamping req rs (if vr_include_timestamps req then Receipts (vr_bundle req) else []) (ws @ ws') []) (w', n))"
proof (cases "StoreOps (sv_deps S)")
  case (Some ops)
  obtain put get where ops: "ops = (put, get)" by (cases ops)
  show ?thesis
  proof (induction todo arbitrary: w ws)
    case (Cons jwt todo)
    have "store_receipts (sv_prims S) put (jwt # todo) w =
        (let (ws1, w1) = store_receipts (sv_prims S) put [jwt] w; (ws2, w2) = store_receipts (sv_prims S) put todo w1
         in (ws1 @ ws2, w2))"
      by (simp add: split_beta Let_def split: option.split)
    with Some ops Cons show ?case by (simp add: run_out_step split_beta Let_def del: store_receipts.simps)
  qed (simp add: run_out_step Some ops)
qed (simp add: run_out_step)

lemma run_out_finishing:
  "run_out S oc r (Storing req rs (Receipts (vr_bundle req)) []) (w, n) =
     (let (result, w') = finish_chain (sv_prims S) (request_deps S req) (Receipts (vr_bundle req)) rs w;
          (resp, s) = claim_result S oc req (Some result, w') n
      in (Answered resp, s))"
proof -
  have claim: "run_out S oc r (Claiming req (finished S req rs ws ts)) (w2, n) =
      (let (resp, s) = claim_result S oc req
             (Some ((valid_result (success_context rs))\<lparr>Timestamps := ts, StoreWarnings := ws\<rparr>), w2) n
       in (Answered resp, s))" for ws ts w2
    by (simp add: run_out_def claim_result_def finished_def valid_result_def Let_def split: option.split prod.split)
  show ?thesis
    by (simp add: run_out_storing run_out_stamping claim finish_chain_def request_deps_def split_beta Let_def
        split: option.split)
qed

lemma run_out_screening:
  "run_out S oc r (Screening req rs todo) (w, n) =
     (case (case LocalRevoked (sv_deps S) of
              None \<Rightarrow> None | Some is_rev \<Rightarrow> local_revocation (\<lambda>i. is_rev i w) todo) of
        Some code \<Rightarrow> (Answered (Some (200, VerifyBody (invalid_result code))), w, n)
      | None \<Rightarrow> run_out S oc r (Storing req rs (Receipts (vr_bundle req)) []) (w, n))"
proof (cases "LocalRevoked (sv_deps S)")
  case None
  then show ?thesis by (simp add: run_out_step)
next
  case (Some is_rev)
  show ?thesis
  proof (induction todo)
    case Nil
    with Some show ?case by (simp add: run_out_step local_revocation_def)
  next
    case (Cons x todo)
    have "local_revocation f (x # todo) = (case local_revocation f [x] of Some c \<Rightarrow> Some c | None \<Rightarrow> local_revocation f todo)" for f
      by (simp add: local_revocation_def split: option.split)
    with Some Cons show ?case
      by (cases "local_revocation (\<lambda>i. is_rev i w) [x]") (simp_all add: run_out_step)
  qed
qed

lemma run_out_revoking:
  "run_out S oc r (Revoking req rs todo) (w, n) =
     (case (case Revocation (sv_deps S) of None \<Rightarrow> (None, w) | Some is_rev \<Rightarrow> remote_revocation is_rev todo w) of
        (Some code, w') \<Rightarrow> (Answered (Some (200, VerifyBody (invalid_result code))), w', n)
      | (None, w') \<Rightarrow> run_out S oc r (Screening req rs rs) (w', n))"
proof (cases "Revocation (sv_deps S)")
  case None
  then show ?thesis by (simp add: run_out_step)
next
  case (Some is_rev)
  show ?thesis
  proof (induction todo arbitrary: w)
    case Nil
    with Some show ?case by (simp add: run_out_step)
  next
    case (Cons x todo)
    obtain c w' where one: "remote_revocation is_rev [x] w = (c, w')" by (cases "remote_revocation is_rev [x] w")
    moreover have "remote_revocation is_rev (x # todo) w =
        (case remote_revocation is_rev [x] w of (Some c, w') \<Rightarrow> (Some c, w') | (None, w') \<Rightarrow> remote_revocation is_rev todo w')"
      by (simp split: option.split sum.split prod.split)
    ultimately show ?case
      using Some Cons by (cases c) (simp_all add: run_out_step del: remote_revocation.simps)
  qed
qed

lemma run_out_block_f:
  "run_out S oc r (Revoking req rs rs) (w, n) =
     (case block_f (sv_deps S) rs w of
        (Some code, w') \<Rightarrow> (Answered (Some (200, VerifyBody (invalid_result code))), w', n)
      | (None, w') \<Rightarrow> run_out S oc r (Storing req rs (Receipts (vr_bundle req)) []) (w', n))"
proof -
  obtain c w' where "(case Revocation (sv_deps S) of None \<Rightarrow> (None, w) | Some is_rev \<Rightarrow> remote_revocation is_rev rs w) = (c, w')"
    by fastforce
  then show ?thesis
    by (cases c) (simp_all add: run_out_revoking run_out_screening block_f_def split: option.split)
qed

lemma run_out_resolving:
  assumes "block_b (sv_prims S) (Receipts (vr_bundle req)) rs iv = None"
  shows "run_out S oc r (Resolving req rs iv) (w, n) =
    (let (resp, s) = claim_result S oc req
           (chain_decoded (sv_prims S) (oc_sched oc) (request_deps S req) (oc_now oc) (vr_bundle req) rs iv w) n
     in (Answered resp, s))"
proof -
  have deps: "Resolve (request_deps S req) = Resolve (sv_deps S)"
      "blocks_cde (sv_prims S) (request_deps S req) = blocks_cde (sv_prims S) (sv_deps S)"
      "block_f (request_deps S req) = block_f (sv_deps S)"
    by (simp_all add: request_deps_def blocks_ignore_timestamps)
  obtain out w1 where res: "resolve_issuers_parallel (oc_sched oc) (Resolve (sv_deps S)) (issuer_dids rs iv) w = (out, w1)"
    by (cases "resolve_issuers_parallel (oc_sched oc) (Resolve (sv_deps S)) (issuer_dids rs iv) w")
  show ?thesis
  proof (cases "\<exists>keys. out = Some (Inr keys)")
    case True
    then obtain keys where out: "out = Some (Inr keys)" by blast
    then have step: "run_out S oc r (Resolving req rs iv) (w, n) = run_out S oc r (Checking req rs iv keys) (w1, n)"
      by (simp add: run_out_step res)
    obtain rev w2 where f: "block_f (sv_deps S) rs w1 = (rev, w2)" by (cases "block_f (sv_deps S) rs w1")
    show ?thesis
      by (cases "blocks_cde (sv_prims S) (sv_deps S) (oc_now oc) keys (vr_bundle req) rs iv"; cases rev)
        (simp_all add: step run_out_step run_out_block_f run_out_finishing chain_decoded_def assms deps res out f
          claim_result_def split_beta Let_def)
  next
    case False
    then consider "out = None" | e where "out = Some (Inl e)" by (metis option.exhaust sum.exhaust)
    then show ?thesis
      by cases (simp_all add: run_out_step chain_decoded_def assms deps res claim_result_def)
  qed
qed

lemma verify_handler_claim:
  "rq_method r = ''POST'' \<Longrightarrow> decoded_request S r = Inr req \<Longrightarrow>
    verify_handler (sv_prims S) (sv_json S) (sv_verify_json S) (oc_sched oc) (oc_now oc) (sv_deps S)
      (Some (sv_check S (oc_nonce oc))) (sv_max_body S) r (w, n) =
    claim_result S oc req (chain (sv_prims S) (oc_sched oc) (request_deps S req) (oc_now oc) (vr_bundle req) w) n"
  by (simp add: verify_handler_def claim_result_def request_deps_def split: prod.split option.split)

lemma claim_invalid:
  "claim_result S oc req (Some (invalid_result code), w) n = (Some (200, VerifyBody (invalid_result code)), (w, n))"
  by (simp add: claim_result_def)

lemma first_phase_rest:
  assumes "rq_method r = ''POST''" and "decoded_request S r = Inr req"
  shows "run_out S oc r (first_phase S r) (w, n) =
    (let (resp, s) = claim_result S oc req
           (chain (sv_prims S) (oc_sched oc) (request_deps S req) (oc_now oc) (vr_bundle req) w) n
     in (Answered resp, s))"
proof (cases "block_a (vr_bundle req)")
  case None
  show ?thesis
  proof (cases "decode_bundle_receipts (sv_prims S) (vr_bundle req)")
    case rs: (Some rs)
    show ?thesis
    proof (cases "decode_jwt_payload (unmarshal_invocation (sv_prims S)) (Invocation (vr_bundle req))")
      case iv: (Some iv)
      show ?thesis
        by (cases "block_b (sv_prims S) (Receipts (vr_bundle req)) rs iv")
          (simp_all add: first_phase_def assms None rs iv chain_def run_out_resolving claim_invalid chain_decoded_def)
    qed (simp add: first_phase_def assms None rs chain_def claim_invalid)
  qed (simp add: first_phase_def assms None chain_def claim_invalid)
qed (simp add: first_phase_def assms chain_def claim_invalid)

text \<open>
  C9. A request that runs alone goes through its phases exactly as the sequential handler: after at
  most as many steps as its rank allows (\<open>8 + 4 * maxChainDepth\<close>, two lookups and two accesses to the
  store for every receipt among them) it is answered, with the response, the shared state and the nonces of
  \<^verbatim>\<open>verifyHandler\<close>. So the interleavings extend the sequential behaviour of the endpoint.
\<close>

theorem phases_alone:
  assumes "rq_path r = ''/verify''"
    and "verify_handler (sv_prims S) (sv_json S) (sv_verify_json S) (oc_sched oc) (oc_now oc) (sv_deps S)
           (Some (sv_check S (oc_nonce oc))) (sv_max_body S) r (w, n) = (resp, w', n')"
  shows "traffic_run S (replicate (8 + 4 * maxChainDepth) (0, oc)) (arrivals w n [r]) =
    \<lparr>tr_world = w', tr_nonces = n', tr_calls = [(r, Answered resp)]\<rparr>"
proof -
  have "run_out S oc r (first_phase S r) (w, n) = (Answered resp, w', n')"
  proof (cases "rq_method r = ''POST'' \<and> (\<exists>req. decoded_request S r = Inr req)")
    case True
    with assms(2) show ?thesis by (auto simp: first_phase_rest verify_handler_claim)
  next
    case False
    with assms(2) show ?thesis
      by (auto simp: first_phase_def verify_handler_def split: sum.splits decode_error.splits if_splits)
  qed
  with assms(1) have "run_out S oc r Arrived (w, n) = (Answered resp, w', n')" by (simp add: run_out_step)
  then show ?thesis by (rule run_out_traffic)
qed

section \<open>Every request is answered\<close>

lemma traffic_step_calls:
  "length (tr_calls (traffic_step S ev st)) = length (tr_calls st)"
  "i \<noteq> fst ev \<Longrightarrow> tr_calls (traffic_step S ev st) ! i = tr_calls st ! i"
  "fst (tr_calls (traffic_step S ev st) ! i) = fst (tr_calls st ! i)"
  by (cases rule: traffic_step_cases [of S ev st]; (auto simp: nth_list_update)[1])+

lemma traffic_run_calls:
  "length (tr_calls (traffic_run S evs st)) = length (tr_calls st)"
  "fst (tr_calls (traffic_run S evs st) ! i) = fst (tr_calls st ! i)"
  by (induction evs arbitrary: st) (simp_all add: traffic_step_calls)

lemma crashed_stays: "crashed st \<Longrightarrow> traffic_step S ev st = st"
  by (simp add: traffic_step_def)

lemma crashed_run: "crashed st \<Longrightarrow> traffic_run S evs st = st"
  by (induction evs) (simp_all add: crashed_stays)

lemma answered_stay:
  "\<forall>c \<in> set (tr_calls st). phase_rank (snd c) = 0 \<Longrightarrow> traffic_run S evs st = st"
proof (induction evs)
  case (Cons ev evs)
  have "traffic_step S ev st = st"
  proof (cases rule: traffic_step_cases [of S ev st])
    case (move r p p' w' n')
    with Cons.prems nth_mem [OF move(1)] have "phase_rank p = 0" by fastforce
    then obtain resp where "p = Answered resp" by (auto simp: phase_rank_0)
    with move show ?thesis using list_update_id [of "tr_calls st" "fst ev"] by simp
  qed
  with Cons show ?case by simp
qed simp

lemma traffic_run_rank:
  assumes "i < length (tr_calls st)" and "\<not> crashed (traffic_run S evs st)"
  shows "phase_rank (snd (tr_calls (traffic_run S evs st) ! i)) \<le>
    phase_rank (snd (tr_calls st ! i)) - length (filter (\<lambda>ev. fst ev = i) evs)"
  using assms
proof (induction evs arbitrary: st)
  case (Cons ev evs)
  have alive: "\<not> crashed st" using Cons.prems(2) crashed_stays [of st S ev] crashed_run [of st S evs] by auto
  have "phase_rank (snd (tr_calls (traffic_step S ev st) ! i)) \<le>
      phase_rank (snd (tr_calls st ! i)) - (if fst ev = i then 1 else 0)"
  proof (cases "fst ev = i")
    case True
    obtain r p where c: "tr_calls st ! i = (r, p)" by (cases "tr_calls st ! i")
    obtain p' w' n' where s: "phase_step S (snd ev) r p (tr_world st, tr_nonces st) = (p', w', n')"
      by (cases "phase_step S (snd ev) r p (tr_world st, tr_nonces st)")
    with True c alive Cons.prems(1) phase_step_rank [OF s] show ?thesis by (simp add: traffic_step_def)
  qed (simp add: traffic_step_calls)
  moreover have "i < length (tr_calls (traffic_step S ev st))" using Cons.prems(1) by (simp add: traffic_step_calls)
  ultimately show ?case using Cons.IH [of "traffic_step S ev st"] Cons.prems(2) by (auto split: if_splits)
qed simp

text \<open>
  C22. No request waits for another: in every interleaving a request that has been given
  \<open>8 + 4 * maxChainDepth\<close> steps is answered, unless the process has crashed.
\<close>

theorem interleaved_request_answered:
  assumes "i < length rs" and "8 + 4 * maxChainDepth \<le> length (filter (\<lambda>ev. fst ev = i) evs)"
    and "\<not> crashed (traffic_run S evs (arrivals w n rs))"
  shows "\<exists>resp. tr_calls (traffic_run S evs (arrivals w n rs)) ! i = (rs ! i, Answered (Some resp))"
proof -
  let ?st = "traffic_run S evs (arrivals w n rs)"
  have "phase_rank (snd (tr_calls ?st ! i)) = 0"
    using traffic_run_rank [of i "arrivals w n rs" S evs] assms by (simp add: arrivals_def)
  then obtain resp where r: "snd (tr_calls ?st ! i) = Answered resp" by (auto simp: phase_rank_0)
  moreover have "fst (tr_calls ?st ! i) = rs ! i" using assms(1) by (simp add: traffic_run_calls) (simp add: arrivals_def)
  moreover have "tr_calls ?st ! i \<in> set (tr_calls ?st)"
    using assms(1) by (intro nth_mem) (simp add: traffic_run_calls, simp add: arrivals_def)
  with assms(3) r have "resp \<noteq> None" by (auto simp: crashed_def list_ex_iff)
  ultimately show ?thesis by (metis option.exhaust prod.collapse)
qed

section \<open>Replay under interleaving\<close>

lemma phase_step_nonce:
  assumes "phase_step S oc r p (w, n) = (p', w', n')"
  shows "check_path (sv_check S) (oc_nonce oc) n n'"
  using assms
proof (cases p)
  case Arrived
  have "n' = n" if "admin_handler S oc r (w, n) = (resp, w', n')" for resp
    using admin_handler_effect(1) [OF that] by simp
  with Arrived assms show ?thesis
    by (auto simp: other_endpoint_def intro: check_path.intros split: if_splits prod.splits)
next
  case (Claiming req result)
  with assms show ?thesis
    by (auto split: prod.splits option.splits intro: check_nonce_replay_path)
qed (use assms in \<open>auto simp: split_beta Let_def intro: check_path.path_stay split: option.splits prod.splits sum.splits list.splits\<close>)

lemma traffic_run_nonce:
  "\<forall>ev \<in> set evs. oc_nonce (snd ev) \<le> T \<Longrightarrow>
    check_path (sv_check S) T (tr_nonces st) (tr_nonces (traffic_run S evs st))"
proof (induction evs arbitrary: st)
  case (Cons ev evs)
  have "check_path (sv_check S) T (tr_nonces st) (tr_nonces (traffic_step S ev st))"
  proof (cases rule: traffic_step_cases [of S ev st])
    case (move r p p' w' n')
    with phase_step_nonce [OF move(3)] Cons.prems show ?thesis by (auto intro: check_path_mono)
  qed (simp add: check_path.path_stay)
  with Cons show ?case by (auto intro: check_path_trans)
qed (simp add: check_path.path_stay)

text \<open>
  C24. The memory of the nonce store is bounded whatever the traffic: however many requests arrive and
  however their phases interleave, with any clock readings, the in-memory store never holds more
  than its configured number of entries, and no JTI twice.
\<close>

theorem interleaved_nonce_bounded:
  assumes "sv_check S = nonce_check"
    and "tr_nonces (traffic_run S evs (arrivals w (nonce_new cap lifetime) rs)) = n"
  shows "int (length (seen n)) \<le> max 0 cap \<and> map_keys_distinct (seen n)"
proof -
  have keeps: "nonce_invar s \<Longrightarrow> nonce_invar s' \<and> maxEntries s' = maxEntries s"
    if "check_path nonce_check T s s'" for T s s'
    using that by (induction rule: check_path.induct) (auto dest: nonce_check_invar)
  obtain T where "\<forall>ev \<in> set evs. oc_nonce (snd ev) \<le> T"
    by (meson finite_imageI finite_set Max_ge imageI that)
  from traffic_run_nonce [OF this, of S "arrivals w (nonce_new cap lifetime) rs"]
  have "check_path nonce_check T (nonce_new cap lifetime) n"
    by (simp add: assms) (simp add: arrivals_def)
  from keeps [OF this nonce_new_invar] show ?thesis by (auto simp: nonce_invar_def) (simp_all add: nonce_new_def)
qed

section \<open>What a phase has established\<close>

text \<open>
  \<open>part_ok\<close> is a property of the shared state that every phase preserves, for example of the resolver
  cache; \<open>clocks\<close> are the readings that block E may have seen.
\<close>

definition decoded_ok ::
  "('w, 'n, 'f, 'c, 'l) server \<Rightarrow> request \<Rightarrow> verify_request \<Rightarrow> delegation_receipt list \<Rightarrow> invocation_receipt \<Rightarrow> bool" where
  "decoded_ok S r req rs iv =
     (decoded_request S r = Inr req \<and> block_a (vr_bundle req) = None \<and>
      decode_bundle_receipts (sv_prims S) (vr_bundle req) = Some rs \<and>
      decode_jwt_payload (unmarshal_invocation (sv_prims S)) (Invocation (vr_bundle req)) = Some iv \<and>
      block_b (sv_prims S) (Receipts (vr_bundle req)) rs iv = None)"

definition resolved_ok ::
  "('w, 'n, 'f, 'c, 'l) server \<Rightarrow> ('w \<Rightarrow> bool) \<Rightarrow> delegation_receipt list \<Rightarrow> invocation_receipt \<Rightarrow>
   (string \<rightharpoonup> byte list) \<Rightarrow> bool" where
  "resolved_ok S part_ok rs iv keys =
     (\<exists>sched w w'. part_ok w \<and>
        resolve_issuers_parallel sched (Resolve (sv_deps S)) (issuer_dids rs iv) w = (Some (Inr keys), w'))"

definition passed ::
  "('w, 'n, 'f, 'c, 'l) server \<Rightarrow> ('w \<Rightarrow> bool) \<Rightarrow> int64 set \<Rightarrow> request \<Rightarrow> verify_request \<Rightarrow>
   delegation_receipt list \<Rightarrow> bool" where
  "passed S part_ok clocks r req rs =
     (\<exists>iv keys now. decoded_ok S r req rs iv \<and> resolved_ok S part_ok rs iv keys \<and> now \<in> clocks \<and>
        chain_spec (sv_prims S) (sv_deps S) now keys (vr_bundle req) rs iv)"

fun phase_ok ::
  "('w, 'n, 'f, 'c, 'l) server \<Rightarrow> ('w \<Rightarrow> bool) \<Rightarrow> int64 set \<Rightarrow> request \<Rightarrow> phase \<Rightarrow> bool" where
  "phase_ok S part_ok clocks r Arrived = True"
| "phase_ok S part_ok clocks r (Resolving req rs iv) = decoded_ok S r req rs iv"
| "phase_ok S part_ok clocks r (Checking req rs iv keys) =
     (decoded_ok S r req rs iv \<and> resolved_ok S part_ok rs iv keys)"
| "phase_ok S part_ok clocks r (Revoking req rs todo) = passed S part_ok clocks r req rs"
| "phase_ok S part_ok clocks r (Screening req rs todo) = passed S part_ok clocks r req rs"
| "phase_ok S part_ok clocks r (Storing req rs todo ws) = passed S part_ok clocks r req rs"
| "phase_ok S part_ok clocks r (Stamping req rs todo ws ts) = passed S part_ok clocks r req rs"
| "phase_ok S part_ok clocks r (Claiming req result) = (\<exists>rs. passed S part_ok clocks r req rs)"
| "phase_ok S part_ok clocks r (Answered resp) =
     (\<forall>res. resp = Some (200, VerifyBody res) \<longrightarrow> Valid res \<longrightarrow> (\<exists>req rs. passed S part_ok clocks r req rs))"

lemma rejection_ok [simp]: "phase_ok S part_ok clocks r (rejection code)"
  by (simp add: rejection_def invalid_result_def)

lemma first_phase_ok: "phase_ok S part_ok clocks r (first_phase S r)"
  by (auto simp: first_phase_def decoded_ok_def split: sum.split decode_error.split option.split)

lemma decoded_ok_spec:
  "decoded_ok S r req rs iv \<Longrightarrow>
    blocks_cde (sv_prims S) (sv_deps S) now keys (vr_bundle req) rs iv = None \<Longrightarrow>
    chain_spec (sv_prims S) (sv_deps S) now keys (vr_bundle req) rs iv"
  using chain_spec_blocks by (fastforce simp: decoded_ok_def)

lemma other_endpoint_payload:
  "other_endpoint S oc r s = (resp, s') \<Longrightarrow> resp \<noteq> Some (200, VerifyBody res)"
  using admin_handler_effect(4) [of S oc r s resp s' res]
  by (auto simp: other_endpoint_def liveness_def readiness_def split: if_splits)

lemma phase_step_ok:
  assumes "phase_step S oc r p (w, n) = (p', s')" and "phase_ok S part_ok clocks r p" and "part_ok w" "oc_now oc \<in> clocks"
  shows "phase_ok S part_ok clocks r p'"
proof (cases p)
  case Arrived
  with assms(1) first_phase_ok [of S part_ok clocks r] show ?thesis
    by (auto split: if_splits prod.splits dest: other_endpoint_payload)
next
  case (Resolving req rs iv)
  have "resolved_ok S part_ok rs iv keys"
    if "resolve_issuers_parallel (oc_sched oc) (Resolve (sv_deps S)) (issuer_dids rs iv) w = (Some (Inr keys), w')" for keys w'
    unfolding resolved_ok_def using that assms(3) by blast
  with Resolving assms show ?thesis
    by (auto split: prod.splits option.splits sum.splits)
next
  case (Checking req rs iv keys)
  with assms have "passed S part_ok clocks r req rs"
    if "blocks_cde (sv_prims S) (sv_deps S) (oc_now oc) keys (vr_bundle req) rs iv = None"
    unfolding passed_def using decoded_ok_spec [OF _ that] by auto
  with Checking assms(1) show ?thesis by (auto split: option.splits)
next
  case (Claiming req result)
  with assms(2) obtain rs where "passed S part_ok clocks r req rs" by auto
  then have "phase_ok S part_ok clocks r (Answered resp)" for resp unfolding phase_ok.simps by blast
  with Claiming assms(1) show ?thesis
    by (auto simp del: phase_ok.simps split: prod.splits option.splits)
qed (use assms in \<open>auto simp: split_beta Let_def split: option.splits prod.splits list.splits\<close>)

definition traffic_ok ::
  "('w, 'n, 'f, 'c, 'l) server \<Rightarrow> ('w \<Rightarrow> bool) \<Rightarrow> int64 set \<Rightarrow> ('w, 'n) traffic \<Rightarrow> bool" where
  "traffic_ok S part_ok clocks st =
     (part_ok (tr_world st) \<and>
      (\<forall>i < length (tr_calls st). phase_ok S part_ok clocks (fst (tr_calls st ! i)) (snd (tr_calls st ! i))))"

definition phases_preserve :: "('w, 'n, 'f, 'c, 'l) server \<Rightarrow> ('w \<Rightarrow> bool) \<Rightarrow> bool" where
  "phases_preserve S part_ok =
     (\<forall>oc r p w n p' w' n'. part_ok w \<longrightarrow> phase_step S oc r p (w, n) = (p', w', n') \<longrightarrow> part_ok w')"

lemma traffic_step_ok:
  assumes "phases_preserve S part_ok" and "traffic_ok S part_ok clocks st" and "oc_now (snd ev) \<in> clocks"
  shows "traffic_ok S part_ok clocks (traffic_step S ev st)"
proof (cases rule: traffic_step_cases [of S ev st])
  case (move r p p' w' n')
  have ok: "part_ok (tr_world st)" "phase_ok S part_ok clocks r p" using assms(2) move by (auto simp: traffic_ok_def)
  with move(3) assms(1) have "part_ok w'" unfolding phases_preserve_def by blast
  moreover have "phase_ok S part_ok clocks r p'" by (rule phase_step_ok [OF move(3) ok(2,1) assms(3)])
  ultimately show ?thesis
    using assms(2) move(1) by (auto simp: traffic_ok_def move(4) nth_list_update)
qed (use assms(2) in simp)

lemma traffic_run_ok:
  assumes "phases_preserve S part_ok" and "oc_now ` snd ` set evs \<subseteq> clocks"
  shows "traffic_ok S part_ok clocks st \<Longrightarrow> traffic_ok S part_ok clocks (traffic_run S evs st)"
  using assms(2) by (induction evs arbitrary: st) (simp_all add: traffic_step_ok assms(1))

lemma arrivals_ok: "part_ok w \<Longrightarrow> traffic_ok S part_ok clocks (arrivals w n rs)"
  by (simp add: traffic_ok_def arrivals_def)

lemma preserve_all: "phases_preserve S (\<lambda>w. True)"
  by (simp add: phases_preserve_def)

text \<open>A valid answer is given by the claim of the JTI of the request's own invocation.\<close>

definition answers_valid ::
  "('w, 'n, 'f, 'c, 'l) server \<Rightarrow> nat \<times> 'f occasion \<Rightarrow> ('w, 'n) traffic \<Rightarrow> request \<Rightarrow> bool" where
  "answers_valid S ev st r =
     (fst ev < length (tr_calls st) \<and> fst (tr_calls st ! fst ev) = r \<and>
      phase_rank (snd (tr_calls st ! fst ev)) \<noteq> 0 \<and>
      (\<exists>res. snd (tr_calls (traffic_step S ev st) ! fst ev) = Answered (Some (200, VerifyBody res)) \<and> Valid res))"

lemma answers_valid_claims:
  assumes "answers_valid S ev st r" and "traffic_ok S part_ok clocks st"
  shows "\<exists>req rs jti. passed S part_ok clocks r req rs \<and>
    decode_invocation_jti (sv_json S) (Invocation (vr_bundle req)) = Some jti \<and>
    sv_check S (oc_nonce (snd ev)) jti (tr_nonces st) = (None, tr_nonces (traffic_step S ev st))"
proof (cases rule: traffic_step_cases [of S ev st])
  case idle
  with assms(1) show ?thesis by (auto simp: answers_valid_def phase_rank_0)
next
  case (move r0 p p' w' n')
  from assms(1) move obtain res where v: "r0 = r" "phase_rank p \<noteq> 0"
      "p' = Answered (Some (200, VerifyBody res))" "Valid res" by (auto simp: answers_valid_def)
  have ok: "phase_ok S part_ok clocks r p" using assms(2) move v(1) by (auto simp: traffic_ok_def)
  show ?thesis
  proof (cases p)
    case Arrived
    have "first_phase S r \<noteq> Answered (Some (200, VerifyBody res))"
      using v(4) by (auto simp: first_phase_def rejection_def invalid_result_def
          split: sum.split decode_error.split option.split)
    with Arrived move(3) v show ?thesis
      by (auto split: if_splits prod.splits dest: other_endpoint_payload)
  next
    case (Claiming req result)
    with move(3) v have "check_nonce_replay (sv_json S) (Invocation (vr_bundle req))
        (Some (sv_check S (oc_nonce (snd ev)))) (tr_nonces st) = (None, n')"
      by (auto split: prod.splits option.splits dest: check_nonce_replay_Some)
    with Claiming ok move(4) show ?thesis by (auto simp: check_nonce_replay_None)
  qed (use move(3) v in \<open>auto simp: rejection_def invalid_result_def split_beta Let_def
      split: option.splits prod.splits sum.splits list.splits\<close>)
qed

text \<open>
  C3. Replay protection holds in every interleaving. However the phases of all requests, other
  endpoints included, interleave on a server with the in-memory nonce store: if two requests with
  the same JTI are both answered as valid, then their claims lie at least the lifetime of a nonce
  apart. Two copies of a request in flight at the same time never both succeed.
\<close>

theorem interleaved_replay_bounded:
  assumes "sv_check S = nonce_check"
    and "answers_valid S ev1 (traffic_run S before (arrivals w (nonce_new cap lifetime) rs)) r1"
    and "answers_valid S ev2 (traffic_run S (before @ ev1 # between) (arrivals w (nonce_new cap lifetime) rs)) r2"
    and "decoded_request S r1 = Inr req1" and "decoded_request S r2 = Inr req2"
    and "decode_invocation_jti (sv_json S) (Invocation (vr_bundle req1)) =
         decode_invocation_jti (sv_json S) (Invocation (vr_bundle req2))"
    and "\<forall>ev \<in> set (ev1 # between). oc_nonce (snd ev) \<le> oc_nonce (snd ev2)"
  shows "oc_nonce (snd ev1) + duration_secs lifetime \<le> oc_nonce (snd ev2)"
proof -
  let ?st0 = "arrivals w (nonce_new cap lifetime) rs"
  let ?st1 = "traffic_run S before ?st0" and ?st2 = "traffic_run S (before @ ev1 # between) ?st0"
  have ok: "traffic_ok S (\<lambda>w. True) UNIV (traffic_run S evs ?st0)" for evs
    by (rule traffic_run_ok [OF preserve_all _ arrivals_ok]) simp_all
  from answers_valid_claims [OF assms(2) ok] assms(4) obtain jti where
      c1: "decode_invocation_jti (sv_json S) (Invocation (vr_bundle req1)) = Some jti"
        "nonce_check (oc_nonce (snd ev1)) jti (tr_nonces ?st1) = (None, tr_nonces (traffic_step S ev1 ?st1))"
    by (auto simp: passed_def decoded_ok_def assms(1))
  from answers_valid_claims [OF assms(3) ok] assms(5,6) c1(1) obtain n3 where
      c2: "nonce_check (oc_nonce (snd ev2)) jti (tr_nonces ?st2) = (None, n3)"
    by (auto simp: passed_def decoded_ok_def assms(1))
  obtain T where "\<forall>ev \<in> set before. oc_nonce (snd ev) \<le> T"
    by (meson finite_imageI finite_set Max_ge imageI that)
  from traffic_run_nonce [OF this, of S ?st0] have "check_path nonce_check T (nonce_new cap lifetime) (tr_nonces ?st1)"
    by (simp add: assms(1)) (simp add: arrivals_def)
  from mem.path_keeps [OF this nonce_new_invar] have
      n: "nonce_invar (tr_nonces ?st1)" "duration_secs (ttl (tr_nonces ?st1)) = duration_secs lifetime"
    by (auto simp: nonce_new_def)
  have "check_path nonce_check (oc_nonce (snd ev2)) (tr_nonces (traffic_step S ev1 ?st1)) (tr_nonces ?st2)"
    using traffic_run_nonce [of between "oc_nonce (snd ev2)" S "traffic_step S ev1 ?st1"] assms(1,7) by simp
  from mem.no_double_accept_path [OF n(1) c1(2) this c2] assms(7) n(2) show ?thesis by simp
qed

section \<open>Authenticity under interleaving\<close>

lemma phase_step_world:
  assumes "phase_step S oc r p (w, n) = (p', w', n')" and "lookups_frame (sv_deps S) part"
  shows "part w' = part w \<or> (\<exists>i e. sv_revoke S (oc_storage oc) i w = (e, w')) \<or>
    (\<exists>dids. w' = snd (resolve_issuers_parallel (oc_sched oc) (Resolve (sv_deps S)) dids w))"
proof (cases p)
  case Arrived
  have "w' = w \<or> (\<exists>i e. sv_revoke S (oc_storage oc) i w = (e, w'))" if "admin_handler S oc r (w, n) = (resp, w', n')" for resp
    using admin_handler_effect(2) [OF that] by simp
  with Arrived assms(1) show ?thesis by (auto simp: other_endpoint_def split: if_splits prod.splits)
next
  case (Resolving req rs iv)
  with assms(1) have "w' = snd (resolve_issuers_parallel (oc_sched oc) (Resolve (sv_deps S)) (issuer_dids rs iv) w)"
    by (auto split: prod.splits option.splits sum.splits)
  then show ?thesis by blast
next
  case (Revoking req rs todo)
  with assms(1) have "w' = w \<or> (\<exists>is_rev x. Revocation (sv_deps S) = Some is_rev \<and> w' = snd (remote_revocation is_rev [x] w))"
    by (auto simp del: remote_revocation.simps split: prod.splits option.splits list.splits) (metis snd_conv)+
  then show ?thesis
    using remote_revocation_frame [of part] lookups_frameD(1) [OF assms(2)] by blast
next
  case (Storing req rs todo ws)
  with assms(1) have "w' = w \<or> (\<exists>put get jwt. StoreOps (sv_deps S) = Some (put, get) \<and>
      w' = snd (store_receipts (sv_prims S) put [jwt] w))"
    by (auto simp del: store_receipts.simps split: prod.splits option.splits list.splits) (metis snd_conv)
  then show ?thesis using store_receipts_frame [of part] lookups_frameD(2) [OF assms(2)] by blast
next
  case (Stamping req rs todo ws ts)
  with assms(1) have "w' = w \<or> (\<exists>put get jwt vts i. StoreOps (sv_deps S) = Some (put, get) \<and>
      w' = snd (check_timestamps (sv_prims S) get vts i [jwt] w))"
    by (auto simp del: check_timestamps.simps split: prod.splits option.splits list.splits) (metis snd_conv)
  then show ?thesis using check_timestamps_frame [of part] lookups_frameD(3) [OF assms(2)] by blast
qed (use assms(1) in \<open>auto split: prod.splits option.splits list.splits\<close>)

lemma phases_preserve_resolver:
  assumes "lru_ok CA look" and "resolver_view N CA CS cfg get (Resolve (sv_deps S))"
    and "lookups_frame (sv_deps S) get" and "\<And>f i w. get (snd (sv_revoke S f i w)) = get w"
  shows "phases_preserve S (\<lambda>w. cache_sound N look (get w))"
  unfolding phases_preserve_def
proof (intro allI impI)
  fix oc r p w n p' w' n'
  assume sound: "cache_sound N look (get w)" and "phase_step S oc r p (w, n) = (p', w', n')"
  from phase_step_world [OF this(2) assms(3)] show "cache_sound N look (get w')"
  proof (elim disjE exE)
    fix i e assume "sv_revoke S (oc_storage oc) i w = (e, w')"
    with assms(4) [of "oc_storage oc" i w] sound show ?thesis by simp
  qed (use sound parallel_sound [OF assms(1,2) sound] in simp_all)
qed

text \<open>
  An answer of validity means that the request's own bundle satisfied the specification at the time
  of one of the steps, whatever else uses the resolver and the stores.
\<close>

lemma interleaved_sound:
  assumes "lru_ok CA look" and "resolver_view N CA CS cfg get (Resolve (sv_deps S))"
    and "lookups_frame (sv_deps S) get" and "\<And>f i w. get (snd (sv_revoke S f i w)) = get w"
    and "resolver_reach env N CA CS cfg (get w)"
    and "i < length rs"
    and "tr_calls (traffic_run S evs (arrivals w n rs)) ! i = (r, Answered (Some (200, VerifyBody res)))" "Valid res"
  shows "\<exists>req xs iv keys ev. decoded_request S r = Inr req \<and>
    decode_bundle_receipts (sv_prims S) (vr_bundle req) = Some xs \<and>
    decode_jwt_payload (unmarshal_invocation (sv_prims S)) (Invocation (vr_bundle req)) = Some iv \<and> ev \<in> set evs \<and>
    chain_spec (sv_prims S) (sv_deps S) (oc_now (snd ev)) keys (vr_bundle req) xs iv \<and>
    authentic (sv_prims S) (vr_bundle req) xs"
proof -
  let ?ok = "\<lambda>w. cache_sound N look (get w)" and ?clocks = "oc_now ` snd ` set evs"
  have "traffic_ok S ?ok ?clocks (traffic_run S evs (arrivals w n rs))"
    by (rule traffic_run_ok [OF phases_preserve_resolver [OF assms(1-4)] order_refl arrivals_ok])
      (rule reach_cache_sound [OF assms(1,5)])
  then have "\<forall>j < length rs. phase_ok S ?ok ?clocks (fst (tr_calls (traffic_run S evs (arrivals w n rs)) ! j))
      (snd (tr_calls (traffic_run S evs (arrivals w n rs)) ! j))"
    by (simp add: traffic_ok_def traffic_run_calls) (simp add: arrivals_def)
  with assms(6-8) obtain req xs where "passed S ?ok ?clocks r req xs" by force
  then obtain iv keys now where p: "decoded_ok S r req xs iv" "resolved_ok S ?ok xs iv keys" "now \<in> ?clocks"
      "chain_spec (sv_prims S) (sv_deps S) now keys (vr_bundle req) xs iv" unfolding passed_def by blast
  from p(2) spec_authentic [OF assms(1,2) _ _ p(4)] have "authentic (sv_prims S) (vr_bundle req) xs"
    unfolding resolved_ok_def by blast
  with p show ?thesis unfolding decoded_ok_def by blast
qed

section \<open>Revocation under interleaving\<close>

text \<open>
  Requests that have not looked up any receipt in the local store yet, and requests that still have
  to look up a receipt of index \<open>k\<close>.
\<close>

fun before_screening :: "phase \<Rightarrow> bool" where
  "before_screening (Screening req rs todo) = (todo = rs)"
| "before_screening (Storing req rs todo ws) = False"
| "before_screening (Stamping req rs todo ws ts) = False"
| "before_screening (Claiming req result) = False"
| "before_screening (Answered resp) = False"
| "before_screening p = True"

fun pending :: "uint64 \<Rightarrow> phase \<Rightarrow> bool" where
  "pending k (Screening req rs todo) = (\<exists>x \<in> set todo. dr_DrsStatusListIndex x = Some k)"
| "pending k p = before_screening p"

definition not_accepted :: "phase \<Rightarrow> bool" where
  "not_accepted p = (\<exists>resp. p = Answered resp \<and> (\<forall>res. resp = Some (200, VerifyBody res) \<longrightarrow> \<not> Valid res))"

lemma rejection_not_accepted [simp]: "not_accepted (rejection code)"
  by (simp add: not_accepted_def rejection_def invalid_result_def)

lemma first_phase_stage: "pending k (first_phase S r) \<or> not_accepted (first_phase S r)"
  by (auto simp: first_phase_def not_accepted_def rejection_def invalid_result_def
      split: sum.split decode_error.split option.split)

lemma check_nonce_replay_error: "check_nonce_replay js jwt ns n = (Some resp, n') \<Longrightarrow> \<exists>e. snd resp = ErrorText e"
  by (auto simp: check_nonce_replay_def split: option.splits prod.splits nonce_error.splits if_splits)

context local_store
begin

lemma phase_step_keeps_revoked:
  assumes "sv_revoke S = on_first revoke" and "deps_frame (sv_deps S) fst" and "is_revoked k (fst w)"
    and "phase_step S oc r p (w, n) = (p', w', n')"
  shows "is_revoked k (fst w')"
  using phase_step_world [OF assms(4) deps_frameD(2) [OF assms(2)]]
proof (elim disjE exE)
  fix i e assume "sv_revoke S (oc_storage oc) i w = (e, w')"
  then have "fst w' = snd (revoke (oc_storage oc) i (fst w))"
    using assms(1) by (auto simp: on_first_def split_beta)
  with revoke_keeps [OF assms(3)] show ?thesis by simp
next
  fix dids assume "w' = snd (resolve_issuers_parallel (oc_sched oc) (Resolve (sv_deps S)) dids w)"
  with resolve_frame [of fst "Resolve (sv_deps S)", OF deps_frameD(1) [OF assms(2)]] assms(3) show ?thesis by simp
qed (use assms(3) in simp)

lemma phase_step_revokes:
  assumes "sv_revoke S = on_first revoke"
    and "phase_step S oc r p (w, n) = (Answered (Some (200, RevokedIndex k)), w', n')"
  shows "p = Answered (Some (200, RevokedIndex k)) \<or> is_revoked k (fst w')"
proof (cases p)
  case Arrived
  have "is_revoked k (fst w')" if "admin_handler S oc r (w, n) = (Some (200, RevokedIndex k), w', n')"
  proof (rule revoke_ok)
    show "revoke (oc_storage oc) k (fst w) = (None, fst w')"
      using admin_handler_effect(3) [OF that refl] assms(1) by (auto simp: on_first_def split: prod.splits)
  qed
  moreover have "first_phase S r \<noteq> Answered (Some (200, RevokedIndex k))"
    by (auto simp: first_phase_def rejection_def split: sum.split decode_error.split option.split)
  ultimately show ?thesis
    using Arrived assms(2) by (auto simp: other_endpoint_def liveness_def readiness_def split: if_splits prod.splits)
next
  case (Claiming req result)
  with assms(2) show ?thesis by (auto dest: check_nonce_replay_error split: option.splits prod.splits)
qed (use assms(2) in \<open>auto simp: rejection_def split_beta Let_def split: option.splits prod.splits sum.splits list.splits\<close>)

text \<open>The revocations that have been confirmed are in force.\<close>

definition confirmed_in_force :: "('s \<times> 'v, 'n) traffic \<Rightarrow> bool" where
  "confirmed_in_force st =
     (\<forall>i < length (tr_calls st). \<forall>k. snd (tr_calls st ! i) = Answered (Some (200, RevokedIndex k)) \<longrightarrow>
        is_revoked k (fst (tr_world st)))"

lemma traffic_step_in_force:
  assumes "sv_revoke S = on_first revoke" and "deps_frame (sv_deps S) fst" and "confirmed_in_force st"
  shows "confirmed_in_force (traffic_step S ev st) \<and>
    (is_revoked k (fst (tr_world st)) \<longrightarrow> is_revoked k (fst (tr_world (traffic_step S ev st))))"
proof (cases rule: traffic_step_cases [of S ev st])
  case (move r p p' w' n')
  note keeps = phase_step_keeps_revoked [OF assms(1,2) _ move(3)]
  have "is_revoked j (fst w')" if "p' = Answered (Some (200, RevokedIndex j))" for j
    using phase_step_revokes [OF assms(1) move(3) [unfolded that]] assms(3) move(1,2) keeps
    by (auto simp: confirmed_in_force_def)
  with assms(3) keeps show ?thesis
    by (auto simp: confirmed_in_force_def move(1,4) nth_list_update)
qed (use assms(3) in simp)

lemma traffic_run_in_force:
  assumes "sv_revoke S = on_first revoke" and "deps_frame (sv_deps S) fst"
  shows "confirmed_in_force st \<Longrightarrow> confirmed_in_force (traffic_run S evs st) \<and>
    (is_revoked k (fst (tr_world st)) \<longrightarrow> is_revoked k (fst (tr_world (traffic_run S evs st))))"
proof (induction evs arbitrary: st)
  case (Cons ev evs)
  from Cons.IH [of "traffic_step S ev st"] traffic_step_in_force [OF assms Cons.prems, of ev k] show ?case by auto
qed simp

lemma revoked_phase_step:
  assumes "sv_revoke S = on_first revoke" and "deps_frame (sv_deps S) fst"
    and "LocalRevoked (sv_deps S) = Some (\<lambda>j w. is_revoked j (fst w))"
    and "decoded_request S r = Inr req" and "decode_bundle_receipts (sv_prims S) (vr_bundle req) = Some xs"
    and "x \<in> set xs" "dr_DrsStatusListIndex x = Some k" "is_revoked k (fst w)"
    and "phase_ok S (\<lambda>w. True) UNIV r p" and "pending k p \<or> not_accepted p"
    and "phase_step S oc r p (w, n) = (p', w', n')"
  shows "pending k p' \<or> not_accepted p'"
proof (cases p)
  case Arrived
  with assms(11) first_phase_stage [of k S r] show ?thesis
    by (auto simp: not_accepted_def split: if_splits prod.splits dest: other_endpoint_payload)
next
  case (Revoking req' rs todo)
  with assms(4,5,9) have "rs = xs" by (auto simp: passed_def decoded_ok_def)
  with Revoking assms(6,7,11) show ?thesis
    by (auto simp del: remote_revocation.simps split: option.splits prod.splits list.splits)
next
  case (Screening req' rs todo)
  with assms(10) obtain y ys where todo: "todo = y # ys" "\<exists>x \<in> set (y # ys). dr_DrsStatusListIndex x = Some k"
    by (cases todo) (auto simp: not_accepted_def)
  show ?thesis
  proof (cases "dr_DrsStatusListIndex y = Some k")
    case True
    with assms(8) have "local_revocation (\<lambda>j. is_revoked j (fst w)) [y] = Some REVOKED"
      by (simp add: local_revocation_Some)
    with Screening todo(1) assms(3,11) show ?thesis by auto
  next
    case False
    with Screening todo assms(3,11) show ?thesis by (auto split: option.splits)
  qed
qed (use assms(10,11) in \<open>auto simp: not_accepted_def rejection_def invalid_result_def
    split: option.splits prod.splits sum.splits\<close>)

lemma revoked_run:
  assumes "sv_revoke S = on_first revoke" and "deps_frame (sv_deps S) fst"
    and "LocalRevoked (sv_deps S) = Some (\<lambda>j w. is_revoked j (fst w))"
    and "decoded_request S r = Inr req" and "decode_bundle_receipts (sv_prims S) (vr_bundle req) = Some xs"
    and "x \<in> set xs" "dr_DrsStatusListIndex x = Some k"
  shows "is_revoked k (fst (tr_world st)) \<Longrightarrow> traffic_ok S (\<lambda>w. True) UNIV st \<Longrightarrow> confirmed_in_force st \<Longrightarrow>
    j < length (tr_calls st) \<Longrightarrow> fst (tr_calls st ! j) = r \<Longrightarrow>
    pending k (snd (tr_calls st ! j)) \<or> not_accepted (snd (tr_calls st ! j)) \<Longrightarrow>
    pending k (snd (tr_calls (traffic_run S evs st) ! j)) \<or> not_accepted (snd (tr_calls (traffic_run S evs st) ! j))"
proof (induction evs arbitrary: st)
  case (Cons ev evs)
  have "pending k (snd (tr_calls (traffic_step S ev st) ! j)) \<or> not_accepted (snd (tr_calls (traffic_step S ev st) ! j))"
  proof (cases rule: traffic_step_cases [of S ev st])
    case (move r0 p p' w' n')
    show ?thesis
    proof (cases "fst ev = j")
      case True
      with move Cons.prems have p: "r0 = r" "phase_ok S (\<lambda>w. True) UNIV r p" "pending k p \<or> not_accepted p"
        by (auto simp: traffic_ok_def)
      from revoked_phase_step [OF assms Cons.prems(1) p(2,3) move(3) [unfolded p(1)]] True move(1,4) show ?thesis by simp
    qed (use Cons.prems(6) move(4) in simp)
  qed (use Cons.prems(6) in simp)
  then show ?case
    using Cons.IH [of "traffic_step S ev st"] Cons.prems traffic_step_in_force [OF assms(1,2), of st ev k]
      traffic_step_ok [OF preserve_all, of S UNIV st ev]
    by (simp add: traffic_step_calls)
qed simp

lemma interleaved_revocation:
  assumes "sv_revoke S = on_first revoke" and "deps_frame (sv_deps S) fst"
    and "LocalRevoked (sv_deps S) = Some (\<lambda>i w. is_revoked i (fst w))"
    and "a < length rs"
    and "snd (tr_calls (traffic_run S before (arrivals w n rs)) ! a) = Answered (Some (200, RevokedIndex k))"
    and "j < length rs" and "before_screening (snd (tr_calls (traffic_run S before (arrivals w n rs)) ! j))"
    and "decoded_request S (rs ! j) = Inr req"
    and "decode_bundle_receipts (sv_prims S) (vr_bundle req) = Some xs" and "x \<in> set xs"
    and "dr_DrsStatusListIndex x = Some k"
    and "snd (tr_calls (traffic_run S (before @ after) (arrivals w n rs)) ! j) =
         Answered (Some (200, VerifyBody res))"
  shows "\<not> Valid res"
proof -
  let ?start = "arrivals w n rs" let ?st = "traffic_run S before ?start"
  have start: "confirmed_in_force ?start"
    by (simp add: confirmed_in_force_def arrivals_def)
  have conf: "confirmed_in_force ?st"
    using traffic_run_in_force [OF assms(1,2) start] by blast
  have len: "length (tr_calls ?st) = length rs" by (simp add: traffic_run_calls) (simp add: arrivals_def)
  have rev: "is_revoked k (fst (tr_world ?st))"
    using conf assms(4,5) by (simp add: confirmed_in_force_def len)
  have ok: "traffic_ok S (\<lambda>w. True) UNIV ?st"
    by (rule traffic_run_ok [OF preserve_all _ arrivals_ok]) simp_all
  have call: "fst (tr_calls ?st ! j) = rs ! j" using assms(6) by (simp add: traffic_run_calls) (simp add: arrivals_def)
  have "phase_ok S (\<lambda>w. True) UNIV (rs ! j) (snd (tr_calls ?st ! j))"
    using ok assms(6) call by (auto simp: traffic_ok_def len)
  with assms(7-11) have "pending k (snd (tr_calls ?st ! j))"
    by (cases "(k, snd (tr_calls ?st ! j))" rule: pending.cases) (auto simp: passed_def decoded_ok_def)
  then have "pending k (snd (tr_calls (traffic_run S after ?st) ! j)) \<or>
      not_accepted (snd (tr_calls (traffic_run S after ?st) ! j))"
    by (intro revoked_run [OF assms(1-3,8-11) rev ok conf _ call]) (use assms(6) len in simp_all)
  with assms(12) show ?thesis by (auto simp: not_accepted_def)
qed

end

end
