(* ===== verification/DRS_Store.thy ===== *)
theory DRS_Store
  imports DRS_Verify
begin

text \<open>
  \<^verbatim>\<open>pkg/store\<close>: the Store interface (\<^verbatim>\<open>store.go\<close>) as a locale with the laws that the chain
  verification and the timestamping store rely on, the LRU memory store (\<^verbatim>\<open>memory.go\<close>) over the
  cache interface of \<open>DRS_LRU\<close>, and the filesystem store (\<^verbatim>\<open>filesystem.go\<close>) over a file system
  whose every call may fail.
\<close>

section \<open>The interface\<close>

datatype store_error = NotFound | InvalidKey string | IoError string

fun store_error_text :: "store_error \<Rightarrow> string" where
  "store_error_text NotFound = ''store: DR not found''"
| "store_error_text (InvalidKey k) =
     ''store: invalid key '' @ k @ '': must be 64 lowercase hex characters with an optional .jwt or .tst extension''"
| "store_error_text (IoError e) = ''store: '' @ e"

datatype store_op = PutOp string string | GetOp string | DeleteOp string

fun store_step ::
  "('f \<Rightarrow> string \<Rightarrow> string \<Rightarrow> 's \<Rightarrow> store_error option \<times> 's) \<Rightarrow>
   ('f \<Rightarrow> string \<Rightarrow> 's \<Rightarrow> (store_error + string) \<times> 's) \<Rightarrow>
   ('f \<Rightarrow> string \<Rightarrow> 's \<Rightarrow> store_error option \<times> 's) \<Rightarrow> 'f \<times> store_op \<Rightarrow> 's \<Rightarrow> 's" where
  "store_step put get delete (f, PutOp k v) s = snd (put f k v s)"
| "store_step put get delete (f, GetOp k) s = snd (get f k s)"
| "store_step put get delete (f, DeleteOp k) s = snd (delete f k s)"

fun slot_of :: "(string \<Rightarrow> 'k) \<Rightarrow> 'f \<times> store_op \<Rightarrow> 'k option" where
  "slot_of slot (f, PutOp k v) = Some (slot k)"
| "slot_of slot (f, GetOp k) = None"
| "slot_of slot (f, DeleteOp k) = Some (slot k)"

text \<open>
  Every operation takes the behaviour \<open>f\<close> of the environment during the call. \<open>view\<close> is the
  content under a slot (expired entries included) and \<open>slot\<close> maps a key to its slot: keys with
  the same slot are the same entry.
\<close>

locale receipt_store =
  fixes put :: "'f \<Rightarrow> string \<Rightarrow> string \<Rightarrow> 's \<Rightarrow> store_error option \<times> 's"
    and get :: "'f \<Rightarrow> string \<Rightarrow> 's \<Rightarrow> (store_error + string) \<times> 's"
    and delete :: "'f \<Rightarrow> string \<Rightarrow> 's \<Rightarrow> store_error option \<times> 's"
    and view :: "'s \<Rightarrow> 'k \<rightharpoonup> string"
    and slot :: "string \<Rightarrow> 'k"
  assumes put_stores: "put f k v s = (None, s') \<Longrightarrow> view s' = (view s)(slot k \<mapsto> v)"
    and put_local: "slot k' \<noteq> slot k \<Longrightarrow> view (snd (put f k v s)) (slot k') = view s (slot k')"
    and get_sound: "get f k s = (Inr v, s') \<Longrightarrow> view s (slot k) = Some v \<and> view s' = view s"
    and get_drops: "view (snd (get f k s)) \<subseteq>\<^sub>m view s"
    and delete_removes: "delete f k s = (None, s') \<Longrightarrow> view s' = (view s)(slot k := None)"
    and delete_local: "slot k' \<noteq> slot k \<Longrightarrow> view (snd (delete f k s)) (slot k') = view s (slot k')"
begin

lemma run_op_other:
  assumes "slot_of slot x \<noteq> Some (slot k)" and "view (store_step put get delete x s) (slot k) = Some v"
  shows "view s (slot k) = Some v"
proof -
  obtain f c where x: "x = (f, c)" by (cases x)
  show ?thesis
  proof (cases c)
    case (PutOp k' v')
    then show ?thesis using assms put_local [of k k' f v' s] by (simp add: x)
  next
    case (GetOp k')
    then have "view (snd (get f k' s)) (slot k) = Some v" using assms(2) by (simp add: x)
    then show ?thesis by (rule map_le_Some [OF get_drops])
  next
    case (DeleteOp k')
    then show ?thesis using assms delete_local [of k k' f s] by (simp add: x)
  qed
qed

lemma run_other:
  "\<forall>x \<in> set ops. slot_of slot x \<noteq> Some (slot k) \<Longrightarrow> view (fold (store_step put get delete) ops s) (slot k) = Some v \<Longrightarrow>
    view s (slot k) = Some v"
proof (induction ops arbitrary: s)
  case (Cons x ops)
  then have "view (store_step put get delete x s) (slot k) = Some v" by simp
  with Cons.prems(1) show ?case by (auto intro: run_op_other [of x])
qed simp

lemma read_your_write:
  assumes "put f k v s = (None, s1)" and "\<forall>x \<in> set ops. slot_of slot x \<noteq> Some (slot k)"
    and "get g k (fold (store_step put get delete) ops s1) = (Inr v', s2)"
  shows "v' = v"
proof -
  have "view (fold (store_step put get delete) ops s1) (slot k) = Some v'" using get_sound [OF assms(3)] by simp
  with run_other [OF assms(2)] have "view s1 (slot k) = Some v'" by blast
  then show ?thesis using put_stores [OF assms(1)] by simp
qed

end

section \<open>The memory store\<close>

definition defaultMemoryCapacity :: int where
  "defaultMemoryCapacity = 10000"

definition new_memory_store :: "(string, 'c) lru \<Rightarrow> int \<Rightarrow> string + 'c" where
  "new_memory_store L maxEntries = lru_new L (if maxEntries \<le> 0 then defaultMemoryCapacity else maxEntries)"

definition mem_put :: "(string, 'c) lru \<Rightarrow> string \<Rightarrow> string \<Rightarrow> 'c \<Rightarrow> store_error option \<times> 'c" where
  "mem_put L h jwt c = (None, lru_add L h jwt c)"

definition mem_get :: "(string, 'c) lru \<Rightarrow> string \<Rightarrow> 'c \<Rightarrow> (store_error + string) \<times> 'c" where
  "mem_get L h c =
     (let (found, c') = lru_get L h c in (case found of None \<Rightarrow> Inl NotFound | Some v \<Rightarrow> Inr v, c'))"

definition mem_delete :: "(string, 'c) lru \<Rightarrow> string \<Rightarrow> 'c \<Rightarrow> store_error option \<times> 'c" where
  "mem_delete L h c = (None, lru_remove L h c)"

lemma mem_put_get:
  assumes "lru_ok L look"
  shows "fst (mem_get L h (snd (mem_put L h jwt c))) = Inr jwt"
    and "fst (mem_get L h (snd (mem_delete L h c))) = Inl NotFound"
    and "fst (mem_get L h c) = Inr v \<Longrightarrow> look c h = Some v"
  using lru_okD [OF assms]
  by (auto simp: mem_put_def mem_get_def mem_delete_def split_beta Let_def split: option.splits)

section \<open>The filesystem store\<close>

text \<open>
  A path is the list of the elements that \<^verbatim>\<open>filepath.Join\<close> joins: the base directory, the
  four-character prefix directory, the file name. A file has a content and a modification time.
\<close>

type_synonym path = "string list"

record fs_file =
  ff_content :: string
  ff_mtime :: int

type_synonym fs = "path \<rightharpoonup> fs_file"

record fs_store =
  baseDir :: string
  fs_ttl :: int
  files :: fs

text \<open>
  The behaviour of the operating system during one call. A failing write either could not open
  the file or has truncated it and written a number of bytes.
\<close>

record os_env =
  os_now :: int
  os_mkdir :: "string option"
  os_write :: "(nat option \<times> string) option"
  os_stat :: "string option"
  os_read :: "string option"
  os_remove :: "string option"

definition defaultTTL :: int where
  "defaultTTL = 48 * 3600 * second"

definition new_filesystem_store :: "os_env \<Rightarrow> string \<Rightarrow> int \<Rightarrow> fs \<Rightarrow> string + fs_store" where
  "new_filesystem_store e base ttl disk =
     (case os_mkdir e of
        Some err \<Rightarrow> Inl (''store: failed to create base directory: '' @ err)
      | None \<Rightarrow> Inr \<lparr>baseDir = base, fs_ttl = (if ttl \<le> 0 then defaultTTL else ttl), files = disk\<rparr>)"

text \<open>The match of \<^verbatim>\<open>validKeyRe\<close> on the key without its prefix: digest and extension.\<close>

definition match_key :: "string \<Rightarrow> (string \<times> string) option" where
  "match_key name =
     (let digest = take 64 name; ext = drop 64 name
      in if length digest = 64 \<and> list_all is_lower_hex digest \<and> ext \<in> {'''', ''.jwt'', ''.tst''}
         then Some (digest, drop 1 ext) else None)"

definition trim_prefix :: "string \<Rightarrow> string \<Rightarrow> string" where
  "trim_prefix p s = (if prefix p s then drop (length p) s else s)"

definition hash_path :: "string \<Rightarrow> string \<Rightarrow> path option" where
  "hash_path base h =
     (case match_key (trim_prefix ''sha256:'' h) of
        None \<Rightarrow> None
      | Some (digest, ext) \<Rightarrow>
          Some [base, take 4 digest, digest @ ''.'' @ (if ext = '''' then ''jwt'' else ext)])"

definition fs_put :: "os_env \<Rightarrow> string \<Rightarrow> string \<Rightarrow> fs_store \<Rightarrow> store_error option \<times> fs_store" where
  "fs_put e h jwt s =
     (case hash_path (baseDir s) h of
        None \<Rightarrow> (Some (InvalidKey h), s)
      | Some path \<Rightarrow>
          (case os_mkdir e of
             Some err \<Rightarrow> (Some (IoError (''mkdir: '' @ err)), s)
           | None \<Rightarrow>
               (case os_write e of
                  None \<Rightarrow>
                    (None, s\<lparr>files := (files s)(path \<mapsto> \<lparr>ff_content = jwt, ff_mtime = os_now e\<rparr>)\<rparr>)
                | Some (None, err) \<Rightarrow> (Some (IoError (''write: '' @ err)), s)
                | Some (Some n, err) \<Rightarrow>
                    (Some (IoError (''write: '' @ err)),
                     s\<lparr>files := (files s)(path \<mapsto> \<lparr>ff_content = take n jwt, ff_mtime = os_now e\<rparr>)\<rparr>))))"

definition fs_get :: "os_env \<Rightarrow> string \<Rightarrow> fs_store \<Rightarrow> (store_error + string) \<times> fs_store" where
  "fs_get e h s =
     (case hash_path (baseDir s) h of
        None \<Rightarrow> (Inl (InvalidKey h), s)
      | Some path \<Rightarrow>
          (case os_stat e of
             Some err \<Rightarrow> (Inl (IoError (''stat: '' @ err)), s)
           | None \<Rightarrow>
               (case files s path of
                  None \<Rightarrow> (Inl NotFound, s)
                | Some file \<Rightarrow>
                    if fs_ttl s < os_now e - ff_mtime file
                    then (Inl NotFound,
                          if os_remove e = None then s\<lparr>files := (files s)(path := None)\<rparr> else s)
                    else (case os_read e of
                            Some err \<Rightarrow> (Inl (IoError (''read: '' @ err)), s)
                          | None \<Rightarrow> (Inr (ff_content file), s)))))"

definition fs_delete :: "os_env \<Rightarrow> string \<Rightarrow> fs_store \<Rightarrow> store_error option \<times> fs_store" where
  "fs_delete e h s =
     (case hash_path (baseDir s) h of
        None \<Rightarrow> (Some (InvalidKey h), s)
      | Some path \<Rightarrow>
          (case os_remove e of
             Some err \<Rightarrow> if files s path = None then (None, s) else (Some (IoError (''delete: '' @ err)), s)
           | None \<Rightarrow> (None, s\<lparr>files := (files s)(path := None)\<rparr>)))"

section \<open>The filesystem store implements the interface\<close>

definition key_slot :: "string \<Rightarrow> path option" where
  "key_slot h = map_option tl (hash_path '''' h)"

definition fs_view :: "fs_store \<Rightarrow> path option \<rightharpoonup> string" where
  "fs_view s sl =
     (case sl of None \<Rightarrow> None | Some p \<Rightarrow> map_option ff_content (files s (baseDir s # p)))"

lemma hash_path_slot: "hash_path base h = map_option (Cons base) (key_slot h)"
  by (auto simp: hash_path_def key_slot_def split: option.splits)

lemma fs_view_upd:
  "fs_view (s\<lparr>files := (files s)(baseDir s # p := x)\<rparr>) = (fs_view s)(Some p := map_option ff_content x)"
  by (auto simp: fs_view_def fun_eq_iff split: option.splits)

interpretation fs: receipt_store fs_put fs_get fs_delete fs_view key_slot
proof
  show "fs_view s' = (fs_view s)(key_slot k \<mapsto> v)" if "fs_put f k v s = (None, s')" for f k v s s'
    using that by (auto simp: fs_put_def hash_path_slot fs_view_upd split: option.splits prod.splits)
  show "fs_view (snd (fs_put f k v s)) (key_slot k') = fs_view s (key_slot k')"
    if "key_slot k' \<noteq> key_slot k" for k' k f v s
    using that by (auto simp: fs_put_def hash_path_slot fs_view_upd split: option.split)
  show "fs_view s (key_slot k) = Some v \<and> fs_view s' = fs_view s" if "fs_get f k s = (Inr v, s')" for f k s v s'
    using that by (auto simp: fs_get_def hash_path_slot fs_view_def split: option.splits if_splits)
  show "fs_view (snd (fs_get f k s)) \<subseteq>\<^sub>m fs_view s" for f k s
    by (auto simp: fs_get_def hash_path_slot fs_view_upd map_le_def split: option.split)
  show "fs_view s' = (fs_view s)(key_slot k := None)" if "fs_delete f k s = (None, s')" for f k s s'
    using that by (auto simp: fs_delete_def hash_path_slot fs_view_upd fs_view_def fun_eq_iff
        split: option.splits if_splits)
  show "fs_view (snd (fs_delete f k s)) (key_slot k') = fs_view s (key_slot k')"
    if "key_slot k' \<noteq> key_slot k" for k' k f s
    using that by (auto simp: fs_delete_def hash_path_slot fs_view_upd split: option.split)
qed

text \<open>
  \<^verbatim>\<open>os.WriteFile\<close> truncates before it writes, so writing a receipt again is not harmless: when the
  second write fails in the middle, the whole copy of the first one is gone.
\<close>

lemma failed_rewrite_loses_receipt:
  assumes "fs_put e h jwt s = (None, s1)" and "os_mkdir f = None" and "os_write f = Some (Some n, err)"
  shows "fs_view s1 (key_slot h) = Some jwt" and "fs_view (snd (fs_put f h jwt s1)) (key_slot h) = Some (take n jwt)"
proof -
  obtain p where p: "hash_path (baseDir s1) h = Some p" using assms(1) by (auto simp: fs_put_def split: option.splits prod.splits)
  show "fs_view s1 (key_slot h) = Some jwt" using fs.put_stores [OF assms(1)] by simp
  from p show "fs_view (snd (fs_put f h jwt s1)) (key_slot h) = Some (take n jwt)"
    using assms(2,3) by (auto simp: fs_put_def hash_path_slot fs_view_upd fs_view_def split: option.splits)
qed

section \<open>Paths stay inside the base directory\<close>

lemma match_key_iff:
  "match_key name = Some (digest, ext) \<longleftrightarrow>
     length digest = 64 \<and> list_all is_lower_hex digest \<and>
     (name = digest \<and> ext = '''' \<or> name = digest @ ''.jwt'' \<and> ext = ''jwt'' \<or>
      name = digest @ ''.tst'' \<and> ext = ''tst'')"
proof
  assume a: "match_key name = Some (digest, ext)"
  obtain t where t: "t = drop 64 name" by simp
  have "digest = take 64 name" using a by (auto simp: match_key_def Let_def split: if_splits)
  then have name: "name = digest @ t" by (simp add: t)
  have "length digest = 64" "list_all is_lower_hex digest" "t \<in> {'''', ''.jwt'', ''.tst''}" "ext = drop 1 t"
    using a by (auto simp: match_key_def Let_def t split: if_splits)
  with name show "length digest = 64 \<and> list_all is_lower_hex digest \<and>
     (name = digest \<and> ext = '''' \<or> name = digest @ ''.jwt'' \<and> ext = ''jwt'' \<or>
      name = digest @ ''.tst'' \<and> ext = ''tst'')" by (elim insertE) auto
qed (auto simp: match_key_def)

lemma lower_hex_plain: "is_lower_hex c \<Longrightarrow> c \<noteq> CHR ''/'' \<and> c \<noteq> CHR ''.'' \<and> c \<noteq> CHR ''s''"
proof -
  assume "is_lower_hex c"
  then have "48 \<le> code_of c" "code_of c \<noteq> 115" by (auto simp: is_lower_hex_def is_digit_def)
  moreover have "code_of CHR ''/'' = 47" "code_of CHR ''.'' = 46" "code_of CHR ''s'' = 115"
    by (simp_all add: code_of_def)
  ultimately show ?thesis by auto
qed

text \<open>
  C30. No key escapes the store's directory, and only one spelling family shares a file: a path is produced
  exactly for a 64-digit lower-case hex digest with an optional \<^verbatim>\<open>sha256:\<close> prefix and an optional
  \<^verbatim>\<open>.jwt\<close> or \<^verbatim>\<open>.tst\<close> extension, and it is the digest's own file in the digest's own prefix
  directory below the base directory.
\<close>

theorem hash_path_confined:
  "hash_path base h = Some p \<longleftrightarrow>
     (\<exists>digest ext. length digest = 64 \<and> list_all is_lower_hex digest \<and> ext \<in> {''jwt'', ''tst''} \<and>
        p = [base, take 4 digest, digest @ ''.'' @ ext] \<and>
        (h = digest @ ''.'' @ ext \<or> h = ''sha256:'' @ digest @ ''.'' @ ext \<or>
         ext = ''jwt'' \<and> (h = digest \<or> h = ''sha256:'' @ digest)))"
proof
  assume "hash_path base h = Some p"
  then obtain digest x where m: "match_key (trim_prefix ''sha256:'' h) = Some (digest, x)"
    and p: "p = [base, take 4 digest, digest @ ''.'' @ (if x = '''' then ''jwt'' else x)]"
    by (auto simp: hash_path_def split: option.splits)
  have h: "h = trim_prefix ''sha256:'' h \<or> h = ''sha256:'' @ trim_prefix ''sha256:'' h"
    by (auto simp: trim_prefix_def prefix_def)
  from m p h show "\<exists>digest ext. length digest = 64 \<and> list_all is_lower_hex digest \<and> ext \<in> {''jwt'', ''tst''} \<and>
        p = [base, take 4 digest, digest @ ''.'' @ ext] \<and>
        (h = digest @ ''.'' @ ext \<or> h = ''sha256:'' @ digest @ ''.'' @ ext \<or>
         ext = ''jwt'' \<and> (h = digest \<or> h = ''sha256:'' @ digest))"
    by (intro exI [of _ digest] exI [of _ "if x = '''' then ''jwt'' else x"]) (auto simp: match_key_iff)
next
  assume "\<exists>digest ext. length digest = 64 \<and> list_all is_lower_hex digest \<and> ext \<in> {''jwt'', ''tst''} \<and>
        p = [base, take 4 digest, digest @ ''.'' @ ext] \<and>
        (h = digest @ ''.'' @ ext \<or> h = ''sha256:'' @ digest @ ''.'' @ ext \<or>
         ext = ''jwt'' \<and> (h = digest \<or> h = ''sha256:'' @ digest))"
  then obtain digest ext where d: "length digest = 64" "list_all is_lower_hex digest"
      "ext \<in> {''jwt'', ''tst''}" "p = [base, take 4 digest, digest @ ''.'' @ ext]"
      "h = digest @ ''.'' @ ext \<or> h = ''sha256:'' @ digest @ ''.'' @ ext \<or>
       ext = ''jwt'' \<and> (h = digest \<or> h = ''sha256:'' @ digest)" by blast
  have "\<not> prefix ''sha256:'' (digest @ t)" for t
    using d(1,2) lower_hex_plain by (cases digest) auto
  then have "trim_prefix ''sha256:'' (digest @ t) = digest @ t" "trim_prefix ''sha256:'' (''sha256:'' @ digest @ t) = digest @ t" for t
    by (auto simp: trim_prefix_def)
  from this [of "''''"] this [of "''.'' @ ext"] d
  have "match_key (trim_prefix ''sha256:'' h) = Some (digest, ext) \<or>
      ext = ''jwt'' \<and> match_key (trim_prefix ''sha256:'' h) = Some (digest, '''')"
    by (auto simp: match_key_iff)
  with d(3,4) show "hash_path base h = Some p" by (auto simp: hash_path_def)
qed

text \<open>
  Entries live exactly as long as the TTL: after a successful Put, a fault-free Get returns
  the stored token while at most the TTL has passed, and afterwards reports it as not found and
  removes the file.
\<close>

theorem fs_put_then_get:
  assumes "fs_put e h jwt s = (None, s1)"
    and "os_stat g = None" "os_read g = None" "os_remove g = None"
  shows "fs_get g h s1 =
    (if os_now g - os_now e \<le> fs_ttl s then (Inr jwt, s1)
     else (Inl NotFound, s1\<lparr>files := (files s1)(the (hash_path (baseDir s) h) := None)\<rparr>))"
  using assms by (auto simp: fs_put_def fs_get_def split: option.splits prod.splits)

definition no_faults :: "int \<Rightarrow> os_env" where
  "no_faults now = \<lparr>os_now = now, os_mkdir = None, os_write = None, os_stat = None, os_read = None, os_remove = None\<rparr>"

definition demo_fs :: fs_store where
  "demo_fs = \<lparr>baseDir = ''/data'', fs_ttl = 100, files = Map.empty\<rparr>"

definition demo_digest :: string where
  "demo_digest = replicate 64 CHR ''a''"

definition demo_key :: string where
  "demo_key = ''sha256:'' @ demo_digest"

lemma demo_path:
  "hash_path base demo_key = Some [base, ''aaaa'', demo_digest @ ''.jwt'']"
proof -
  have "match_key demo_digest = Some (demo_digest, '''')"
    by (simp add: match_key_iff demo_digest_def is_lower_hex_def is_digit_def code_of_def list_all_iff)
  moreover have "take 4 demo_digest = ''aaaa''" by (simp add: demo_digest_def eval_nat_numeral)
  ultimately show ?thesis by (simp add: hash_path_def trim_prefix_def demo_key_def)
qed

lemma demo_put:
  "fs_put (no_faults 10) demo_key ''jwt'' demo_fs =
     (None, demo_fs\<lparr>files := [[''/data'', ''aaaa'', demo_digest @ ''.jwt''] \<mapsto> \<lparr>ff_content = ''jwt'', ff_mtime = 10\<rparr>]\<rparr>)"
  using demo_path [of "''/data''"] by (simp add: fs_put_def no_faults_def demo_fs_def)

theorem fs_put_then_get_witness:
  "fst (fs_get (no_faults 50) demo_key
     (snd (fs_put (no_faults 10) demo_key ''jwt'' demo_fs))) = Inr ''jwt''"
  using fs_put_then_get [OF demo_put, of "no_faults 50"]
  by (simp add: demo_put) (simp add: no_faults_def demo_fs_def)

text \<open>
  C31. A reader never sees a foreign or a stale value: after a successful Put, whatever happens
  to other entries and however those operations fail, a later Get under the same key that
  returns a token returns the one that was put.
\<close>

theorem fs_read_your_write:
  assumes "fs_put e h jwt s = (None, s1)"
    and "\<forall>x \<in> set ops. slot_of key_slot x \<noteq> Some (key_slot h)"
    and "fs_get g h (fold (store_step fs_put fs_get fs_delete) ops s1) = (Inr v, s2)"
  shows "v = jwt"
  using assms by (rule fs.read_your_write)

theorem fs_read_your_write_witness:
  "fst (fs_get (no_faults 50) demo_key
     (fold (store_step fs_put fs_get fs_delete) [(no_faults 20, DeleteOp ''x''), (no_faults 30, GetOp ''y'')]
       (snd (fs_put (no_faults 10) demo_key ''jwt'' demo_fs)))) = Inr ''jwt''"
proof -
  let ?h = demo_key
  let ?s1 = "snd (fs_put (no_faults 10) ?h ''jwt'' demo_fs)"
  have bad: "hash_path b ''x'' = None" "hash_path b ''y'' = None" for b
    by (simp_all add: hash_path_def trim_prefix_def match_key_def)
  have keep: "fold (store_step fs_put fs_get fs_delete) [(no_faults 20, DeleteOp ''x''), (no_faults 30, GetOp ''y'')] ?s1 = ?s1"
    by (simp add: fs_delete_def fs_get_def bad)
  have get: "fs_get (no_faults 50) ?h ?s1 = (Inr ''jwt'', ?s1)"
    using demo_path [of "''/data''"] by (simp add: demo_put fs_get_def) (simp add: no_faults_def demo_fs_def)
  have "key_slot ?h \<noteq> key_slot ''x''" using demo_path [of "''''"] by (simp add: key_slot_def bad)
  then have "\<forall>x \<in> set [(no_faults 20, DeleteOp ''x''), (no_faults 30, GetOp ''y'')].
      slot_of key_slot x \<noteq> Some (key_slot ?h)" by auto
  from fs_read_your_write [OF _ this, of "no_faults 10" "''jwt''" demo_fs ?s1 "no_faults 50" "''jwt''" ?s1]
  show ?thesis using keep get by (simp add: demo_put)
qed

end
