(* ===== verification/DRS_Anchor.thy ===== *)
theory DRS_Anchor
  imports DRS_Store
begin

text \<open>
  \<^verbatim>\<open>pkg/anchor\<close>: the RFC 3161 client and token verification (\<^verbatim>\<open>rfc3161.go\<close>) and the store that
  anchors every receipt with a timestamp token (\<^verbatim>\<open>tier3store.go\<close>). The DER decoders, X.509 and
  the digests of the standard library are the record \<open>pki\<close>; HTTP to the authority is an
  argument.
\<close>

type_synonym bytes = "byte list"
type_synonym oid = "nat list"

section \<open>Structures\<close>

record raw_value =
  FullBytes :: bytes
  rv_Bytes :: bytes

record time_stamp_resp =
  resp_Status :: int
  TimeStampToken :: raw_value

record content_info =
  ContentType :: oid
  ci_Content :: raw_value

record signer_info =
  si_Version :: int
  SID :: raw_value
  DigestAlgorithm :: oid
  SignedAttrs :: raw_value
  SignatureAlgorithm :: oid
  si_Signature :: bytes

record signed_data =
  EContentType :: oid
  EContent :: raw_value
  Certificates :: raw_value
  SignerInfos :: "signer_info list"

record tst_info =
  ImprintAlgorithm :: oid
  HashedMessage :: bytes
  GenTime :: int

record certificate =
  SerialNumber :: "int option"
  RawIssuer :: bytes
  ExtKeyUsage :: "nat list"
  cert_Raw :: bytes

text \<open>The decoders return the value and, where the code looks at it, the rest of the input.\<close>

record pki =
  unmarshal_resp :: "bytes \<Rightarrow> (time_stamp_resp \<times> bytes) option"
  unmarshal_content_info :: "bytes \<Rightarrow> content_info option"
  unmarshal_signed_data :: "bytes \<Rightarrow> signed_data option"
  unmarshal_octets :: "bytes \<Rightarrow> (bytes \<times> bytes) option"
  unmarshal_tst :: "bytes \<Rightarrow> tst_info option"
  unmarshal_raw :: "bytes \<Rightarrow> (raw_value \<times> bytes) option"
  unmarshal_attr :: "bytes \<Rightarrow> ((oid \<times> raw_value) \<times> bytes) option"
  unmarshal_oid :: "bytes \<Rightarrow> (oid \<times> bytes) option"
  unmarshal_issuer_serial :: "bytes \<Rightarrow> (raw_value \<times> int option) option"
  parse_certificate :: "bytes \<Rightarrow> certificate option"
  digest256 :: "bytes \<Rightarrow> bytes"
  digest384 :: "bytes \<Rightarrow> bytes"
  digest512 :: "bytes \<Rightarrow> bytes"
  check_signature :: "certificate \<Rightarrow> nat \<Rightarrow> bytes \<Rightarrow> bytes \<Rightarrow> string option"
  verify_certificate :: "certificate \<Rightarrow> certificate list \<Rightarrow> certificate list \<Rightarrow> int \<Rightarrow> string option"

definition sha256OID :: oid where "sha256OID = [2, 16, 840, 1, 101, 3, 4, 2, 1]"

definition sha384OID :: oid where "sha384OID = [2, 16, 840, 1, 101, 3, 4, 2, 2]"

definition sha512OID :: oid where "sha512OID = [2, 16, 840, 1, 101, 3, 4, 2, 3]"

definition oidSignedData :: oid where "oidSignedData = [1, 2, 840, 113549, 1, 7, 2]"

definition oidTSTInfo :: oid where "oidTSTInfo = [1, 2, 840, 113549, 1, 9, 16, 1, 4]"

definition oidContentTypeAttr :: oid where "oidContentTypeAttr = [1, 2, 840, 113549, 1, 9, 3]"

definition oidMessageDigestAttr :: oid where "oidMessageDigestAttr = [1, 2, 840, 113549, 1, 9, 4]"

section \<open>Signature algorithms and digests\<close>

text \<open>The x509 enumeration values of the six supported algorithms; 0 is unknown.\<close>

definition map_signature_algorithm :: "oid \<Rightarrow> nat" where
  "map_signature_algorithm a =
     (if a = [1, 2, 840, 113549, 1, 1, 11] then 4
      else if a = [1, 2, 840, 113549, 1, 1, 12] then 5
      else if a = [1, 2, 840, 113549, 1, 1, 13] then 6
      else if a = [1, 2, 840, 10045, 4, 3, 2] then 10
      else if a = [1, 2, 840, 10045, 4, 3, 3] then 11
      else if a = [1, 2, 840, 10045, 4, 3, 4] then 12
      else 0)"

definition hasher_for :: "pki \<Rightarrow> oid \<Rightarrow> (bytes \<Rightarrow> bytes) option" where
  "hasher_for P a =
     (if a = sha256OID then Some (digest256 P)
      else if a = sha384OID then Some (digest384 P)
      else if a = sha512OID then Some (digest512 P)
      else None)"

definition extKeyUsageTimeStamping :: nat where
  "extKeyUsageTimeStamping = 8"

definition has_timestamping_eku :: "certificate \<Rightarrow> bool" where
  "has_timestamping_eku cert = list_ex (\<lambda>e. e = extKeyUsageTimeStamping) (ExtKeyUsage cert)"

section \<open>Sequences of DER elements\<close>

text \<open>
  The loops \<^verbatim>\<open>for len(rest) > 0\<close>: the elements up to the end or to the first that does not
  decode, and whether one did not. \<open>None\<close> means that the fuel was too small; the length of the
  input is enough for a decoder that consumes input.
\<close>

fun elements :: "nat \<Rightarrow> (bytes \<Rightarrow> ('a \<times> bytes) option) \<Rightarrow> bytes \<Rightarrow> ('a list \<times> bool) option" where
  "elements fuel dec [] = Some ([], False)"
| "elements 0 dec (b # bs) = None"
| "elements (Suc n) dec (b # bs) =
     (case dec (b # bs) of
        None \<Rightarrow> Some ([], True)
      | Some (x, rest) \<Rightarrow> map_option (\<lambda>(xs, e). (x # xs, e)) (elements n dec rest))"

definition consuming :: "(bytes \<Rightarrow> ('a \<times> bytes) option) \<Rightarrow> bool" where
  "consuming dec = (\<forall>bs x rest. dec bs = Some (x, rest) \<longrightarrow> length rest < length bs)"

definition der_elements :: "(bytes \<Rightarrow> ('a \<times> bytes) option) \<Rightarrow> bytes \<Rightarrow> 'a list \<times> bool" where
  "der_elements dec bs = (case elements (length bs) dec bs of Some r \<Rightarrow> r | None \<Rightarrow> ([], True))"

lemma elements_enough:
  "consuming dec \<Longrightarrow> length bs \<le> n \<Longrightarrow> \<exists>r. elements n dec bs = Some r"
proof (induction n dec bs rule: elements.induct)
  case (3 n dec b bs)
  show ?case
  proof (cases "dec (b # bs)")
    case (Some xr)
    obtain x rest where xr: "xr = (x, rest)" by (cases xr)
    have "length rest \<le> n" using 3(2,3) Some xr by (fastforce simp: consuming_def)
    with 3(1) [OF Some xr [symmetric] 3(2)] Some xr show ?thesis by auto
  qed auto
qed auto

lemma elements_more_fuel: "elements n dec bs = Some r \<Longrightarrow> n \<le> m \<Longrightarrow> elements m dec bs = Some r"
proof (induction n dec bs arbitrary: r m rule: elements.induct)
  case (3 n dec b bs)
  from 3(3) obtain m' where m: "m = Suc m'" "n \<le> m'" by (cases m) auto
  show ?case
  proof (cases "dec (b # bs)")
    case (Some xr)
    obtain x rest where xr: "xr = (x, rest)" by (cases xr)
    from 3(2) Some xr obtain q where "elements n dec rest = Some q" by (cases "elements n dec rest") auto
    with 3(1) [OF Some xr [symmetric] this m(2)] 3(2) Some xr m(1) show ?thesis by simp
  qed (use 3(2) m in auto)
qed auto

text \<open>
  C38. The loops over the DER content of a token terminate: with a decoder that consumes input,
  as the one of \<^verbatim>\<open>encoding/asn1\<close> does, a loop ends after at most as many rounds as there are bytes,
  any larger bound gives the same result, and the result is that of the loop body followed by the
  rest of the loop.
\<close>

theorem der_loop_terminates:
  assumes "consuming dec"
  shows "(\<forall>n \<ge> length bs. elements n dec bs = Some (der_elements dec bs)) \<and>
    der_elements dec bs =
      (if bs = [] then ([], False)
       else case dec bs of
              None \<Rightarrow> ([], True)
            | Some (x, rest) \<Rightarrow> (let (xs, failed) = der_elements dec rest in (x # xs, failed)))"
proof -
  have any: "elements n dec cs = Some (der_elements dec cs)" if "length cs \<le> n" for n cs
    using elements_enough [OF assms order_refl, of cs] elements_more_fuel [OF _ that] by (auto simp: der_elements_def)
  show ?thesis
  proof (intro conjI allI impI)
    show "der_elements dec bs =
      (if bs = [] then ([], False)
       else case dec bs of
              None \<Rightarrow> ([], True)
            | Some (x, rest) \<Rightarrow> (let (xs, failed) = der_elements dec rest in (x # xs, failed)))"
    proof (cases bs)
      case (Cons b cs)
      have "length rest \<le> length cs" if "dec bs = Some (x, rest)" for x rest
        using assms that Cons by (fastforce simp: consuming_def)
      with any [of bs "length bs"] any [of _ "length cs"] Cons show ?thesis
        by (auto simp: split_beta split: option.splits prod.splits)
    qed (simp add: der_elements_def)
  qed (rule any)
qed

text \<open>A decoder for elements of one byte that are not zero.\<close>

definition demo_element :: "bytes \<Rightarrow> (byte \<times> bytes) option" where
  "demo_element bs = (case bs of [] \<Rightarrow> None | b # rest \<Rightarrow> if b = 0 then None else Some (b, rest))"

theorem der_loop_terminates_witness:
  "elements 5 demo_element [1, 2, 0, 3] = Some ([1, 2], True)"
proof -
  have "consuming demo_element" by (auto simp: consuming_def demo_element_def split: list.splits if_splits)
  from der_loop_terminates [OF this, of "[1, 2, 0, 3]"] have
    "elements 5 demo_element [1, 2, 0, 3] = Some (der_elements demo_element [1, 2, 0, 3])" by simp
  then show ?thesis by (simp add: der_elements_def demo_element_def eval_nat_numeral)
qed

section \<open>Certificates of a token\<close>

definition parsed_certs :: "pki \<Rightarrow> raw_value \<Rightarrow> certificate list" where
  "parsed_certs P raw =
     List.map_filter (\<lambda>v. parse_certificate P (FullBytes v)) (fst (der_elements (unmarshal_raw P) (rv_Bytes raw)))"

definition same_cert :: "certificate \<Rightarrow> certificate \<Rightarrow> bool" where
  "same_cert c d = (SerialNumber c = SerialNumber d \<and> RawIssuer c = RawIssuer d)"

definition extract_intermediate_certs :: "pki \<Rightarrow> raw_value \<Rightarrow> certificate \<Rightarrow> certificate list" where
  "extract_intermediate_certs P raw leaf = filter (\<lambda>c. \<not> same_cert c leaf) (parsed_certs P raw)"

definition names_signer :: "pki \<Rightarrow> signer_info \<Rightarrow> certificate \<Rightarrow> bool" where
  "names_signer P si cert =
     (si_Version si = 1 \<and> SerialNumber cert \<noteq> None \<and>
      (case unmarshal_issuer_serial P (FullBytes (SID si)) of
         None \<Rightarrow> False
       | Some (issuer, serial) \<Rightarrow> serial \<noteq> None \<and> SerialNumber cert = serial \<and> RawIssuer cert = FullBytes issuer))"

definition extract_signer_cert :: "pki \<Rightarrow> raw_value \<Rightarrow> signer_info \<Rightarrow> string + certificate" where
  "extract_signer_cert P raw si =
     (if rv_Bytes raw = [] then Inl ''no certificates embedded in SignedData''
      else let certs = parsed_certs P raw in
        case find (names_signer P si) certs of
          Some c \<Rightarrow> Inr c
        | None \<Rightarrow> (case certs of
                     [] \<Rightarrow> Inl ''no parseable certificate found in SignedData''
                   | c # _ \<Rightarrow> Inr c))"

section \<open>The signature of the signer info\<close>

definition check_content_type_attr :: "pki \<Rightarrow> raw_value \<Rightarrow> string option" where
  "check_content_type_attr P values =
     (case unmarshal_oid P (rv_Bytes values) of
        None \<Rightarrow> Some ''parse content-type attribute value''
      | Some (a, rest) \<Rightarrow>
          if rest \<noteq> [] then Some ''content-type attribute has extra values''
          else guard_err (a \<noteq> oidTSTInfo) ''content-type is not id-ct-TSTInfo'')"

definition check_message_digest_attr :: "pki \<Rightarrow> raw_value \<Rightarrow> bytes \<Rightarrow> oid \<Rightarrow> string option" where
  "check_message_digest_attr P values tst digest_oid =
     (case unmarshal_octets P (rv_Bytes values) of
        None \<Rightarrow> Some ''parse message-digest attribute value''
      | Some (declared, rest) \<Rightarrow>
          if rest \<noteq> [] then Some ''message-digest attribute has extra values''
          else (case hasher_for P digest_oid of
                  None \<Rightarrow> Some ''unsupported digest algorithm''
                | Some h \<Rightarrow> guard_err (declared \<noteq> h tst) ''message-digest does not match Hash(TSTInfo)''))"

text \<open>The loop over the attributes, with the two flags.\<close>

fun check_attrs ::
  "pki \<Rightarrow> bytes \<Rightarrow> oid \<Rightarrow> bool \<Rightarrow> bool \<Rightarrow> (oid \<times> raw_value) list \<Rightarrow> string option" where
  "check_attrs P tst d ctSeen mdSeen [] =
     (if \<not> ctSeen then Some ''SignedAttrs missing required content-type attribute''
      else guard_err (\<not> mdSeen) ''SignedAttrs missing required message-digest attribute'')"
| "check_attrs P tst d ctSeen mdSeen ((t, v) # attrs) =
     (if t = oidContentTypeAttr then
        (if ctSeen then Some ''duplicate content-type attribute''
         else case check_content_type_attr P v of
                Some e \<Rightarrow> Some e | None \<Rightarrow> check_attrs P tst d True mdSeen attrs)
      else if t = oidMessageDigestAttr then
        (if mdSeen then Some ''duplicate message-digest attribute''
         else case check_message_digest_attr P v tst d of
                Some e \<Rightarrow> Some e | None \<Rightarrow> check_attrs P tst d ctSeen True attrs)
      else check_attrs P tst d ctSeen mdSeen attrs)"

definition parse_attribute_set :: "pki \<Rightarrow> bytes \<Rightarrow> (oid \<times> raw_value) list option" where
  "parse_attribute_set P content =
     (let (attrs, failed) = der_elements (unmarshal_attr P) content in if failed then None else Some attrs)"

definition verify_signed_attrs_binding :: "pki \<Rightarrow> signer_info \<Rightarrow> bytes \<Rightarrow> string option" where
  "verify_signed_attrs_binding P si tst =
     (case unmarshal_raw P (FullBytes (SignedAttrs si)) of
        None \<Rightarrow> Some ''parse SignedAttrs outer tag''
      | Some (outer, _) \<Rightarrow>
          (case parse_attribute_set P (rv_Bytes outer) of
             None \<Rightarrow> Some ''parse SignedAttrs''
           | Some attrs \<Rightarrow> check_attrs P tst (DigestAlgorithm si) False False attrs))"

definition retag_set :: "bytes \<Rightarrow> bytes" where
  "retag_set bs = bs[0 := 0x31]"

definition verify_signer_info_signature :: "pki \<Rightarrow> signer_info \<Rightarrow> bytes \<Rightarrow> certificate \<Rightarrow> string option" where
  "verify_signer_info_signature P si tst cert =
     (let alg = map_signature_algorithm (SignatureAlgorithm si) in
      if alg = 0 then Some ''unsupported TSA signature algorithm''
      else if FullBytes (SignedAttrs si) = [] then check_signature P cert alg tst (si_Signature si)
      else case verify_signed_attrs_binding P si tst of
             Some e \<Rightarrow> Some (''SignedAttrs binding: '' @ e)
           | None \<Rightarrow> check_signature P cert alg (retag_set (FullBytes (SignedAttrs si))) (si_Signature si))"

section \<open>Verification of a token\<close>

text \<open>The two entry points repeat the same steps in the code, and so do the definitions.\<close>

definition verify_timestamp :: "pki \<Rightarrow> bytes \<Rightarrow> bytes \<Rightarrow> string + int" where
  "verify_timestamp P token expected =
     (case unmarshal_resp P token of
        None \<Rightarrow> Inl ''rfc3161: parse TimeStampResp''
      | Some (resp, rest) \<Rightarrow>
          if rest \<noteq> [] then Inl ''rfc3161: trailing bytes in TimeStampResp''
          else if resp_Status resp \<noteq> 0 then Inl ''rfc3161: TSA status not granted''
          else if FullBytes (TimeStampToken resp) = [] then Inl ''rfc3161: TimeStampResp has no timeStampToken''
          else (case unmarshal_content_info P (FullBytes (TimeStampToken resp)) of
            None \<Rightarrow> Inl ''rfc3161: parse ContentInfo''
          | Some ci \<Rightarrow>
              if ContentType ci \<noteq> oidSignedData then Inl ''rfc3161: ContentInfo type is not SignedData''
              else (case unmarshal_signed_data P (rv_Bytes (ci_Content ci)) of
                None \<Rightarrow> Inl ''rfc3161: parse SignedData''
              | Some sd \<Rightarrow>
                  if EContentType sd \<noteq> oidTSTInfo then Inl ''rfc3161: EncapContentInfo type is not id-ct-TSTInfo''
                  else (case unmarshal_octets P (rv_Bytes (EContent sd)) of
                    None \<Rightarrow> Inl ''rfc3161: parse eContent OCTET STRING''
                  | Some (tst_bytes, _) \<Rightarrow>
                      (case unmarshal_tst P tst_bytes of
                         None \<Rightarrow> Inl ''rfc3161: parse TSTInfo''
                       | Some tst \<Rightarrow>
                           if ImprintAlgorithm tst \<noteq> sha256OID
                           then Inl ''rfc3161: messageImprint uses unexpected algorithm''
                           else if HashedMessage tst \<noteq> expected then Inl ''rfc3161: messageImprint hash mismatch''
                           else (case SignerInfos sd of
                             [] \<Rightarrow> Inl ''rfc3161: SignedData has no signerInfos''
                           | si # _ \<Rightarrow>
                               (case extract_signer_cert P (Certificates sd) si of
                                  Inl e \<Rightarrow> Inl (''rfc3161: extract signer certificate: '' @ e)
                                | Inr cert \<Rightarrow>
                                    (case verify_signer_info_signature P si tst_bytes cert of
                                       Some e \<Rightarrow> Inl (''rfc3161: TSA signature invalid: '' @ e)
                                     | None \<Rightarrow> Inr (GenTime tst)))))))))"

definition verify_timestamp_trusted ::
  "pki \<Rightarrow> bytes \<Rightarrow> bytes \<Rightarrow> certificate list option \<Rightarrow> string + int" where
  "verify_timestamp_trusted P token expected trustedRoots =
     (case trustedRoots of
        None \<Rightarrow> Inl ''rfc3161: no TSA trust anchor configured (set TSA_ROOT_CERT_PEM); refusing to fall back to system roots''
      | Some roots \<Rightarrow>
     (case unmarshal_resp P token of
        None \<Rightarrow> Inl ''rfc3161: parse TimeStampResp''
      | Some (resp, rest) \<Rightarrow>
          if rest \<noteq> [] then Inl ''rfc3161: trailing bytes in TimeStampResp''
          else if resp_Status resp \<noteq> 0 then Inl ''rfc3161: TSA status not granted''
          else if FullBytes (TimeStampToken resp) = [] then Inl ''rfc3161: TimeStampResp has no timeStampToken''
          else (case unmarshal_content_info P (FullBytes (TimeStampToken resp)) of
            None \<Rightarrow> Inl ''rfc3161: parse ContentInfo''
          | Some ci \<Rightarrow>
              if ContentType ci \<noteq> oidSignedData then Inl ''rfc3161: ContentInfo type is not SignedData''
              else (case unmarshal_signed_data P (rv_Bytes (ci_Content ci)) of
                None \<Rightarrow> Inl ''rfc3161: parse SignedData''
              | Some sd \<Rightarrow>
                  if EContentType sd \<noteq> oidTSTInfo then Inl ''rfc3161: EncapContentInfo type is not id-ct-TSTInfo''
                  else (case unmarshal_octets P (rv_Bytes (EContent sd)) of
                    None \<Rightarrow> Inl ''rfc3161: parse eContent OCTET STRING''
                  | Some (tst_bytes, _) \<Rightarrow>
                      (case unmarshal_tst P tst_bytes of
                         None \<Rightarrow> Inl ''rfc3161: parse TSTInfo''
                       | Some tst \<Rightarrow>
                           if ImprintAlgorithm tst \<noteq> sha256OID
                           then Inl ''rfc3161: messageImprint uses unexpected algorithm''
                           else if HashedMessage tst \<noteq> expected then Inl ''rfc3161: messageImprint hash mismatch''
                           else (case SignerInfos sd of
                             [] \<Rightarrow> Inl ''rfc3161: SignedData has no signerInfos''
                           | si # _ \<Rightarrow>
                               (case extract_signer_cert P (Certificates sd) si of
                                  Inl e \<Rightarrow> Inl (''rfc3161: extract signer certificate: '' @ e)
                                | Inr cert \<Rightarrow>
                                    (case verify_signer_info_signature P si tst_bytes cert of
                                       Some e \<Rightarrow> Inl (''rfc3161: TSA signature invalid: '' @ e)
                                     | None \<Rightarrow>
                                         (case verify_certificate P cert roots
                                                 (extract_intermediate_certs P (Certificates sd) cert) (GenTime tst) of
                                            Some e \<Rightarrow> Inl (''rfc3161: certificate chain validation failed: '' @ e)
                                          | None \<Rightarrow>
                                              if \<not> has_timestamping_eku cert
                                              then Inl ''rfc3161: signer certificate does not have timestamping EKU (id-kp-timeStamping)''
                                              else Inr (GenTime tst)))))))))))"

section \<open>The TSA client\<close>

record http_reply =
  hr_status :: nat
  hr_content_type :: string
  hr_body :: "string + bytes"

text \<open>The request for a digest, as the DER encoder receives it.\<close>

record time_stamp_req =
  req_Version :: int
  req_Algorithm :: oid
  req_Hash :: bytes
  CertReq :: bool

definition build_timestamp_request :: "bytes \<Rightarrow> time_stamp_req" where
  "build_timestamp_request h = \<lparr>req_Version = 1, req_Algorithm = sha256OID, req_Hash = h, CertReq = True\<rparr>"

record tsa_client =
  endpoint :: string

definition new_tsa_client :: "string \<Rightarrow> tsa_client" where
  "new_tsa_client url = \<lparr>endpoint = url\<rparr>"

record http_query =
  hq_method :: string
  hq_url :: string
  hq_content_type :: string
  hq_length :: nat
  hq_body :: bytes

text \<open>\<open>new_req\<close> is the check of \<^verbatim>\<open>http.NewRequest\<close> on the URL and \<open>send\<close> the HTTP client.\<close>

definition post_request ::
  "(string \<Rightarrow> string option) \<Rightarrow> (http_query \<Rightarrow> 'w \<Rightarrow> (string + http_reply) \<times> 'w) \<Rightarrow> tsa_client \<Rightarrow> bytes \<Rightarrow> 'w \<Rightarrow>
   (string + http_reply) \<times> 'w" where
  "post_request new_req send c body w =
     (case new_req (endpoint c) of
        Some e \<Rightarrow> (Inl (''rfc3161: build HTTP request: '' @ e), w)
      | None \<Rightarrow>
          (case send \<lparr>hq_method = ''POST'', hq_url = endpoint c, hq_content_type = ''application/timestamp-query'',
                      hq_length = length body, hq_body = body\<rparr> w of
             (Inl e, w') \<Rightarrow> (Inl (''rfc3161: HTTP request to TSA failed: '' @ e), w')
           | (Inr reply, w') \<Rightarrow> (Inr reply, w')))"

definition tsaResponseSizeLimit :: nat where
  "tsaResponseSizeLimit = 64 * 1024"

definition timestamp ::
  "(time_stamp_req \<Rightarrow> string + bytes) \<Rightarrow> (bytes \<Rightarrow> 'w \<Rightarrow> (string + http_reply) \<times> 'w) \<Rightarrow> bytes \<Rightarrow> 'w \<Rightarrow>
   (string + bytes) \<times> 'w" where
  "timestamp marshal post h w =
     (case marshal (build_timestamp_request h) of
        Inl e \<Rightarrow> (Inl (''rfc3161: build request: ASN.1 marshal: '' @ e), w)
      | Inr der \<Rightarrow>
          (case post der w of
             (Inl e, w') \<Rightarrow> (Inl e, w')
           | (Inr reply, w') \<Rightarrow>
               ((if hr_status reply \<noteq> 200 then Inl (''rfc3161: TSA returned HTTP '' @ dec_digits (hr_status reply))
                 else if hr_content_type reply \<noteq> ''application/timestamp-reply''
                 then Inl ''rfc3161: unexpected Content-Type''
                 else (case hr_body reply of
                         Inl e \<Rightarrow> Inl (''rfc3161: read response body: '' @ e)
                       | Inr bs \<Rightarrow>
                           let token = take (tsaResponseSizeLimit + 1) bs
                           in if tsaResponseSizeLimit < length token
                              then Inl ''rfc3161: response body exceeds byte limit''
                              else Inr token)), w')))"

section \<open>The anchoring store\<close>

text \<open>\<open>strings.EqualFold\<close> against an ASCII string.\<close>

definition fold_rune :: "nat \<Rightarrow> nat" where
  "fold_rune r =
     (if 65 \<le> r \<and> r \<le> 90 then r + 32 else if r = 0x17F then 115 else if r = 0x212A then 107 else r)"

definition equal_fold :: "string \<Rightarrow> string \<Rightarrow> bool" where
  "equal_fold s t = (map fold_rune (go_runes s) = map fold_rune (go_runes t))"

definition assert_hash_binding :: "string \<Rightarrow> bytes \<Rightarrow> string option" where
  "assert_hash_binding key digest =
     guard_err (\<not> equal_fold key (''sha256:'' @ hex_encode digest))
       (''tier3: hash key '' @ key @ '' does not match SHA-256 of JWT'')"

definition string_of_bytes :: "bytes \<Rightarrow> string" where
  "string_of_bytes bs = map (\<lambda>b. char_of (unat b)) bs"

text \<open>
  \<open>Tier3Store.Put\<close> over the inner store's \<open>put\<close>: \<open>f1\<close> and \<open>f2\<close> are the environment during the
  two inner calls, \<open>tsa\<close> the answer of the authority to the digest.
\<close>

definition tier3_put ::
  "('f \<Rightarrow> string \<Rightarrow> string \<Rightarrow> 's \<Rightarrow> store_error option \<times> 's) \<Rightarrow> (string \<Rightarrow> bytes) \<Rightarrow>
   'f \<Rightarrow> 'f \<Rightarrow> (bytes \<Rightarrow> string + bytes) \<Rightarrow> string \<Rightarrow> string \<Rightarrow> 's \<Rightarrow> string option \<times> 's" where
  "tier3_put put sha f1 f2 tsa h jwt s =
     (case assert_hash_binding h (sha jwt) of
        Some e \<Rightarrow> (Some e, s)
      | None \<Rightarrow>
          (case put f1 h jwt s of
             (Some e, s1) \<Rightarrow> (Some (store_error_text e), s1)
           | (None, s1) \<Rightarrow>
               (case tsa (sha jwt) of
                  Inl _ \<Rightarrow> (None, s1)
                | Inr token \<Rightarrow>
                    (case put f2 (h @ ''.tst'') (string_of_bytes token) s1 of
                       (Some e, s2) \<Rightarrow>
                         (Some (''tier3: timestamp token for '' @ h @ '' could not be stored: ''
                                @ store_error_text e), s2)
                     | (None, s2) \<Rightarrow> (None, s2)))))"

definition tier3_get ::
  "('f \<Rightarrow> string \<Rightarrow> 's \<Rightarrow> (store_error + string) \<times> 's) \<Rightarrow> 'f \<Rightarrow> string \<Rightarrow> 's \<Rightarrow> (store_error + string) \<times> 's" where
  "tier3_get get f h s = get f h s"

definition tier3_delete ::
  "('f \<Rightarrow> string \<Rightarrow> 's \<Rightarrow> store_error option \<times> 's) \<Rightarrow> 'f \<Rightarrow> 'f \<Rightarrow> string \<Rightarrow> 's \<Rightarrow> store_error option \<times> 's" where
  "tier3_delete delete f1 f2 h s =
     (case delete f1 h s of
        (Some e, s1) \<Rightarrow> (Some e, s1)
      | (None, s1) \<Rightarrow> (None, snd (delete f2 (h @ ''.tst'') s1)))"

section \<open>What a verified token proves\<close>

definition attr_values :: "oid \<Rightarrow> (oid \<times> raw_value) list \<Rightarrow> raw_value list" where
  "attr_values t attrs = map snd (filter (\<lambda>a. fst a = t) attrs)"

lemma attr_oids_distinct: "oidContentTypeAttr \<noteq> oidMessageDigestAttr"
  by (simp add: oidContentTypeAttr_def oidMessageDigestAttr_def)

lemma check_attrs_None:
  "check_attrs P tst d ct md attrs = None \<longleftrightarrow>
     (if ct then attr_values oidContentTypeAttr attrs = []
      else \<exists>v. attr_values oidContentTypeAttr attrs = [v] \<and> check_content_type_attr P v = None) \<and>
     (if md then attr_values oidMessageDigestAttr attrs = []
      else \<exists>v. attr_values oidMessageDigestAttr attrs = [v] \<and> check_message_digest_attr P v tst d = None)"
proof (induction P tst d ct md attrs rule: check_attrs.induct)
  case (2 P tst d ct md t v attrs)
  consider "t = oidContentTypeAttr" | "t = oidMessageDigestAttr" | "t \<noteq> oidContentTypeAttr" "t \<noteq> oidMessageDigestAttr"
    by blast
  then show ?case
  proof cases
    case 1
    then show ?thesis using attr_oids_distinct 2(1)
      by (cases ct; cases "check_content_type_attr P v") (auto simp: attr_values_def)
  next
    case 2
    then show ?thesis using attr_oids_distinct "2.IH"(2)
      by (cases md; cases "check_message_digest_attr P v tst d") (auto simp: attr_values_def)
  next
    case 3
    then show ?thesis using "2.IH"(3) by (auto simp: attr_values_def)
  qed
qed (auto simp: attr_values_def)

lemma check_content_type_attr_None:
  "check_content_type_attr P v = None \<longleftrightarrow> unmarshal_oid P (rv_Bytes v) = Some (oidTSTInfo, [])"
  by (auto simp: check_content_type_attr_def split: option.splits)

lemma check_message_digest_attr_None:
  "check_message_digest_attr P v tst d = None \<longleftrightarrow>
     (\<exists>h. hasher_for P d = Some h \<and> unmarshal_octets P (rv_Bytes v) = Some (h tst, []))"
  by (auto simp: check_message_digest_attr_def split: option.splits)

text \<open>
  C33. The signature of a timestamp token covers the timestamp it is read from: it is accepted
  exactly when the algorithm is supported and either it is a signature of the content itself,
  or the signed attributes decode, contain exactly one content type, the one of timestamps, and
  exactly one message digest, the digest of the content under a supported hash, and the
  signature is one of these attributes in their SET encoding.
\<close>

theorem timestamp_signature_exact:
  "verify_signer_info_signature P si tst cert = None \<longleftrightarrow>
     map_signature_algorithm (SignatureAlgorithm si) \<noteq> 0 \<and>
     (if FullBytes (SignedAttrs si) = []
      then check_signature P cert (map_signature_algorithm (SignatureAlgorithm si)) tst (si_Signature si) = None
      else \<exists>outer rest attrs ct md h.
        unmarshal_raw P (FullBytes (SignedAttrs si)) = Some (outer, rest) \<and>
        parse_attribute_set P (rv_Bytes outer) = Some attrs \<and>
        attr_values oidContentTypeAttr attrs = [ct] \<and> unmarshal_oid P (rv_Bytes ct) = Some (oidTSTInfo, []) \<and>
        attr_values oidMessageDigestAttr attrs = [md] \<and> hasher_for P (DigestAlgorithm si) = Some h \<and>
        unmarshal_octets P (rv_Bytes md) = Some (h tst, []) \<and>
        check_signature P cert (map_signature_algorithm (SignatureAlgorithm si))
          (retag_set (FullBytes (SignedAttrs si))) (si_Signature si) = None)"
proof -
  have "verify_signed_attrs_binding P si tst = None \<longleftrightarrow>
      (\<exists>outer rest attrs ct md h.
        unmarshal_raw P (FullBytes (SignedAttrs si)) = Some (outer, rest) \<and>
        parse_attribute_set P (rv_Bytes outer) = Some attrs \<and>
        attr_values oidContentTypeAttr attrs = [ct] \<and> unmarshal_oid P (rv_Bytes ct) = Some (oidTSTInfo, []) \<and>
        attr_values oidMessageDigestAttr attrs = [md] \<and> hasher_for P (DigestAlgorithm si) = Some h \<and>
        unmarshal_octets P (rv_Bytes md) = Some (h tst, []))"
    by (auto simp: verify_signed_attrs_binding_def check_attrs_None check_content_type_attr_None
        check_message_digest_attr_None split: option.splits)
  then show ?thesis
    by (auto simp: verify_signer_info_signature_def Let_def split: option.splits)
qed

text \<open>The signer certificate and the other certificates that a token carries.\<close>

definition token_signer :: "pki \<Rightarrow> bytes \<Rightarrow> (certificate \<times> certificate list) option" where
  "token_signer P token =
     (case unmarshal_resp P token of
        None \<Rightarrow> None
      | Some (resp, _) \<Rightarrow>
          (case unmarshal_content_info P (FullBytes (TimeStampToken resp)) of
             None \<Rightarrow> None
           | Some ci \<Rightarrow>
               (case unmarshal_signed_data P (rv_Bytes (ci_Content ci)) of
                  None \<Rightarrow> None
                | Some sd \<Rightarrow>
                    (case SignerInfos sd of
                       [] \<Rightarrow> None
                     | si # _ \<Rightarrow>
                         (case extract_signer_cert P (Certificates sd) si of
                            Inl _ \<Rightarrow> None
                          | Inr cert \<Rightarrow> Some (cert, extract_intermediate_certs P (Certificates sd) cert))))))"

text \<open>
  The trusted verification is the plain verification plus trust: it accepts a token with a
  time exactly when trust anchors are configured, the plain verification accepts the token with
  this time, the signer certificate chains to an anchor as of that time, and it carries the
  time-stamping key usage. Without configured anchors nothing is accepted.
\<close>

theorem trusted_is_plain_plus_trust:
  "verify_timestamp_trusted P token expected trustedRoots = Inr t \<longleftrightarrow>
     (\<exists>roots cert inter. trustedRoots = Some roots \<and> verify_timestamp P token expected = Inr t \<and>
        token_signer P token = Some (cert, inter) \<and>
        verify_certificate P cert roots inter t = None \<and> has_timestamping_eku cert)"
  unfolding verify_timestamp_trusted_def verify_timestamp_def token_signer_def
  by (simp split: option.split sum.split list.split prod.split if_split) auto

section \<open>Anchoring over a store\<close>

locale anchored_store = receipt_store put get delete view slot
  for put :: "'f \<Rightarrow> string \<Rightarrow> string \<Rightarrow> 's \<Rightarrow> store_error option \<times> 's"
    and get :: "'f \<Rightarrow> string \<Rightarrow> 's \<Rightarrow> (store_error + string) \<times> 's"
    and delete :: "'f \<Rightarrow> string \<Rightarrow> 's \<Rightarrow> store_error option \<times> 's"
    and view :: "'s \<Rightarrow> 'k \<rightharpoonup> string"
    and slot :: "string \<Rightarrow> 'k" +
  assumes token_slot: "put f k v s = (None, s') \<Longrightarrow> slot (k @ ''.tst'') \<noteq> slot k"
begin

lemma anchored_put:
  assumes "tier3_put put sha f1 f2 tsa h jwt s = (None, s')"
  shows "equal_fold h (''sha256:'' @ hex_encode (sha jwt)) \<and> view s' (slot h) = Some jwt \<and>
    (\<forall>token. tsa (sha jwt) = Inr token \<longrightarrow> view s' (slot (h @ ''.tst'')) = Some (string_of_bytes token)) \<and>
    (\<forall>e. tsa (sha jwt) = Inl e \<longrightarrow> view s' (slot (h @ ''.tst'')) = view s (slot (h @ ''.tst''))) \<and>
    (\<exists>f s1. put f h jwt s = (None, s1))"
proof -
  obtain s1 where p: "put f1 h jwt s = (None, s1)" and b: "equal_fold h (''sha256:'' @ hex_encode (sha jwt))"
    using assms by (auto simp: tier3_put_def assert_hash_binding_def split: option.splits prod.splits)
  note v1 = put_stores [OF p] and ne = token_slot [OF p]
  show ?thesis
  proof (cases "tsa (sha jwt)")
    case (Inl e)
    then have "s' = s1" using assms p b by (simp add: tier3_put_def assert_hash_binding_def guard_err_def)
    with v1 b p Inl ne show ?thesis by auto
  next
    case (Inr token)
    then have p2: "put f2 (h @ ''.tst'') (string_of_bytes token) s1 = (None, s')"
      using assms p b by (auto simp: tier3_put_def assert_hash_binding_def guard_err_def split: option.splits prod.splits)
    with v1 b p Inr ne show ?thesis by (auto simp: put_stores [OF p2])
  qed
qed

end

lemma hash_path_token: "hash_path base h = Some p \<Longrightarrow> hash_path base (h @ ''.tst'') \<noteq> Some p"
proof
  assume a: "hash_path base h = Some p" "hash_path base (h @ ''.tst'') = Some p"
  from a(1) obtain d x where d: "match_key (trim_prefix ''sha256:'' h) = Some (d, x)"
      "p = [base, take 4 d, d @ ''.'' @ (if x = '''' then ''jwt'' else x)]"
    by (auto simp: hash_path_def split: option.splits)
  from a(2) obtain d' x' where d': "match_key (trim_prefix ''sha256:'' (h @ ''.tst'')) = Some (d', x')"
      "p = [base, take 4 d', d' @ ''.'' @ (if x' = '''' then ''jwt'' else x')]"
    by (auto simp: hash_path_def split: option.splits)
  have len: "length d = 64" "length d' = 64" using d d' by (auto simp: match_key_iff)
  have h7: "7 \<le> length h"
    using d(1) len(1) by (cases "prefix ''sha256:'' h")
      (auto simp: trim_prefix_def match_key_iff dest: prefix_length_le)
  have eq: "trim_prefix ''sha256:'' (h @ ''.tst'') = trim_prefix ''sha256:'' h @ ''.tst''"
  proof (cases "prefix ''sha256:'' h")
    case True
    then have "prefix ''sha256:'' (h @ ''.tst'')" by (rule prefix_prefix)
    with True h7 show ?thesis by (simp add: trim_prefix_def)
  next
    case False
    then have "\<not> prefix ''sha256:'' (h @ ''.tst'')"
      using prefix_length_prefix [of "''sha256:''" "h @ ''.tst''" h] h7 by auto
    with False show ?thesis by (simp add: trim_prefix_def)
  qed
  have name: "trim_prefix ''sha256:'' h = d \<or> trim_prefix ''sha256:'' h = d @ ''.jwt'' \<or>
      trim_prefix ''sha256:'' h = d @ ''.tst''" using d(1) by (auto simp: match_key_iff)
  from d'(1) have "trim_prefix ''sha256:'' h @ ''.tst'' \<in> {d', d' @ ''.jwt'', d' @ ''.tst''}"
    by (simp only: eq match_key_iff) blast
  with name len have "trim_prefix ''sha256:'' h = d" "x' = ''tst''"
    using d'(1) by (auto simp: eq match_key_iff dest: arg_cong [of _ _ length])
  then have "x = ''''" using d(1) by (auto simp: match_key_iff)
  with d(2) d'(2) \<open>x' = ''tst''\<close> len show False by simp
qed

interpretation fs_anchor: anchored_store fs_put fs_get fs_delete fs_view key_slot
proof
  fix f k v s s' assume "fs_put f k v s = (None, s')"
  then obtain p where "hash_path (baseDir s) k = Some p" by (auto simp: fs_put_def split: option.splits)
  with hash_path_token [OF this] show "key_slot (k @ ''.tst'') \<noteq> key_slot k"
    by (auto simp: hash_path_slot)
qed

section \<open>Anchoring over the filesystem store\<close>

lemma lower_hex_code:
  assumes "is_lower_hex c"
  shows "fold_rune (code_of c) = code_of c" and "code_of c < 128" and "code_of c \<noteq> 46" and "code_of c \<noteq> 115"
  using assms by (auto simp: is_lower_hex_def is_digit_def fold_rune_def)

lemma map_code_inj: "map code_of s = map code_of t \<longleftrightarrow> s = t"
  by (rule inj_map_eq_map) (metis char_of_code_of injI)

lemma fold_code_literals:
  "fold_rune (code_of CHR ''.'') = 46" "fold_rune (code_of CHR ''s'') = 115"
  by (simp_all add: fold_rune_def code_of_def)

lemma valid_key_fold_exact:
  assumes "hash_path base h = Some p" and "equal_fold h (''sha256:'' @ t)" and "\<forall>c \<in> set t. is_lower_hex c"
  shows "h = ''sha256:'' @ t"
proof -
  let ?F = "\<lambda>c. fold_rune (code_of c)"
  from assms(1) obtain d x where m: "match_key (trim_prefix ''sha256:'' h) = Some (d, x)"
    by (auto simp: hash_path_def split: option.splits)
  then obtain e where d: "length d = 64" "list_all is_lower_hex d" "trim_prefix ''sha256:'' h = d @ e"
      "e \<in> {'''', ''.jwt'', ''.tst''}"
    by (auto simp: match_key_iff)
  have h: "prefix ''sha256:'' h \<Longrightarrow> h = ''sha256:'' @ d @ e" "\<not> prefix ''sha256:'' h \<Longrightarrow> h = d @ e"
    using d(3) by (auto simp: trim_prefix_def prefix_def)
  have asc: "ascii (''sha256:'' @ d @ e)" "ascii (d @ e)" "ascii (''sha256:'' @ t)"
    using d(2,4) assms(3) lower_hex_code(2) by (auto simp: ascii_def list_all_iff code_of_def)
  then have "ascii h" using h by (cases "prefix ''sha256:'' h") simp_all
  then have eq: "map ?F h = map ?F (''sha256:'' @ t)"
    using assms(2) asc(3) by (simp add: equal_fold_def go_runes_ascii comp_def)
  have pre: "prefix ''sha256:'' h"
  proof (rule ccontr)
    assume "\<not> prefix ''sha256:'' h"
    then have "h = d @ e" by (rule h(2))
    then obtain c d' where "h = c # d'" "is_lower_hex c" using d(1,2) by (cases d) auto
    then show False using eq lower_hex_code [of c] fold_code_literals by simp
  qed
  then have h': "h = ''sha256:'' @ d @ e" by (rule h(1))
  with eq have eq': "map ?F (d @ e) = map ?F t" by simp
  then have "?F ` set (d @ e) = ?F ` set t" by (metis list.set_map)
  moreover have "46 \<notin> ?F ` set t" using assms(3) lower_hex_code(1,3) by fastforce
  ultimately have "46 \<notin> ?F ` set e" by (simp add: image_Un) (metis Un_iff)
  then have "e = ''''" using d(4) fold_code_literals by auto
  moreover have "map ?F d = map code_of d" "map ?F t = map code_of t"
    using d(2) assms(3) lower_hex_code(1) by (auto simp: list_all_iff)
  ultimately have "map code_of d = map code_of t" using eq' by (metis append_Nil2)
  then have "d = t" by (simp only: map_code_inj)
  with h' \<open>e = ''''\<close> show ?thesis by simp
qed

text \<open>
  C32. What a successful Put of the anchoring store over the filesystem has done. The key is exactly
  the SHA-256 chain hash of the receipt, and the receipt is stored under it; the case-insensitive
  comparison of the binding check lets nothing else through. If the authority answered, its token
  for exactly this digest is stored beside the receipt. If it did not, Put is successful all the same,
  and the entry of the token is the one from before.
\<close>

theorem tier3_put_bound:
  assumes "tier3_put fs_put sha f1 f2 tsa h jwt s = (None, s')"
  shows "h = ''sha256:'' @ hex_encode (sha jwt) \<and> fs_view s' (key_slot h) = Some jwt \<and>
    fs_view s' (key_slot (h @ ''.tst'')) =
      (case tsa (sha jwt) of Inr token \<Rightarrow> Some (string_of_bytes token)
       | Inl _ \<Rightarrow> fs_view s (key_slot (h @ ''.tst'')))"
proof -
  from fs_anchor.anchored_put [OF assms] obtain f s1 where
      a: "equal_fold h (''sha256:'' @ hex_encode (sha jwt))" "fs_view s' (key_slot h) = Some jwt"
      "\<forall>token. tsa (sha jwt) = Inr token \<longrightarrow> fs_view s' (key_slot (h @ ''.tst'')) = Some (string_of_bytes token)"
      "\<forall>e. tsa (sha jwt) = Inl e \<longrightarrow> fs_view s' (key_slot (h @ ''.tst'')) = fs_view s (key_slot (h @ ''.tst''))"
      "fs_put f h jwt s = (None, s1)" by blast
  from a(5) obtain p where "hash_path (baseDir s) h = Some p" by (auto simp: fs_put_def split: option.splits)
  from valid_key_fold_exact [OF this a(1)] hex_encode_lower have "h = ''sha256:'' @ hex_encode (sha jwt)" by blast
  with a(2-4) show ?thesis by (cases "tsa (sha jwt)") simp_all
qed

lemma hex_encode_aa: "hex_encode (replicate n 0xaa) = replicate (2 * n) CHR ''a''"
proof (induction n)
  case (Suc n)
  have "hex_digit (170 div 16) = CHR ''a''" "hex_digit (170 mod 16) = CHR ''a''" by code_simp+
  with Suc show ?case by (simp add: hex_encode_def)
qed (simp add: hex_encode_def)

lemma demo_token_path: "hash_path base (demo_key @ ''.tst'') = Some [base, ''aaaa'', demo_digest @ ''.tst'']"
proof -
  have "match_key (demo_digest @ ''.tst'') = Some (demo_digest, ''tst'')"
    by (simp add: match_key_iff demo_digest_def is_lower_hex_def is_digit_def code_of_def list_all_iff)
  moreover have "take 4 demo_digest = ''aaaa''" by (simp add: demo_digest_def eval_nat_numeral)
  ultimately show ?thesis by (simp add: hash_path_def trim_prefix_def demo_key_def)
qed

text \<open>An authority that answers with the token 1, 2, and one that is down, for the same receipt.\<close>

theorem tier3_put_bound_witness:
  "\<exists>s1 s2. tier3_put fs_put (\<lambda>_. replicate 32 0xaa) (no_faults 10) (no_faults 11) (\<lambda>_. Inr [1, 2]) demo_key ''jwt'' demo_fs = (None, s1) \<and>
     fs_view s1 (key_slot demo_key) = Some ''jwt'' \<and>
     fs_view s1 (key_slot (demo_key @ ''.tst'')) = Some (string_of_bytes [1, 2]) \<and>
     tier3_put fs_put (\<lambda>_. replicate 32 0xaa) (no_faults 10) (no_faults 11) (\<lambda>_. Inl ''down'') demo_key ''jwt'' demo_fs = (None, s2) \<and>
     fs_view s2 (key_slot demo_key) = Some ''jwt'' \<and> fs_view s2 (key_slot (demo_key @ ''.tst'')) = None"
proof -
  let ?sha = "\<lambda>s :: string. replicate 32 (0xaa :: byte)"
  have hx: "demo_key = ''sha256:'' @ hex_encode (replicate 32 0xaa)"
    using hex_encode_aa [of 32] by (simp add: demo_key_def demo_digest_def)
  then have bind: "assert_hash_binding demo_key (replicate 32 0xaa) = None"
    by (simp add: assert_hash_binding_def guard_err_def equal_fold_def)
  define s0 where "s0 = snd (fs_put (no_faults 10) demo_key ''jwt'' demo_fs)"
  define s1 where "s1 = snd (fs_put (no_faults 11) (demo_key @ ''.tst'') (string_of_bytes [1, 2]) s0)"
  have p0: "fs_put (no_faults 10) demo_key ''jwt'' demo_fs = (None, s0)" by (simp add: s0_def demo_put)
  have p1: "fs_put (no_faults 11) (demo_key @ ''.tst'') (string_of_bytes [1, 2]) s0 = (None, s1)"
    unfolding s1_def by (simp add: fs_put_def demo_token_path) (simp add: no_faults_def)
  have r1: "tier3_put fs_put ?sha (no_faults 10) (no_faults 11) (\<lambda>_. Inr [1, 2]) demo_key ''jwt'' demo_fs = (None, s1)"
    by (simp add: tier3_put_def bind p0 p1)
  have r2: "tier3_put fs_put ?sha (no_faults 10) (no_faults 11) (\<lambda>_. Inl ''down'') demo_key ''jwt'' demo_fs = (None, s0)"
    by (simp add: tier3_put_def bind p0)
  have "fs_view demo_fs (key_slot (demo_key @ ''.tst'')) = None" by (simp add: fs_view_def demo_fs_def split: option.split)
  with tier3_put_bound [OF r1] tier3_put_bound [OF r2] r1 r2 show ?thesis by auto
qed

end
