(* ===== verification/DRS_Main.thy ===== *)
theory DRS_Main
  imports DRS_Concurrent DRS_Anchor
begin

text \<open>
  The program that \<^verbatim>\<open>main\<close> of \<^verbatim>\<open>cmd/server/main.go\<close> puts together: the components of the other
  theories on one shared state, chosen by the configuration. Interface values are datatypes with
  one constructor per implementation. What is left as a parameter is the platform: DNS, HTTP, the
  clock, the operating system, cryptography, decoders and the LRU and rate libraries.
\<close>

section \<open>Interface values\<close>

text \<open>\<^verbatim>\<open>revocation.LocalStore\<close>.\<close>

datatype local_rev = MemRev local_revocation_store | FileRev file_store

fun local_rev_revoke :: "write_behaviour \<Rightarrow> uint64 \<Rightarrow> local_rev \<Rightarrow> string option \<times> local_rev" where
  "local_rev_revoke f i (MemRev s) = (let (e, s') = local_revoke () i s in (e, MemRev s'))"
| "local_rev_revoke f i (FileRev s) = (let (e, s') = file_revoke f i s in (e, FileRev s'))"

fun local_rev_is_revoked :: "uint64 \<Rightarrow> local_rev \<Rightarrow> bool" where
  "local_rev_is_revoked i (MemRev s) = local_is_revoked i s"
| "local_rev_is_revoked i (FileRev s) = file_is_revoked i s"

text \<open>Whatever the configuration chooses keeps the contract of the interface.\<close>

interpretation any_revocation: local_store local_rev_revoke local_rev_is_revoked
proof
  show "local_rev_is_revoked i s'" if "local_rev_revoke f i s = (None, s')" for f i s s'
    using that mem_revocation.revoke_ok file_revocation.revoke_ok by (cases s) (auto split: prod.splits)
  show "local_rev_is_revoked j (snd (local_rev_revoke f i s))" if "local_rev_is_revoked j s" for j s f i
    using that mem_revocation.revoke_keeps [of j _ "()" i] file_revocation.revoke_keeps [of j _ f i]
    by (cases s) (auto simp: split_beta Let_def)
  show "j = i \<or> local_rev_is_revoked j s" if "local_rev_is_revoked j (snd (local_rev_revoke f i s))" for j s f i
    using that mem_revocation.revoke_only [of j "()" i] file_revocation.revoke_only [of j f i]
    by (cases s) (auto simp: split_beta Let_def)
qed

text \<open>\<^verbatim>\<open>store.Store\<close>.\<close>

datatype 'm dr_store = MemStore 'm | FsStore fs_store | AnchoredStore tsa_client fs_store

section \<open>Platform and shared state\<close>

record ('c, 'd, 'n, 'm, 'e, 'b, 'l) platform =
  pf_net :: "'n net"
  pf_keys :: "(cache_entry, 'c) lru"
  pf_circuits :: "(nat, 'd) lru"
  pf_receipts :: "(string, 'm) lru"
  pf_status :: "'e status_env"
  pf_context :: "'e \<Rightarrow> string option \<times> 'e"
  pf_os :: "'e \<Rightarrow> os_env \<times> 'e"
  pf_marshal :: "time_stamp_req \<Rightarrow> string + bytes"
  pf_new_request :: "string \<Rightarrow> string option"
  pf_send :: "http_query \<Rightarrow> 'e \<Rightarrow> (string + http_reply) \<times> 'e"
  pf_pki :: pki
  pf_roots :: "certificate list"
  pf_prims :: prims
  pf_json :: json_ops
  pf_verify_json :: verify_json
  pf_admin_decode :: "body_stream \<Rightarrow> string + uint64"
  pf_limiter :: "'l limiter_ops"
  pf_buckets :: "(nat, 'b) lru"
  pf_oor :: int
  pf_parse_ip :: "string \<Rightarrow> byte list option"

record ('c, 'd, 'n, 'm, 'e) shared =
  sh_resolver :: "('c, 'd, 'n) resolver"
  sh_status :: status_cache
  sh_store :: "'m dr_store"
  sh_env :: 'e

type_synonym ('c, 'd, 'n, 'm, 'e) world = "local_rev \<times> ('c, 'd, 'n, 'm, 'e) shared"

section \<open>The operations behind \<open>Deps\<close>\<close>

definition main_resolve ::
  "('c, 'd, 'n, 'm, 'e, 'b, 'l) platform \<Rightarrow> resolver_config \<Rightarrow> string \<Rightarrow> ('c, 'd, 'n, 'm, 'e) world \<Rightarrow>
   resolve_outcome \<times> ('c, 'd, 'n, 'm, 'e) world" where
  "main_resolve P cfg did w =
     (let (out, r) = resolve (pf_net P) (pf_keys P) (pf_circuits P) cfg did (sh_resolver (snd w))
      in (out, (fst w, (snd w)\<lparr>sh_resolver := r\<rparr>)))"

text \<open>The request context is asked first; it is cancelled when the client has gone.\<close>

definition main_is_revoked ::
  "('c, 'd, 'n, 'm, 'e, 'b, 'l) platform \<Rightarrow> uint64 \<Rightarrow> ('c, 'd, 'n, 'm, 'e) world \<Rightarrow>
   (string + bool) \<times> ('c, 'd, 'n, 'm, 'e) world" where
  "main_is_revoked P i w =
     (let (ctx, e) = pf_context P (sh_env (snd w));
          (v, (c, e')) = status_is_revoked (pf_status P) ctx i (sh_status (snd w), e)
      in (v, (fst w, (snd w)\<lparr>sh_status := c, sh_env := e'\<rparr>)))"

definition tsa_timestamp ::
  "('c, 'd, 'n, 'm, 'e, 'b, 'l) platform \<Rightarrow> tsa_client \<Rightarrow> bytes \<Rightarrow> 'e \<Rightarrow> (string + bytes) \<times> 'e" where
  "tsa_timestamp P c = timestamp (pf_marshal P) (post_request (pf_new_request P) (pf_send P) c)"

text \<open>
  The answers of the platform to one \<open>Put\<close> are drawn before the call, also those that the call
  does not ask for after an error.
\<close>

definition store_put ::
  "('c, 'd, 'n, 'm, 'e, 'b, 'l) platform \<Rightarrow> string \<Rightarrow> string \<Rightarrow> 'm dr_store \<times> 'e \<Rightarrow>
   string option \<times> 'm dr_store \<times> 'e" where
  "store_put P h jwt st =
     (let (d, e) = st
      in case d of
           MemStore c \<Rightarrow>
             let (err, c') = mem_put (pf_receipts P) h jwt c
             in (map_option store_error_text err, MemStore c', e)
         | FsStore s \<Rightarrow>
             let (f, e1) = pf_os P e; (err, s') = fs_put f h jwt s
             in (map_option store_error_text err, FsStore s', e1)
         | AnchoredStore c s \<Rightarrow>
             let (f1, e1) = pf_os P e;
                 (token, e2) = tsa_timestamp P c (sha256 (pf_prims P) jwt) e1;
                 (f2, e3) = pf_os P e2;
                 (err, s') = tier3_put fs_put (sha256 (pf_prims P)) f1 f2 (\<lambda>_. token) h jwt s
             in (err, AnchoredStore c s', e3))"

definition store_get ::
  "('c, 'd, 'n, 'm, 'e, 'b, 'l) platform \<Rightarrow> string \<Rightarrow> 'm dr_store \<times> 'e \<Rightarrow> (string + string) \<times> 'm dr_store \<times> 'e" where
  "store_get P h st =
     (let (d, e) = st; text = map_sum store_error_text id
      in case d of
           MemStore c \<Rightarrow> let (v, c') = mem_get (pf_receipts P) h c in (text v, MemStore c', e)
         | FsStore s \<Rightarrow> let (f, e1) = pf_os P e; (v, s') = fs_get f h s in (text v, FsStore s', e1)
         | AnchoredStore c s \<Rightarrow>
             let (f, e1) = pf_os P e; (v, s') = tier3_get fs_get f h s in (text v, AnchoredStore c s', e1))"

definition on_store ::
  "('m dr_store \<times> 'e \<Rightarrow> 'a \<times> 'm dr_store \<times> 'e) \<Rightarrow> ('c, 'd, 'n, 'm, 'e) world \<Rightarrow> 'a \<times> ('c, 'd, 'n, 'm, 'e) world" where
  "on_store op w =
     (let (x, (d, e)) = op (sh_store (snd w), sh_env (snd w))
      in (x, (fst w, (snd w)\<lparr>sh_store := d, sh_env := e\<rparr>)))"

definition bytes_of_string :: "string \<Rightarrow> bytes" where
  "bytes_of_string s = map (\<lambda>c. word_of_nat (code_of c)) s"

definition main_deps ::
  "('c, 'd, 'n, 'm, 'e, 'b, 'l) platform \<Rightarrow> server_plan \<Rightarrow> resolver_config \<Rightarrow> ('c, 'd, 'n, 'm, 'e) world deps" where
  "main_deps P plan cfg =
     \<lparr>Resolve = main_resolve P cfg,
      Revocation = (if pl_status plan = None then None else Some (main_is_revoked P)),
      LocalRevoked = Some (\<lambda>i w. local_rev_is_revoked i (fst w)),
      StoreOps = Some (\<lambda>h jwt. on_store (store_put P h jwt), \<lambda>h. on_store (store_get P h)),
      ServerIdentity = pl_identity plan,
      IncludeTimestamps = False,
      VerifyTimestamp = (\<lambda>token digest. verify_timestamp_trusted (pf_pki P) (bytes_of_string token) digest
                                          (if pl_tsa_roots plan then Some (pf_roots P) else None)),
      MaxInvocationAge = pl_max_age plan\<rparr>"

text \<open>\<open>check\<close> is the nonce checker that the configuration chooses.\<close>

definition main_server ::
  "('c, 'd, 'n, 'm, 'e, 'b, 'l) platform \<Rightarrow> config \<Rightarrow> server_plan \<Rightarrow> resolver_config \<Rightarrow>
   (int \<Rightarrow> string \<Rightarrow> 's \<Rightarrow> nonce_error option \<times> 's) \<Rightarrow>
   (('c, 'd, 'n, 'm, 'e) world, 's, write_behaviour, 'b, 'l) server" where
  "main_server P conf plan cfg check =
     \<lparr>sv_prims = pf_prims P, sv_json = pf_json P, sv_verify_json = pf_verify_json P,
      sv_deps = main_deps P plan cfg, sv_check = check, sv_max_body = MaxBodyBytes conf,
      sv_status = (\<lambda>w. if pl_status plan = None then None else Some (sh_status (snd w))),
      sv_revoke = on_first local_rev_revoke, sv_admin_decode = pf_admin_decode P, sv_token = AdminToken conf,
      sv_limiter = pf_limiter P, sv_lru = pf_buckets P, sv_oor = pf_oor P, sv_parse_ip = pf_parse_ip P\<rparr>"

section \<open>Starting up\<close>

text \<open>What the platform answers to the constructors.\<close>

record ('n, 'e) boot_env =
  bt_net :: 'n
  bt_env :: 'e
  bt_mkdir :: "string option"
  bt_log :: "string + string option"
  bt_append :: "string option"
  bt_os :: os_env
  bt_disk :: fs
  bt_no_certificates :: bool
  bt_redis :: "string option"

definition boot_resolver ::
  "('c, 'd, 'n, 'm, 'e, 'b, 'l) platform \<Rightarrow> config \<Rightarrow> 'n \<Rightarrow> string + resolver_config \<times> ('c, 'd, 'n) resolver" where
  "boot_resolver P conf n =
     new_with_circuit_breaker (pf_keys P) (pf_circuits P) (sint (DidCacheSize conf)) (seconds_duration (DidCacheTTLSecs conf))
       (sint (CircuitBreakerThreshold conf)) (seconds_duration (CircuitBreakerCooldownSecs conf)) n"

definition boot_revocation :: "config \<Rightarrow> ('n, 'e) boot_env \<Rightarrow> string + local_rev" where
  "boot_revocation conf b =
     (if RevocationStorePath conf \<noteq> ''''
      then map_sum id FileRev (open_file_store (bt_mkdir b) (bt_log b) (bt_append b))
      else Inr (MemRev new_local_revocation_store))"

definition boot_store ::
  "('c, 'd, 'n, 'm, 'e, 'b, 'l) platform \<Rightarrow> config \<Rightarrow> ('n, 'e) boot_env \<Rightarrow> string + 'm dr_store" where
  "boot_store P conf b =
     (case choose_store conf of
        MemoryTier \<Rightarrow> map_sum id MemStore (new_memory_store (pf_receipts P) 0)
      | FilesystemTier dir \<Rightarrow> map_sum id FsStore (new_filesystem_store (bt_os b) dir 0 (bt_disk b))
      | AnchoredTier dir url \<Rightarrow>
          map_sum id (AnchoredStore (new_tsa_client url)) (new_filesystem_store (bt_os b) dir 0 (bt_disk b)))"

text \<open>A failing warm-up of the status list is only logged.\<close>

definition boot_status ::
  "('c, 'd, 'n, 'm, 'e, 'b, 'l) platform \<Rightarrow> config \<Rightarrow> 'e \<Rightarrow> status_cache \<times> 'e" where
  "boot_status P conf e =
     (let c = new_status_cache (StatusListBaseURL conf) (seconds_duration (StatusListCacheTTLSecs conf))
      in if StatusListBaseURL conf \<noteq> '''' then snd (warm_up (pf_status P) (c, e)) else (c, e))"

fun error_of :: "string + 'a \<Rightarrow> string option" where
  "error_of (Inl e) = Some e"
| "error_of (Inr x) = None"

definition boot ::
  "('c, 'd, 'n, 'm, 'e, 'b, 'l) platform \<Rightarrow> config \<Rightarrow> ('n, 'e) boot_env \<Rightarrow>
   string + server_plan \<times> resolver_config \<times> ('c, 'd, 'n, 'm, 'e) world" where
  "boot P conf b =
     (let res = boot_resolver P conf (bt_net b); rev = boot_revocation conf b; st = boot_store P conf b
      in case startup conf \<lparr>ie_resolver = error_of res, ie_revocation = error_of rev, ie_store = error_of st,
                           ie_no_certificates = bt_no_certificates b, ie_redis = bt_redis b\<rparr> of
           Inl e \<Rightarrow> Inl e
         | Inr plan \<Rightarrow>
             (case res of
                Inl e \<Rightarrow> Inl e
              | Inr (cfg, r) \<Rightarrow>
                  (case rev of
                     Inl e \<Rightarrow> Inl e
                   | Inr l \<Rightarrow>
                       (case st of
                          Inl e \<Rightarrow> Inl e
                        | Inr d \<Rightarrow>
                            let (c, e) = boot_status P conf (bt_env b)
                            in Inr (plan, cfg, (l, \<lparr>sh_resolver = r, sh_status = c, sh_store = d, sh_env = e\<rparr>))))))"

section \<open>The assembled program keeps the contracts\<close>

lemma main_resolve_view:
  "resolver_view (pf_net P) (pf_keys P) (pf_circuits P) cfg (\<lambda>w. sh_resolver (snd w)) (main_resolve P cfg)"
  by (simp add: resolver_view_def main_resolve_def split_beta Let_def)

lemma on_store_frame [simp]:
  "fst (snd (on_store op w)) = fst w" "sh_resolver (snd (snd (on_store op w))) = sh_resolver (snd w)"
  by (simp_all add: on_store_def split_beta Let_def)

lemma main_is_revoked_frame [simp]:
  "fst (snd (main_is_revoked P i w)) = fst w" "sh_resolver (snd (snd (main_is_revoked P i w))) = sh_resolver (snd w)"
  by (simp_all add: main_is_revoked_def split_beta Let_def)

lemma main_deps_frame: "deps_frame (main_deps P plan cfg) fst"
  by (auto simp: deps_frame_def lookups_frame_def main_deps_def main_resolve_def split_beta Let_def split: if_splits)

lemma main_lookups_frame: "lookups_frame (main_deps P plan cfg) (\<lambda>w. sh_resolver (snd w))"
  by (auto simp: lookups_frame_def main_deps_def split: if_splits)

lemma main_server_simps [simp]:
  "sv_prims (main_server P conf plan cfg check) = pf_prims P"
  "sv_deps (main_server P conf plan cfg check) = main_deps P plan cfg"
  "sv_check (main_server P conf plan cfg check) = check"
  "sv_revoke (main_server P conf plan cfg check) = on_first local_rev_revoke"
  by (simp_all add: main_server_def)

lemma boot_resolver_reach:
  assumes "boot P conf b = Inr (plan, cfg, w)"
  shows "resolver_reach env (pf_net P) (pf_keys P) (pf_circuits P) cfg (sh_resolver (snd w))"
proof -
  have "boot_resolver P conf (bt_net b) = Inr (cfg, sh_resolver (snd w))"
    using assms by (auto simp: boot_def Let_def split: sum.splits prod.splits)
  then show ?thesis unfolding boot_resolver_def by (rule resolver_reach.created)
qed

text \<open>
  C1. The assembled program is sound from its start. Whatever configuration it was started
  from, and however requests overlap, a request that is answered as valid carried a bundle that
  satisfied the whole specification at one of the steps, and every receipt of it and the
  invocation are signed with the keys that their did:key identities name. Of the platform this
  takes only the documented behaviour of the LRU library; the frames and the view of the resolver
  that the theorems on overlapping requests assume are facts about the assembled components.
\<close>

theorem program_acceptance_sound:
  assumes "lru_ok (pf_keys P) look" and "boot P conf b = Inr (plan, cfg, w)"
    and "i < length rs"
    and "tr_calls (traffic_run (main_server P conf plan cfg check) evs (arrivals w n rs)) ! i =
         (r, Answered (Some (200, VerifyBody res)))" and "Valid res"
  shows "\<exists>req xs iv keys ev. decoded_request (main_server P conf plan cfg check) r = Inr req \<and>
    decode_bundle_receipts (pf_prims P) (vr_bundle req) = Some xs \<and>
    decode_jwt_payload (unmarshal_invocation (pf_prims P)) (Invocation (vr_bundle req)) = Some iv \<and> ev \<in> set evs \<and>
    chain_spec (pf_prims P) (main_deps P plan cfg) (oc_now (snd ev)) keys (vr_bundle req) xs iv \<and>
    authentic (pf_prims P) (vr_bundle req) xs"
proof -
  let ?S = "main_server P conf plan cfg check" and ?get = "\<lambda>w. sh_resolver (snd w)"
  have "resolver_view (pf_net P) (pf_keys P) (pf_circuits P) cfg ?get (Resolve (sv_deps ?S))"
    using main_resolve_view [of P cfg] by (simp add: main_deps_def)
  moreover have "lookups_frame (sv_deps ?S) ?get" by (simp add: main_lookups_frame)
  moreover have "?get (snd (sv_revoke ?S f j v)) = ?get v" for f j v by (simp add: on_first_def split_beta Let_def)
  ultimately show ?thesis
    using interleaved_sound [where get = ?get, OF assms(1) _ _ _ boot_resolver_reach [OF assms(2)] assms(3-5)] by simp
qed

text \<open>
  C4. Revocation is final in the assembled program, whichever local store the configuration
  chose. Once \<^verbatim>\<open>/admin/revoke\<close> has answered 200 for an index, every request that has not looked up
  its receipts in the local store yet at that moment, or arrives later, is never answered as valid
  when its bundle has a receipt of that index, however the requests overlap, however the storage
  behaves and whatever the remote status list says. So a revocation also catches the requests that
  are waiting for issuers or for the status list.
\<close>

theorem program_revocation_final:
  assumes "a < length rs"
    and "snd (tr_calls (traffic_run (main_server P conf plan cfg check) before (arrivals w n rs)) ! a) =
         Answered (Some (200, RevokedIndex k))"
    and "j < length rs"
    and "before_screening (snd (tr_calls (traffic_run (main_server P conf plan cfg check) before (arrivals w n rs)) ! j))"
    and "decoded_request (main_server P conf plan cfg check) (rs ! j) = Inr req"
    and "decode_bundle_receipts (pf_prims P) (vr_bundle req) = Some xs" and "x \<in> set xs"
    and "dr_DrsStatusListIndex x = Some k"
    and "snd (tr_calls (traffic_run (main_server P conf plan cfg check) (before @ after) (arrivals w n rs)) ! j) =
         Answered (Some (200, VerifyBody res))"
  shows "\<not> Valid res"
proof -
  let ?S = "main_server P conf plan cfg check"
  have "LocalRevoked (sv_deps ?S) = Some (\<lambda>i w. local_rev_is_revoked i (fst w))" by (simp add: main_deps_def)
  then show ?thesis
    using any_revocation.interleaved_revocation [of ?S, OF _ _ _ assms(1-5) _ assms(7-9)] assms(6)
    by (simp add: main_deps_frame)
qed

end
