(* ===== verification/DRS_Disk.thy ===== *)
theory DRS_Disk
  imports DRS_Main
begin

text \<open>
  The receipts that the assembled program keeps: what a valid answer says about the files in the
  receipt directory, for one verification and for any interleaving of requests.
\<close>

section \<open>Accepted receipts are on disk\<close>

context anchored_store
begin

lemma anchored_put_local:
  assumes "tier3_put put sha f1 f2 tsa h jwt s = (e, s')" and "slot k \<noteq> slot h" and "slot k \<noteq> slot (h @ ''.tst'')"
  shows "view s' (slot k) = view s (slot k)"
proof -
  have one: "view s2 (slot k) = view s1 (slot k)" if "put f h jwt s1 = (x, s2)" for f x s1 s2
    using put_local [OF assms(2), of f jwt s1] that by simp
  have two: "view s2 (slot k) = view s1 (slot k)" if "put f (h @ ''.tst'') v s1 = (x, s2)" for f v x s1 s2
    using put_local [OF assms(3), of f v s1] that by simp
  show ?thesis
    using assms(1) by (auto simp: tier3_put_def dest!: one two split: option.splits prod.splits sum.splits)
qed

end

fun disk_view :: "'m dr_store \<Rightarrow> path option \<rightharpoonup> string" where
  "disk_view (MemStore c) = Map.empty"
| "disk_view (FsStore s) = fs_view s"
| "disk_view (AnchoredStore c s) = fs_view s"

fun on_disk :: "'m dr_store \<Rightarrow> bool" where
  "on_disk (MemStore c) = False"
| "on_disk _ = True"

lemma hex_no_extension: "CHR ''.'' \<notin> set (hex_encode bs)"
  using hex_encode_lower [of "CHR ''.''" bs] lower_hex_plain [of "CHR ''.''"] by auto

lemma key_slot_chain:
  assumes "key_slot (compute_chain_hash pr x) = Some p"
  shows "p = [take 4 (hex_encode (sha256 pr x)), hex_encode (sha256 pr x) @ ''.jwt'']"
proof -
  have "trim_prefix ''sha256:'' (compute_chain_hash pr x) = hex_encode (sha256 pr x)"
    by (simp add: compute_chain_hash_def trim_prefix_def)
  with assms obtain d t where "match_key (hex_encode (sha256 pr x)) = Some (d, t)"
      "p = [take 4 d, d @ ''.'' @ (if t = '''' then ''jwt'' else t)]"
    by (auto simp: key_slot_def hash_path_def split: option.splits)
  moreover from this(1) have "hex_encode (sha256 pr x) = d \<and> t = ''''"
    using hex_no_extension [of "sha256 pr x"] by (auto simp: match_key_iff)
  ultimately show ?thesis by simp
qed

lemma key_slot_token:
  assumes "key_slot (compute_chain_hash pr x @ ''.tst'') = Some p"
  shows "p = [take 4 (hex_encode (sha256 pr x)), hex_encode (sha256 pr x) @ ''.tst'']"
proof -
  have "trim_prefix ''sha256:'' (compute_chain_hash pr x @ ''.tst'') = hex_encode (sha256 pr x) @ ''.tst''"
    by (simp add: compute_chain_hash_def trim_prefix_def)
  with assms obtain d t where m: "match_key (hex_encode (sha256 pr x) @ ''.tst'') = Some (d, t)"
      "p = [take 4 d, d @ ''.'' @ (if t = '''' then ''jwt'' else t)]"
    by (auto simp: key_slot_def hash_path_def split: option.splits)
  have "CHR ''.'' \<notin> set d" using m(1) lower_hex_plain by (auto simp: match_key_iff list_all_iff)
  with m show ?thesis by (auto simp: match_key_iff)
qed

lemma store_put_kept:
  assumes "store_put P (compute_chain_hash (pf_prims P) jwt) jwt (d, e) = (None, (d', e'))" and "on_disk d"
  shows "on_disk d' \<and> disk_view d' (key_slot (compute_chain_hash (pf_prims P) jwt)) = Some jwt \<and>
    (\<forall>x. key_slot (compute_chain_hash (pf_prims P) x) \<noteq> None \<longrightarrow>
         key_slot (compute_chain_hash (pf_prims P) x) \<noteq> key_slot (compute_chain_hash (pf_prims P) jwt) \<longrightarrow>
         disk_view d' (key_slot (compute_chain_hash (pf_prims P) x)) = disk_view d (key_slot (compute_chain_hash (pf_prims P) x)))"
proof (cases d)
  case (FsStore s)
  with assms(1) obtain f s' where "fs_put f (compute_chain_hash (pf_prims P) jwt) jwt s = (None, s')" "d' = FsStore s'"
    by (auto simp: store_put_def Let_def split: prod.splits)
  with fs.put_stores [OF this(1)] FsStore show ?thesis by simp
next
  case (AnchoredStore c s)
  with assms(1) obtain f1 f2 token s' where
      p: "tier3_put fs_put (sha256 (pf_prims P)) f1 f2 (\<lambda>_. token) (compute_chain_hash (pf_prims P) jwt) jwt s = (None, s')"
        "d' = AnchoredStore c s'"
    by (auto simp: store_put_def Let_def split: prod.splits)
  have "key_slot (compute_chain_hash (pf_prims P) x) \<noteq> key_slot (compute_chain_hash (pf_prims P) jwt @ ''.tst'')"
    if "key_slot (compute_chain_hash (pf_prims P) x) \<noteq> None" for x
    using that key_slot_chain [of "pf_prims P" x] key_slot_token [of "pf_prims P" jwt] by auto
  with fs_anchor.anchored_put [OF p(1)] fs_anchor.anchored_put_local [OF p(1)] p(2) AnchoredStore show ?thesis by simp
qed (use assms(2) in simp)

abbreviation receipt_slot :: "('c, 'd, 'n, 'm, 'e, 'b, 'l) platform \<Rightarrow> string \<Rightarrow> path option" where
  "receipt_slot P jwt \<equiv> key_slot (compute_chain_hash (pf_prims P) jwt)"

lemma receipt_slot_inj:
  assumes "receipt_slot P x = receipt_slot P y" and "receipt_slot P x \<noteq> None"
  shows "sha256 (pf_prims P) x = sha256 (pf_prims P) y"
proof -
  from assms obtain p where "receipt_slot P x = Some p" "receipt_slot P y = Some p" by auto
  from key_slot_chain [OF this(1)] key_slot_chain [OF this(2)] show ?thesis by (simp add: hex_encode_inj)
qed

lemma disk_view_None [simp]: "disk_view d None = None"
  by (cases d) (simp_all add: fs_view_def)

lemma store_receipts_kept:
  assumes "inj_on (sha256 (pf_prims P)) (set jwts)"
  shows "store_receipts (pf_prims P) (\<lambda>h jwt. on_store (store_put P h jwt)) jwts w = ([], w') \<Longrightarrow>
    on_disk (sh_store (snd w)) \<Longrightarrow>
    (\<forall>jwt \<in> set jwts. disk_view (sh_store (snd w')) (receipt_slot P jwt) = Some jwt) \<and>
    (\<forall>x. receipt_slot P x \<noteq> None \<longrightarrow> (\<forall>jwt \<in> set jwts. receipt_slot P x \<noteq> receipt_slot P jwt) \<longrightarrow>
       disk_view (sh_store (snd w')) (receipt_slot P x) = disk_view (sh_store (snd w)) (receipt_slot P x))"
  using assms
proof (induction jwts arbitrary: w)
  case (Cons jwt jwts)
  obtain err d e where put: "store_put P (compute_chain_hash (pf_prims P) jwt) jwt (sh_store (snd w), sh_env (snd w)) = (err, (d, e))"
    by (cases "store_put P (compute_chain_hash (pf_prims P) jwt) jwt (sh_store (snd w), sh_env (snd w))") auto
  define w1 where "w1 = (fst w, (snd w)\<lparr>sh_store := d, sh_env := e\<rparr>)"
  have one: "on_store (store_put P (compute_chain_hash (pf_prims P) jwt) jwt) w = (err, w1)"
    by (simp add: on_store_def put w1_def)
  have rest: "store_receipts (pf_prims P) (\<lambda>h jwt. on_store (store_put P h jwt)) jwts w1 = ([], w')" and "err = None"
    using Cons.prems(1) one by (auto simp: Let_def split: prod.splits option.splits)
  note first = store_put_kept [OF put [unfolded \<open>err = None\<close>] Cons.prems(2)]
  then have slot: "receipt_slot P jwt \<noteq> None" by (cases "receipt_slot P jwt") simp_all
  have inj: "inj_on (sha256 (pf_prims P)) (set jwts)" using Cons.prems(3) by simp
  from Cons.IH [OF rest _ inj] first have later:
      "\<forall>y \<in> set jwts. disk_view (sh_store (snd w')) (receipt_slot P y) = Some y"
      "\<forall>x. receipt_slot P x \<noteq> None \<longrightarrow> (\<forall>y \<in> set jwts. receipt_slot P x \<noteq> receipt_slot P y) \<longrightarrow>
         disk_view (sh_store (snd w')) (receipt_slot P x) = disk_view d (receipt_slot P x)"
    by (simp_all add: w1_def)
  have "disk_view (sh_store (snd w')) (receipt_slot P jwt) = Some jwt"
  proof (cases "jwt \<in> set jwts")
    case False
    have "receipt_slot P jwt \<noteq> receipt_slot P y" if "y \<in> set jwts" for y
      using receipt_slot_inj [OF _ slot, of y] inj_onD [OF Cons.prems(3), of jwt y] False that by auto
    with later(2) slot have "disk_view (sh_store (snd w')) (receipt_slot P jwt) = disk_view d (receipt_slot P jwt)" by blast
    with first show ?thesis by argo
  qed (use later(1) in blast)
  moreover have "disk_view (sh_store (snd w')) (receipt_slot P x) = disk_view (sh_store (snd w)) (receipt_slot P x)"
    if "receipt_slot P x \<noteq> None" "\<forall>y \<in> set (jwt # jwts). receipt_slot P x \<noteq> receipt_slot P y" for x
  proof -
    from that have "receipt_slot P x \<noteq> receipt_slot P jwt" "\<forall>y \<in> set jwts. receipt_slot P x \<noteq> receipt_slot P y" by simp_all
    with that(1) later(2) first show ?thesis by metis
  qed
  ultimately show ?case using later(1) by simp
qed simp

text \<open>
  What the verifier accepts, it can show. With a receipt directory configured, with or
  without a timestamping authority, for a request that does not ask for timestamps to be verified,
  a valid result without a store warning means that afterwards every receipt
  of the bundle stands on disk, under the file of its own chain hash and byte for byte as it was
  presented. The only assumption is that SHA-256 does not collide on the receipts of the bundle.
\<close>

theorem accepted_receipts_on_disk:
  assumes "chain (pf_prims P) sched (main_deps P plan cfg) now b w = (Some res, w')" and "Valid res"
    and "StoreWarnings res = []" and "on_disk (sh_store (snd w))" and "inj_on (sha256 (pf_prims P)) (set (Receipts b))"
    and "jwt \<in> set (Receipts b)"
  shows "disk_view (sh_store (snd w')) (receipt_slot P jwt) = Some jwt"
proof -
  have resolved: "sh_store (snd (snd (resolve_issuers_parallel sched (Resolve (main_deps P plan cfg)) dids w))) = sh_store (snd w)"
    for dids by (rule resolve_frame) (simp add: main_deps_def main_resolve_def split_beta Let_def)
  have looked: "sh_store (snd (snd (block_f (main_deps P plan cfg) rs v))) = sh_store (snd v)" for rs v
  proof -
    have "sh_store (snd (snd (remote_revocation (main_is_revoked P) rs v))) = sh_store (snd v)"
      by (rule remote_revocation_frame) (simp add: main_is_revoked_def split_beta Let_def)
    then show ?thesis by (auto simp: block_f_def main_deps_def split_beta Let_def split: option.split)
  qed
  from assms(1,2) obtain rs v where fin: "finish_chain (pf_prims P) (main_deps P plan cfg) (Receipts b) rs v = (res, w')"
      "sh_store (snd v) = sh_store (snd w)"
    using resolved looked
    by (auto simp: chain_def chain_decoded_def Let_def split: option.splits sum.splits prod.splits) (metis snd_conv)
  from fin(1) assms(3) have "store_receipts (pf_prims P) (\<lambda>h jwt. on_store (store_put P h jwt)) (Receipts b) v = ([], w')"
    by (auto simp: finish_chain_def main_deps_def Let_def split: prod.splits)
  from store_receipts_kept [OF assms(5) this] fin(2) assms(4,6) show ?thesis by simp
qed

section \<open>Receipts stay on disk while other requests run\<close>

lemma fs_get_local:
  "key_slot k' \<noteq> key_slot k \<Longrightarrow> fs_view (snd (fs_get f k s)) (key_slot k') = fs_view s (key_slot k')"
  by (auto simp: fs_get_def hash_path_slot fs_view_upd split: option.split)

lemma fs_put_whole: "\<forall>n err. os_write f \<noteq> Some (Some n, err) \<Longrightarrow> fs_put f h jwt s = (Some e, s') \<Longrightarrow> s' = s"
  by (auto simp: fs_put_def split: option.splits)

text \<open>No write of a file stops in the middle; the file may fail to be opened.\<close>

definition whole_files :: "('c, 'd, 'n, 'm, 'e, 'b, 'l) platform \<Rightarrow> bool" where
  "whole_files P = (\<forall>e n err. os_write (fst (pf_os P e)) \<noteq> Some (Some n, err))"

lemma token_slot_apart:
  "receipt_slot P x \<noteq> None \<Longrightarrow> receipt_slot P x \<noteq> key_slot (compute_chain_hash (pf_prims P) y @ ''.tst'')"
  using key_slot_chain [of "pf_prims P" x] key_slot_token [of "pf_prims P" y] by auto

lemma store_put_stable:
  assumes "whole_files P" and "store_put P (compute_chain_hash (pf_prims P) jwt) jwt (d, e) = (err, (d', e'))"
    and "receipt_slot P x \<noteq> None"
  shows "on_disk d' = on_disk d \<and> (disk_view d' (receipt_slot P x) = disk_view d (receipt_slot P x) \<or>
    receipt_slot P x = receipt_slot P jwt \<and> disk_view d' (receipt_slot P x) = Some jwt)"
proof -
  let ?h = "compute_chain_hash (pf_prims P) jwt"
  have one: "fs_view s' (receipt_slot P x) = fs_view s (receipt_slot P x) \<or>
      receipt_slot P x = receipt_slot P jwt \<and> fs_view s' (receipt_slot P x) = Some jwt"
    if "fs_put (fst (pf_os P e1)) ?h jwt s = (er, s')" for e1 s er s'
    using that assms(1) fs_put_whole [of "fst (pf_os P e1)" ?h jwt s] fs.put_stores [of "fst (pf_os P e1)" ?h jwt s]
    by (cases er) (auto simp: whole_files_def)
  have two: "fs_view s' (receipt_slot P x) = fs_view s (receipt_slot P x)"
    if "fs_put f (?h @ ''.tst'') v s = (er, s')" for f v s er s'
    using fs.put_local [of "compute_chain_hash (pf_prims P) x" "?h @ ''.tst''" f v s] token_slot_apart [OF assms(3)] that by simp
  show ?thesis
  proof (cases d)
    case (MemStore c)
    with assms(2) show ?thesis by (auto simp: store_put_def Let_def split: prod.splits)
  next
    case (FsStore s)
    with assms(2) obtain s' where "fs_put (fst (pf_os P e)) ?h jwt s = (fst (fs_put (fst (pf_os P e)) ?h jwt s), s')" "d' = FsStore s'"
      by (auto simp: store_put_def Let_def split: prod.splits)
    with one [OF this(1)] FsStore show ?thesis by simp
  next
    case (AnchoredStore c s)
    with assms(2) obtain f2 token s' where
        p: "tier3_put fs_put (sha256 (pf_prims P)) (fst (pf_os P e)) f2 (\<lambda>_. token) ?h jwt s = (err, s')" "d' = AnchoredStore c s'"
      by (auto simp: store_put_def Let_def split: prod.splits)
    have "s' = s \<or> (\<exists>er s1. fs_put (fst (pf_os P e)) ?h jwt s = (er, s1) \<and>
        (s' = s1 \<or> (\<exists>v er2. fs_put f2 (?h @ ''.tst'') v s1 = (er2, s'))))"
      using p(1) by (auto simp: tier3_put_def split: option.splits prod.splits sum.splits)
    with one two AnchoredStore p(2) show ?thesis by (metis disk_view.simps(3) on_disk.simps(3))
  qed
qed

lemma store_get_stable:
  assumes "store_get P (compute_chain_hash (pf_prims P) y @ ''.tst'') (d, e) = (v, (d', e'))" and "receipt_slot P x \<noteq> None"
  shows "on_disk d' = on_disk d \<and> disk_view d' (receipt_slot P x) = disk_view d (receipt_slot P x)"
proof -
  have one: "fs_view s' (receipt_slot P x) = fs_view s (receipt_slot P x)"
    if "fs_get f (compute_chain_hash (pf_prims P) y @ ''.tst'') s = (v, s')" for f s v s'
    using fs_get_local [OF token_slot_apart [OF assms(2)], of f y s] that by simp
  show ?thesis
    using assms(1) by (cases d) (auto simp: store_get_def tier3_get_def Let_def dest!: one split: prod.splits)
qed

definition kept :: "('c, 'd, 'n, 'm, 'e, 'b, 'l) platform \<Rightarrow> ('c, 'd, 'n, 'm, 'e) world \<Rightarrow> string \<Rightarrow> bool" where
  "kept P w x = (disk_view (sh_store (snd w)) (receipt_slot P x) = Some x)"

lemma kept_slot: "kept P w x \<Longrightarrow> receipt_slot P x \<noteq> None"
  by (cases "receipt_slot P x") (simp_all add: kept_def)

lemma put_keeps:
  assumes "whole_files P" and "inj_on (sha256 (pf_prims P)) A" and "jwt \<in> A" "x \<in> A" "kept P w x"
    and "store_receipts (pf_prims P) (\<lambda>h jwt. on_store (store_put P h jwt)) [jwt] w = (ws, w')"
  shows "kept P w' x"
proof -
  obtain err d e where put: "store_put P (compute_chain_hash (pf_prims P) jwt) jwt (sh_store (snd w), sh_env (snd w)) = (err, (d, e))"
    by (cases "store_put P (compute_chain_hash (pf_prims P) jwt) jwt (sh_store (snd w), sh_env (snd w))") auto
  then have w': "sh_store (snd w') = d" using assms(6) by (auto simp: on_store_def Let_def split: option.splits)
  note slot = kept_slot [OF assms(5)]
  have "jwt = x" if "receipt_slot P x = receipt_slot P jwt"
    using receipt_slot_inj [OF that slot] inj_onD [OF assms(2)] assms(3,4) by metis
  with store_put_stable [OF assms(1) put slot] assms(5) show ?thesis by (auto simp: kept_def w')
qed

lemma put_kept:
  assumes "store_receipts (pf_prims P) (\<lambda>h jwt. on_store (store_put P h jwt)) [jwt] w = ([], w')" and "on_disk (sh_store (snd w))"
  shows "kept P w' jwt"
proof -
  obtain err d e where put: "store_put P (compute_chain_hash (pf_prims P) jwt) jwt (sh_store (snd w), sh_env (snd w)) = (err, (d, e))"
    by (cases "store_put P (compute_chain_hash (pf_prims P) jwt) jwt (sh_store (snd w), sh_env (snd w))") auto
  then have "err = None" "sh_store (snd w') = d" using assms(1) by (auto simp: on_store_def Let_def split: option.splits)
  with store_put_kept [OF put [unfolded this(1)] assms(2)] show ?thesis by (simp add: kept_def)
qed

lemma stores_stay_on_disk:
  "on_disk (fst (snd (store_put P h jwt (d, e)))) = on_disk d" "on_disk (fst (snd (store_get P h (d, e)))) = on_disk d"
  by (cases d; simp add: store_put_def store_get_def split_beta Let_def)+

lemma stays_on_disk:
  "on_disk (sh_store (snd (snd (store_receipts pr (\<lambda>h jwt. on_store (store_put P h jwt)) jwts w)))) = on_disk (sh_store (snd w))"
  "on_disk (sh_store (snd (snd (check_timestamps pr (\<lambda>h. on_store (store_get P h)) vts i jwts w)))) = on_disk (sh_store (snd w))"
  by (rule store_receipts_frame check_timestamps_frame; simp add: on_store_def split_beta Let_def stores_stay_on_disk)+

lemma get_keeps:
  assumes "kept P w x" and "check_timestamps (pf_prims P) (\<lambda>h. on_store (store_get P h)) vts i [jwt] w = (ts, w')"
  shows "kept P w' x"
proof -
  let ?h = "compute_chain_hash (pf_prims P) jwt @ ''.tst''"
  obtain v d e where get: "store_get P ?h (sh_store (snd w), sh_env (snd w)) = (v, (d, e))"
    by (cases "store_get P ?h (sh_store (snd w), sh_env (snd w))") auto
  then have "sh_store (snd w') = d" using assms(2) by (auto simp: on_store_def Let_def)
  with store_get_stable [OF get kept_slot [OF assms(1)]] assms(1) show ?thesis by (simp add: kept_def)
qed

text \<open>The receipts of all requests, and what a request that stores its receipts has achieved.\<close>

definition receipts_of :: "('w, 'n, 'f, 'c, 'l) server \<Rightarrow> request list \<Rightarrow> string set" where
  "receipts_of S rs = {jwt. \<exists>r \<in> set rs. \<exists>req. decoded_request S r = Inr req \<and> jwt \<in> set (Receipts (vr_bundle req))}"

fun stored_ok ::
  "('w, 'n, 'f, 'c, 'l) server \<Rightarrow> (string \<Rightarrow> bool) \<Rightarrow> request \<Rightarrow> phase \<Rightarrow> bool" where
  "stored_ok S K r (Storing req rs todo ws) =
     (decoded_request S r = Inr req \<and>
      (\<exists>jwts. Receipts (vr_bundle req) = jwts @ todo \<and> (ws = [] \<longrightarrow> (\<forall>x \<in> set jwts. K x))))"
| "stored_ok S K r (Stamping req rs todo ws ts) =
     (decoded_request S r = Inr req \<and> (ws = [] \<longrightarrow> (\<forall>x \<in> set (Receipts (vr_bundle req)). K x)))"
| "stored_ok S K r (Claiming req result) =
     (decoded_request S r = Inr req \<and> (StoreWarnings result = [] \<longrightarrow> (\<forall>x \<in> set (Receipts (vr_bundle req)). K x)))"
| "stored_ok S K r (Answered resp) =
     (\<forall>res. resp = Some (200, VerifyBody res) \<longrightarrow> Valid res \<longrightarrow> StoreWarnings res = [] \<longrightarrow>
        (\<exists>req. decoded_request S r = Inr req \<and> (\<forall>x \<in> set (Receipts (vr_bundle req)). K x)))"
| "stored_ok S K r p = True"

lemma stored_ok_mono:
  assumes "stored_ok S K r p" and "\<And>x. x \<in> receipts_of S [r] \<Longrightarrow> K x \<Longrightarrow> K' x"
  shows "stored_ok S K' r p"
  using assms by (cases "(S, K, r, p)" rule: stored_ok.cases) (fastforce simp: receipts_of_def)+

lemma stored_ok_rejection [simp]: "stored_ok S K r (rejection code)"
  by (simp add: rejection_def invalid_result_def)

lemma stored_ok_first [simp]: "stored_ok S K r (first_phase S r)"
  by (auto simp: first_phase_def split: sum.split decode_error.split option.split)

lemma finished_warnings [simp]: "StoreWarnings (finished S req rs ws ts) = ws"
  by (simp add: finished_def Let_def)

lemma main_store_ops [simp]:
  "StoreOps (main_deps P plan cfg) = Some (\<lambda>h jwt. on_store (store_put P h jwt), \<lambda>h. on_store (store_get P h))"
  by (simp add: main_deps_def)

lemma phase_step_store:
  assumes "S = main_server P conf plan cfg check" and "phase_step S oc r p (w, n) = (p', w', n')"
    and "\<And>req rs todo ws ts. p \<noteq> Storing req rs todo ws \<and> p \<noteq> Stamping req rs todo ws ts"
  shows "sh_store (snd w') = sh_store (snd w)"
proof (cases p)
  case Arrived
  have "sh_store (snd w') = sh_store (snd w)" if "admin_handler S oc r (w, n) = (resp, w', n')" for resp
    using admin_handler_effect(2) [OF that] assms(1) by (auto simp: on_first_def split_beta Let_def)
  with Arrived assms(2) show ?thesis by (auto simp: other_endpoint_def split: if_splits prod.splits)
next
  case (Resolving req rs iv)
  have "sh_store (snd (snd (resolve_issuers_parallel sched (Resolve (sv_deps S)) dids w))) = sh_store (snd w)" for sched dids
    by (rule resolve_frame) (simp add: assms(1) main_deps_def main_resolve_def split_beta Let_def)
  from this [of "oc_sched oc" "issuer_dids rs iv"] Resolving assms(2) show ?thesis
    by (auto split: prod.splits option.splits sum.splits)
next
  case (Revoking req rs todo)
  have "sh_store (snd (snd (remote_revocation (main_is_revoked P) xs w))) = sh_store (snd w)" for xs
    by (rule remote_revocation_frame) (simp add: main_is_revoked_def split_beta Let_def)
  moreover have "Revocation (sv_deps S) = Some is_rev \<Longrightarrow> is_rev = main_is_revoked P" for is_rev
    by (auto simp: assms(1) main_deps_def split: if_splits)
  ultimately show ?thesis using Revoking assms(2)
    by (auto simp del: remote_revocation.simps split: prod.splits option.splits list.splits) (metis snd_conv)+
qed (use assms(2,3) in \<open>auto split: prod.splits option.splits list.splits\<close>)

lemma phase_step_stored:
  assumes "phase_step S oc r p (w, n) = (p', w', n')" and "phase_ok S (\<lambda>w. True) UNIV r p" and "stored_ok S K r p"
    and "\<And>req rs todo ws ts. p \<noteq> Storing req rs todo ws \<and> p \<noteq> Stamping req rs todo ws ts"
  shows "stored_ok S K r p'"
proof (cases p)
  case Arrived
  with assms(1) show ?thesis by (auto split: if_splits prod.splits dest: other_endpoint_payload)
next
  case (Screening req rs todo)
  with assms(2) have "decoded_request S r = Inr req" by (auto simp: passed_def decoded_ok_def)
  with Screening assms(1) show ?thesis by (auto split: option.splits list.splits)
next
  case (Claiming req result)
  with assms(1,3) show ?thesis by (auto dest: check_nonce_replay_error split: prod.splits option.splits)
qed (use assms(1,3,4) in \<open>auto simp del: remote_revocation.simps split: prod.splits option.splits list.splits sum.splits\<close>)

text \<open>One step leaves what is on disk and extends what the request has stored.\<close>

lemma phase_step_disk:
  assumes S: "S = main_server P conf plan cfg check" and "whole_files P" and "inj_on (sha256 (pf_prims P)) A" and "receipts_of S [r] \<subseteq> A"
    and "phase_ok S (\<lambda>w. True) UNIV r p" and "stored_ok S (kept P w) r p" and "on_disk (sh_store (snd w))"
    and "phase_step S oc r p (w, n) = (p', w', n')"
  shows "on_disk (sh_store (snd w')) \<and> (\<forall>x \<in> A. kept P w x \<longrightarrow> kept P w' x) \<and> stored_ok S (kept P w') r p'"
proof -
  consider (store) req rs todo ws where "p = Storing req rs todo ws"
    | (stamp) req rs todo ws ts where "p = Stamping req rs todo ws ts"
    | (other) "\<And>req rs todo ws ts. p \<noteq> Storing req rs todo ws \<and> p \<noteq> Stamping req rs todo ws ts"
    by (cases p) auto
  then show ?thesis
  proof cases
    case other
    have "sh_store (snd w') = sh_store (snd w)" by (rule phase_step_store [OF S assms(8) other])
    then have "kept P w' = kept P w" by (simp add: kept_def fun_eq_iff)
    with phase_step_stored [OF assms(8,5,6) other] assms(7) \<open>sh_store (snd w') = sh_store (snd w)\<close> show ?thesis by simp
  next
    case store
    obtain jwts where dec: "decoded_request S r = Inr req" and jwts: "Receipts (vr_bundle req) = jwts @ todo"
        and old: "ws = [] \<longrightarrow> (\<forall>x \<in> set jwts. kept P w x)"
      using assms(6) store by auto
    have sub: "set (Receipts (vr_bundle req)) \<subseteq> A" using assms(4) dec by (auto simp: receipts_of_def)
    show ?thesis
    proof (cases todo)
      case Nil
      with store assms(8) jwts old dec assms(7) show ?thesis by (auto simp: S)
    next
      case (Cons jwt todo')
      obtain ws1 w1 where put: "store_receipts (pf_prims P) (\<lambda>h jwt. on_store (store_put P h jwt)) [jwt] w = (ws1, w1)"
        by (cases "store_receipts (pf_prims P) (\<lambda>h jwt. on_store (store_put P h jwt)) [jwt] w")
      have p': "p' = Storing req rs todo' (ws @ ws1)" "w' = w1"
        using store Cons assms(8) put by (simp_all add: S del: store_receipts.simps)
      have "jwt \<in> A" using sub jwts Cons by auto
      from put_keeps [OF assms(2,3) this _ _ put] have keep: "\<forall>x \<in> A. kept P w x \<longrightarrow> kept P w1 x" by blast
      moreover have "on_disk (sh_store (snd w1))" using stays_on_disk(1) [of "pf_prims P" P "[jwt]" w] put assms(7) by simp
      moreover have "kept P w1 jwt" if "ws1 = []" using put_kept [OF put [unfolded that] assms(7)] .
      ultimately show ?thesis using p' dec jwts Cons old sub by (auto intro!: exI [of _ "jwts @ [jwt]"])
    qed
  next
    case stamp
    show ?thesis
    proof (cases todo)
      case Nil
      with stamp assms(6-8) show ?thesis by (auto simp: S)
    next
      case (Cons jwt todo')
      let ?get = "\<lambda>h. on_store (store_get P h)" and ?vts = "VerifyTimestamp (sv_deps S)"
      obtain ts1 w1 where get: "check_timestamps (pf_prims P) ?get ?vts (length ts) [jwt] w = (ts1, w1)"
        by (cases "check_timestamps (pf_prims P) ?get ?vts (length ts) [jwt] w")
      have p': "p' = Stamping req rs todo' ws (ts @ ts1)" "w' = w1"
        using stamp Cons assms(8) get by (simp_all add: S del: check_timestamps.simps)
      have "on_disk (sh_store (snd w1))"
        using stays_on_disk(2) [of "pf_prims P" P ?vts "length ts" "[jwt]" w] get assms(7) by simp
      with p' get_keeps [OF _ get] assms(6) stamp show ?thesis by auto
    qed
  qed
qed

definition disk_ok ::
  "(('c, 'd, 'n, 'm, 'e) world, 's, 'f, 'b, 'l) server \<Rightarrow> ('c, 'd, 'n, 'm, 'e, 'b, 'l) platform \<Rightarrow>
   (('c, 'd, 'n, 'm, 'e) world, 's) traffic \<Rightarrow> bool" where
  "disk_ok S P st =
     (on_disk (sh_store (snd (tr_world st))) \<and>
      (\<forall>i < length (tr_calls st). stored_ok S (kept P (tr_world st)) (fst (tr_calls st ! i)) (snd (tr_calls st ! i))))"

lemma traffic_step_disk:
  assumes "S = main_server P conf plan cfg check" and "whole_files P"
    and "inj_on (sha256 (pf_prims P)) (receipts_of S (map fst (tr_calls st)))"
    and "traffic_ok S (\<lambda>w. True) UNIV st" and "disk_ok S P st"
  shows "disk_ok S P (traffic_step S ev st)"
proof (cases rule: traffic_step_cases [of S ev st])
  case (move r p p' w' n')
  let ?A = "receipts_of S (map fst (tr_calls st))"
  have sub: "receipts_of S [fst (tr_calls st ! i)] \<subseteq> ?A" if "i < length (tr_calls st)" for i
    using nth_mem [OF that] by (force simp: receipts_of_def)
  have ok: "phase_ok S (\<lambda>w. True) UNIV r p" "stored_ok S (kept P (tr_world st)) r p" "on_disk (sh_store (snd (tr_world st)))"
    using assms(4,5) move(1,2) by (auto simp: traffic_ok_def disk_ok_def)
  have "receipts_of S [r] \<subseteq> ?A" using sub [OF move(1)] move(2) by simp
  from phase_step_disk [OF assms(1-3) this ok move(3)] have step: "on_disk (sh_store (snd w'))"
      "\<forall>x \<in> ?A. kept P (tr_world st) x \<longrightarrow> kept P w' x" "stored_ok S (kept P w') r p'" by blast+
  have "stored_ok S (kept P w') (fst (tr_calls st ! i)) (snd (tr_calls st ! i))" if "i < length (tr_calls st)" for i
  proof (rule stored_ok_mono)
    show "stored_ok S (kept P (tr_world st)) (fst (tr_calls st ! i)) (snd (tr_calls st ! i))"
      using assms(5) that by (simp add: disk_ok_def)
  qed (use step(2) sub [OF that] in blast)
  with step show ?thesis by (auto simp: disk_ok_def move(1,4) nth_list_update)
qed (use assms(5) in simp)

lemma traffic_run_disk:
  assumes "S = main_server P conf plan cfg check" and "whole_files P"
  shows "inj_on (sha256 (pf_prims P)) (receipts_of S (map fst (tr_calls st))) \<Longrightarrow> traffic_ok S (\<lambda>w. True) UNIV st \<Longrightarrow>
    disk_ok S P st \<Longrightarrow> disk_ok S P (traffic_run S evs st)"
proof (induction evs arbitrary: st)
  case (Cons ev evs)
  have "map fst (tr_calls (traffic_step S ev st)) = map fst (tr_calls st)"
    by (rule nth_equalityI) (simp_all add: traffic_step_calls)
  with Cons traffic_step_disk [OF assms Cons.prems] traffic_step_ok [OF preserve_all Cons.prems(2), of ev] show ?case by simp
qed simp

text \<open>
  C17. What the verifier accepts, it can show. The program was started with a receipt directory, with
  or without a timestamping authority, and no write of a file stops in the middle (directories and
  files may fail to be made or opened). Then at every
  moment of every interleaving, every receipt of every request that has been answered as valid
  without a store warning stands on disk, under the file of its own chain hash and byte for byte as
  it was presented: no other request overwrites or removes it, not even by the expiry of entries.
  The only further assumption is that SHA-256 does not collide on the receipts of the requests.
\<close>

theorem accepted_receipts_stay_on_disk:
  assumes "boot P conf b = Inr (plan, cfg, w)" and "StoreDir conf \<noteq> ''''" and "whole_files P"
    and "inj_on (sha256 (pf_prims P)) (receipts_of (main_server P conf plan cfg check) rs)"
    and "tr_calls (traffic_run (main_server P conf plan cfg check) evs (arrivals w n rs)) ! i =
         (r, Answered (Some (200, VerifyBody res)))" and "i < length rs" and "Valid res" and "StoreWarnings res = []"
    and "decoded_request (main_server P conf plan cfg check) r = Inr req" and "jwt \<in> set (Receipts (vr_bundle req))"
  shows "disk_view (sh_store (snd (tr_world (traffic_run (main_server P conf plan cfg check) evs (arrivals w n rs)))))
           (receipt_slot P jwt) = Some jwt"
proof -
  let ?S = "main_server P conf plan cfg check"
  have "on_disk (sh_store (snd w))"
    using assms(1,2) by (auto simp: boot_def boot_store_def choose_store_def Let_def map_sum_def split: sum.splits prod.splits if_splits)
  then have start: "disk_ok ?S P (arrivals w n rs)" by (simp add: disk_ok_def arrivals_def)
  have "disk_ok ?S P (traffic_run ?S evs (arrivals w n rs))"
    by (rule traffic_run_disk [OF refl assms(3) _ arrivals_ok start])
      (use assms(4) in \<open>simp_all add: arrivals_def comp_def\<close>)
  moreover have "length (tr_calls (traffic_run ?S evs (arrivals w n rs))) = length rs"
    by (simp add: traffic_run_calls) (simp add: arrivals_def)
  ultimately have "stored_ok ?S (kept P (tr_world (traffic_run ?S evs (arrivals w n rs)))) r (Answered (Some (200, VerifyBody res)))"
    using assms(5,6) by (metis disk_ok_def fst_conv snd_conv)
  with assms(7-10) show ?thesis by (auto simp: kept_def)
qed

end
