(* ===== verification/DRS_Concurrent_Demo.thy ===== *)
theory DRS_Concurrent_Demo
  imports DRS_Concurrent
begin

text \<open>
  The theorems on overlapping requests at work: concrete interleavings on the server of \<open>DRS_Demo\<close>
  and on the resolver example of \<open>DRS_Trust\<close>.
\<close>

section \<open>The phases of the demonstration request\<close>

abbreviation demo_verify :: verify_request where
  "demo_verify \<equiv> \<lparr>vr_bundle = demo_bundle, vr_include_timestamps = False, vr_body = ''''\<rparr>"

lemma demo_first_phase:
  "first_phase (demo_server d rv) (demo_request p) = Resolving demo_verify [demo_root, demo_leaf] demo_invocation"
  by (simp add: first_phase_def demo_server_def demo_block_a demo_decoded demo_block_b)

lemma demo_resolving:
  assumes "Resolve d = demo_resolve"
  shows "phase_step (demo_server d rv) (demo_occasion now t) r (Resolving req [demo_root, demo_leaf] demo_invocation) (w, n) =
    (Checking req [demo_root, demo_leaf] demo_invocation demo_keys, w, n)"
  by (simp add: assms demo_server_def demo_occasion_def demo_resolved)

lemma demo_checking:
  assumes "290 \<le> sint now" "sint now \<le> 350" "ServerIdentity d = ''srv''" "MaxInvocationAge d = 60 * second"
  shows "phase_step (demo_server d rv) (demo_occasion now t) r
      (Checking demo_verify [demo_root, demo_leaf] demo_invocation demo_keys) s = (Revoking demo_verify [demo_root, demo_leaf] [demo_root, demo_leaf], s)"
  by (simp add: demo_server_def demo_occasion_def demo_cde assms)

lemma demo_revoking:
  "phase_step (demo_server demo_deps rv) oc r (Revoking req rs todo) (w, n) = (Screening req rs rs, w, n)"
  "phase_step (demo_server demo_deps rv) oc r (Screening req rs todo) (w, n) =
    (Storing req rs (Receipts (vr_bundle req)) [], w, n)"
  by (simp_all add: demo_server_def demo_deps_def)

lemma demo_finishing:
  "phase_step (demo_server demo_deps rv) oc r (Storing demo_verify rs todo ws) (w, n) = (Stamping demo_verify rs [] ws [], w, n)"
  "phase_step (demo_server demo_deps rv) oc r (Stamping demo_verify [demo_root, demo_leaf] todo [] []) (w, n) =
    (Claiming demo_verify demo_result, w, n)"
  by (simp_all add: demo_server_def demo_deps_def finished_def demo_result_def valid_result_def)

lemma demo_claiming:
  assumes "nonce_check t ''inv:1'' n = (None, n')"
  shows "phase_step (demo_server d rv) (demo_occasion now t) r (Claiming demo_verify res) (w, n) =
    (Answered (Some (200, VerifyBody res)), w, n')"
proof -
  have "check_nonce_replay demo_json (Invocation demo_bundle) (Some (nonce_check t)) n = (None, n')"
    using assms by (simp add: check_nonce_replay_None demo_jti)
  then show ?thesis by (simp add: demo_server_def demo_occasion_def)
qed

definition demo_nonces :: "(string \<times> int) list \<Rightarrow> nonce_store" where
  "demo_nonces xs = (nonce_new 5 (60 * second))\<lparr>seen := xs\<rparr>"

lemma demo_nonces_new: "nonce_new 5 (60 * second) = demo_nonces []"
  by (simp add: demo_nonces_def nonce_new_def)

lemma demo_claims:
  "nonce_check 290 ''inv:1'' (demo_nonces []) = (None, demo_nonces [(''inv:1'', 290)])"
  "nonce_check 350 ''inv:1'' (demo_nonces [(''inv:1'', 290)]) = (None, demo_nonces [(''inv:1'', 350)])"
  by (simp_all add: nonce_check_def nonce_insert_def nonce_evict_def nonce_new_def Let_def demo_nonces_def)

abbreviation demo_verify_server ::
  "(unit, nonce_store, write_behaviour, nat \<times> (string \<times> nat) list, unit) server" where
  "demo_verify_server \<equiv> demo_server demo_deps (\<lambda>_ _ w. (None, w))"

lemma demo_steps:
  "phase_step demo_verify_server oc (demo_request ''/verify'') Arrived s =
    (Resolving demo_verify [demo_root, demo_leaf] demo_invocation, s)"
  by (simp add: demo_first_phase)

lemmas demo_phases = demo_steps demo_resolving demo_checking demo_revoking demo_finishing demo_claiming

lemma demo_deps_simps:
  "Resolve demo_deps = demo_resolve" "ServerIdentity demo_deps = ''srv''" "MaxInvocationAge demo_deps = 60 * second"
  by (simp_all add: demo_deps_def)

lemmas demo_moves = traffic_step_def crashed_def arrivals_def demo_phases demo_deps_simps demo_claims

section \<open>Witnesses\<close>

theorem phases_alone_witness:
  "traffic_run demo_verify_server (replicate (8 + 4 * maxChainDepth) (0, demo_occasion 290 290))
     (arrivals () (demo_nonces []) [demo_request ''/verify'']) =
   \<lparr>tr_world = (), tr_nonces = demo_nonces [(''inv:1'', 290)],
    tr_calls = [(demo_request ''/verify'', Answered (Some (200, VerifyBody demo_result)))]\<rparr>"
proof (rule phases_alone)
  have "check_nonce_replay demo_json (Invocation demo_bundle) (Some (nonce_check 290)) (demo_nonces []) =
      (None, demo_nonces [(''inv:1'', 290)])"
    by (simp add: check_nonce_replay_None demo_jti demo_claims)
  then show "verify_handler (sv_prims demo_verify_server) (sv_json demo_verify_server) (sv_verify_json demo_verify_server)
      (oc_sched (demo_occasion 290 290)) (oc_now (demo_occasion 290 290)) (sv_deps demo_verify_server)
      (Some (sv_check demo_verify_server (oc_nonce (demo_occasion 290 290)))) (sv_max_body demo_verify_server)
      (demo_request ''/verify'') ((), demo_nonces []) =
    (Some (200, VerifyBody demo_result), (), demo_nonces [(''inv:1'', 290)])"
    by (simp add: verify_handler_def demo_server_def demo_occasion_def demo_verifies)
      (simp add: demo_result_def)
qed simp

text \<open>Two requests with the same bundle, step by step in turn up to the first claim, at 290; the second claims at 350.\<close>

definition demo_before :: "(nat \<times> write_behaviour occasion) list" where
  "demo_before = concat (replicate 7 [(0, demo_occasion 290 290), (1, demo_occasion 300 290)])"

abbreviation demo_requests :: "request list" where
  "demo_requests \<equiv> [demo_request ''/verify'', demo_request ''/verify'']"

lemma demo_before_run:
  "traffic_run demo_verify_server demo_before (arrivals () (demo_nonces []) demo_requests) =
   \<lparr>tr_world = (), tr_nonces = demo_nonces [],
    tr_calls = [(demo_request ''/verify'', Claiming demo_verify demo_result),
                (demo_request ''/verify'', Claiming demo_verify demo_result)]\<rparr>"
  by (simp add: demo_before_def demo_moves numeral_eq_Suc del: phase_step.simps)

lemma demo_first_claim:
  "traffic_step demo_verify_server (0, demo_occasion 290 290)
     (traffic_run demo_verify_server demo_before (arrivals () (demo_nonces []) demo_requests)) =
   \<lparr>tr_world = (), tr_nonces = demo_nonces [(''inv:1'', 290)],
    tr_calls = [(demo_request ''/verify'', Answered (Some (200, VerifyBody demo_result))),
                (demo_request ''/verify'', Claiming demo_verify demo_result)]\<rparr>"
  by (simp add: demo_before_run) (simp add: demo_moves del: phase_step.simps)

lemma demo_second_claim:
  "traffic_run demo_verify_server (demo_before @ [(0, demo_occasion 290 290), (1, demo_occasion 300 350)])
     (arrivals () (demo_nonces []) demo_requests) =
   \<lparr>tr_world = (), tr_nonces = demo_nonces [(''inv:1'', 350)],
    tr_calls = [(demo_request ''/verify'', Answered (Some (200, VerifyBody demo_result))),
                (demo_request ''/verify'', Answered (Some (200, VerifyBody demo_result)))]\<rparr>"
  by (simp add: demo_first_claim) (simp add: demo_moves del: phase_step.simps)

text \<open>The schedule goes on with idle steps, until the second request has had enough of them.\<close>

definition demo_schedule :: "(nat \<times> write_behaviour occasion) list" where
  "demo_schedule = (demo_before @ [(0, demo_occasion 290 290), (1, demo_occasion 300 350)]) @
     replicate (8 + 4 * maxChainDepth) (1, demo_occasion 300 350)"

lemma demo_schedule_run:
  "traffic_run demo_verify_server demo_schedule (arrivals () (demo_nonces []) demo_requests) =
   \<lparr>tr_world = (), tr_nonces = demo_nonces [(''inv:1'', 350)],
    tr_calls = [(demo_request ''/verify'', Answered (Some (200, VerifyBody demo_result))),
                (demo_request ''/verify'', Answered (Some (200, VerifyBody demo_result)))]\<rparr>"
  unfolding demo_schedule_def traffic_run_simps(3) [of _ "demo_before @ _"] demo_second_claim
  by (rule answered_stay) simp

theorem interleaved_request_answered_witness:
  "\<exists>resp. tr_calls (traffic_run demo_verify_server demo_schedule (arrivals () (demo_nonces []) demo_requests)) ! 1 =
     (demo_requests ! 1, Answered (Some resp))"
proof (rule interleaved_request_answered)
  show "8 + 4 * maxChainDepth \<le> length (filter (\<lambda>ev. fst ev = 1) demo_schedule)"
    by (simp add: demo_schedule_def)
  show "\<not> crashed (traffic_run demo_verify_server demo_schedule (arrivals () (demo_nonces []) demo_requests))"
    unfolding demo_schedule_run by (simp add: crashed_def)
qed simp

theorem interleaved_replay_bounded_witness:
  "answers_valid demo_verify_server (0, demo_occasion 290 290)
     (traffic_run demo_verify_server demo_before (arrivals () (demo_nonces []) demo_requests)) (demo_request ''/verify'') \<and>
   290 + duration_secs (60 * second) \<le> (350 :: int)"
proof -
  let ?ev1 = "(0 :: nat, demo_occasion 290 290)" and ?ev2 = "(1 :: nat, demo_occasion 300 350)"
  have v: "Valid demo_result" by (simp add: demo_result_def)
  have first: "answers_valid demo_verify_server ?ev1
     (traffic_run demo_verify_server demo_before (arrivals () (nonce_new 5 (60 * second)) demo_requests)) (demo_request ''/verify'')"
    by (simp add: answers_valid_def demo_nonces_new demo_first_claim v) (simp add: demo_before_run)
  have second: "answers_valid demo_verify_server ?ev2
     (traffic_run demo_verify_server (demo_before @ ?ev1 # []) (arrivals () (nonce_new 5 (60 * second)) demo_requests))
     (demo_request ''/verify'')"
    using demo_second_claim by (simp add: answers_valid_def demo_nonces_new v demo_first_claim)
  have "oc_nonce (snd ?ev1) + duration_secs (60 * second) \<le> oc_nonce (snd ?ev2)"
    by (rule interleaved_replay_bounded [OF _ first second])
      (simp_all add: demo_server_def demo_occasion_def)
  with first show ?thesis by (simp add: demo_occasion_def demo_nonces_new)
qed

theorem interleaved_nonce_bounded_witness:
  "tr_nonces (traffic_run demo_verify_server (demo_before @ [(0, demo_occasion 290 290), (1, demo_occasion 300 350)])
     (arrivals () (nonce_new 5 (60 * second)) demo_requests)) = demo_nonces [(''inv:1'', 350)] \<and>
   int (length (seen (demo_nonces [(''inv:1'', 350)]))) \<le> max 0 5"
proof -
  have "tr_nonces (traffic_run demo_verify_server (demo_before @ [(0, demo_occasion 290 290), (1, demo_occasion 300 350)])
      (arrivals () (nonce_new 5 (60 * second)) demo_requests)) = demo_nonces [(''inv:1'', 350)]"
    unfolding demo_nonces_new demo_second_claim by simp
  with interleaved_nonce_bounded [OF _ this] show ?thesis by (simp add: demo_server_def)
qed

end
