(* ===== verification/DRS_Main_Demo.thy ===== *)
theory DRS_Main_Demo
  imports DRS_Disk DRS_Concurrent_Demo
begin

text \<open>
  The assembled program at work: it is started on a platform of concrete functions, verifies the
  bundle of \<open>DRS_Trust\<close>, is told to revoke it while a verification is under way, and stores receipts.
\<close>

section \<open>The platform\<close>

definition demo_pki :: pki where
  "demo_pki =
     \<lparr>unmarshal_resp = (\<lambda>_. None), unmarshal_content_info = (\<lambda>_. None), unmarshal_signed_data = (\<lambda>_. None),
      unmarshal_octets = (\<lambda>_. None), unmarshal_tst = (\<lambda>_. None), unmarshal_raw = (\<lambda>_. None),
      unmarshal_attr = (\<lambda>_. None), unmarshal_oid = (\<lambda>_. None), unmarshal_issuer_serial = (\<lambda>_. None),
      parse_certificate = (\<lambda>_. None), digest256 = id, digest384 = id, digest512 = id,
      check_signature = (\<lambda>_ _ _ _. None), verify_certificate = (\<lambda>_ _ _ _. None)\<rparr>"

definition demo_platform ::
  "(nat \<times> (string \<times> cache_entry) list, nat \<times> (string \<times> nat) list, int, nat \<times> (string \<times> string) list, int,
    nat \<times> (string \<times> nat) list, unit) platform" where
  "demo_platform =
     \<lparr>pf_net = demo_net, pf_keys = list_lru, pf_circuits = list_lru, pf_receipts = list_lru,
      pf_status = demo_status_env, pf_context = (\<lambda>t. (None, t)), pf_os = (\<lambda>t. (no_faults t, t)),
      pf_marshal = (\<lambda>_. Inr []), pf_new_request = (\<lambda>_. None), pf_send = (\<lambda>_ t. (Inl ''connection refused'', t)),
      pf_pki = demo_pki, pf_roots = [], pf_prims = trust_prims trust_did, pf_json = demo_json,
      pf_verify_json = \<lparr>decode_verify = (\<lambda>_. Inr \<lparr>vr_bundle = trust_bundle, vr_include_timestamps = False, vr_body = ''''\<rparr>),
                        json_value = demo_parse\<rparr>,
      pf_admin_decode = (\<lambda>_. Inr 7), pf_limiter = \<lparr>new_limiter = (\<lambda>_ _. ()), limiter_allow = (\<lambda>_ _. (True, ()))\<rparr>,
      pf_buckets = list_lru, pf_oor = 0, pf_parse_ip = (\<lambda>_. None)\<rparr>"

definition demo_conf :: config where
  "demo_conf =
     \<lparr>ListenAddr = '':8080'', TLSCertFile = '''', TLSKeyFile = '''', DidCacheSize = 10000,
      DidCacheTTLSecs = 3600, StatusListCacheTTLSecs = 300, StatusListBaseURL = '''',
      MaxBodyBytes = 1048576, LogLevel = ''info'', LogFormat = ''text'', AdminToken = ''t'', TSAURL = '''',
      StoreDir = '''', cfg_ServerIdentity = ''srv'', NonceStoreMaxEntries = 5, NonceStoreTTLSecs = 60,
      TSARootCertPEM = '''', RateLimitPerIP = Finite 100, RateLimitGlobal = Finite 1000, TrustProxy = False,
      CircuitBreakerThreshold = 5, CircuitBreakerCooldownSecs = 60, RevocationStorePath = '''',
      NonceStoreBackend = ''memory'', RedisURL = '''', MetricsAddr = ''''\<rparr>"

definition demo_boot :: "(int, int) boot_env" where
  "demo_boot =
     \<lparr>bt_net = 0, bt_env = 0, bt_mkdir = None, bt_log = Inr None, bt_append = None, bt_os = no_faults 0,
      bt_disk = Map.empty, bt_no_certificates = False, bt_redis = None\<rparr>"

lemma demo_boots:
  obtains plan cfg w where "boot demo_platform demo_conf demo_boot = Inr (plan, cfg, w)"
    "pl_status plan = None" "pl_identity plan = ''srv''" "pl_max_age plan = 60 * second"
    "fst w = MemRev new_local_revocation_store"
proof -
  have "\<exists>plan cfg w. boot demo_platform demo_conf demo_boot = Inr (plan, cfg, w) \<and>
      pl_status plan = None \<and> pl_identity plan = ''srv'' \<and> pl_max_age plan = 60 * second \<and>
      fst w = MemRev new_local_revocation_store"
    by (simp add: boot_def demo_platform_def demo_conf_def demo_boot_def boot_resolver_def boot_revocation_def
        boot_store_def choose_store_def boot_status_def new_with_circuit_breaker_def new_resolver_def list_lru_def
        circuitStateCacheSize_def new_memory_store_def defaultMemoryCapacity_def startup_def startup_error_def
        guard_err_def Let_def seconds_duration_def second_def)
  with that show thesis by blast
qed

section \<open>An accepted bundle\<close>

abbreviation main_on ::
  "config \<Rightarrow> server_plan \<Rightarrow> resolver_config \<Rightarrow>
   ((nat \<times> (string \<times> cache_entry) list, nat \<times> (string \<times> nat) list, int, nat \<times> (string \<times> string) list, int) world,
    nonce_store, write_behaviour, nat \<times> (string \<times> nat) list, unit) server" where
  "main_on conf plan cfg \<equiv> main_server demo_platform conf plan cfg nonce_check"

abbreviation "demo_main \<equiv> main_on demo_conf"

abbreviation trust_request :: verify_request where
  "trust_request \<equiv> \<lparr>vr_bundle = trust_bundle, vr_include_timestamps = False, vr_body = ''''\<rparr>"

lemma demo_main_simps [simp]:
  "pf_net demo_platform = demo_net" "pf_keys demo_platform = list_lru" "pf_circuits demo_platform = list_lru"
  "pf_prims demo_platform = trust_prims trust_did"
  "decode_verify (sv_verify_json (main_on conf plan cfg)) body = Inr trust_request"
  "request_deps (main_on conf plan cfg) trust_request = main_deps demo_platform plan cfg"
  by (simp_all add: demo_platform_def main_server_def request_deps_def main_deps_def)

lemma trust_jti: "decode_invocation_jti demo_json (Invocation trust_bundle) = Some ''inv:1''"
  using demo_jti by (simp add: trust_bundle_def)

lemma demo_main_view:
  assumes "boot demo_platform conf b = Inr (plan, cfg, w)"
  shows "resolver_view demo_net list_lru list_lru cfg (\<lambda>w. sh_resolver (snd w)) (Resolve (main_deps demo_platform plan' cfg))"
    and "cache_sound demo_net list_look (sh_resolver (snd w))"
  using main_resolve_view [of demo_platform cfg] boot_resolver_reach [OF assms]
    reach_cache_sound [OF list_lru_ok, of "\<lambda>_ _. False" demo_net list_lru cfg]
  by (simp_all add: main_deps_def)

lemma demo_main_resolved:
  assumes "boot demo_platform conf b = Inr (plan, cfg, w)"
  shows "\<exists>w'. resolve_issuers_parallel id (Resolve (main_deps demo_platform plan' cfg))
      (issuer_dids [trust_root trust_did] (trust_invocation trust_did)) w = (Some (Inr [trust_did \<mapsto> replicate 32 0]), w') \<and>
    fst w' = fst w \<and> sh_store (snd w') = sh_store (snd w)"
proof -
  let ?res = "Resolve (main_deps demo_platform plan' cfg)"
  have "fst (snd (resolve_issuers_parallel id ?res dids w)) = fst w" for dids
    by (rule resolve_frame) (simp add: main_deps_def main_resolve_def split_beta Let_def)
  moreover have "sh_store (snd (snd (resolve_issuers_parallel id ?res dids w))) = sh_store (snd w)" for dids
    by (rule resolve_frame) (simp add: main_deps_def main_resolve_def split_beta Let_def)
  ultimately show ?thesis
    using trust_resolved [OF list_lru_ok demo_main_view [OF assms], of plan'] by (metis snd_conv)
qed

lemma local_revocation_new: "local_revocation (\<lambda>i. local_is_revoked i new_local_revocation_store) rs = None"
  by (cases "local_revocation (\<lambda>i. local_is_revoked i new_local_revocation_store) rs")
    (simp_all add: local_revocation_Some new_local_revocation_store_def local_is_revoked_def)

lemma demo_main_unrevoked:
  assumes "fst w = MemRev new_local_revocation_store" and "pl_status plan = None"
  shows "block_f (main_deps demo_platform plan cfg) rs w = (None, w)"
  by (simp add: block_f_def main_deps_def assms local_revocation_new)

lemma demo_main_claim:
  assumes "chain (trust_prims trust_did) id (main_deps demo_platform plan cfg) 300 trust_bundle w = (Some res, w')" and "Valid res"
  shows "\<exists>n'. traffic_run (main_on conf plan cfg) (replicate (8 + 4 * maxChainDepth) (0, demo_occasion 300 300))
      (arrivals w (demo_nonces []) [demo_request ''/verify'']) =
    \<lparr>tr_world = w', tr_nonces = n', tr_calls = [(demo_request ''/verify'', Answered (Some (200, VerifyBody res)))]\<rparr>"
proof -
  obtain n' where "nonce_check 300 ''inv:1'' (demo_nonces []) = (None, n')"
    by (simp add: nonce_check_def nonce_insert_def nonce_evict_def nonce_new_def Let_def demo_nonces_def)
  then have "check_nonce_replay demo_json (Invocation trust_bundle) (Some (nonce_check 300)) (demo_nonces []) = (None, n')"
    by (simp add: check_nonce_replay_None trust_jti)
  moreover have "sv_json (main_on conf plan cfg) = demo_json" by (simp add: main_server_def demo_platform_def)
  ultimately have "claim_result (main_on conf plan cfg) (demo_occasion 300 300) trust_request (Some res, w') (demo_nonces []) =
      (Some (200, VerifyBody res), (w', n'))"
    by (simp add: claim_result_def assms(2)) (simp add: demo_occasion_def)
  with assms(1) first_phase_rest [of "demo_request ''/verify''" "main_on conf plan cfg" trust_request "demo_occasion 300 300" w "demo_nonces []"]
  have "run_out (main_on conf plan cfg) (demo_occasion 300 300) (demo_request ''/verify'') Arrived (w, demo_nonces []) =
      (Answered (Some (200, VerifyBody res)), w', n')"
    by (simp add: run_out_step) (simp add: demo_occasion_def)
  from run_out_traffic [OF this] show ?thesis by blast
qed

lemma demo_main_accepts:
  assumes "boot demo_platform conf b = Inr (plan, cfg, w)"
    and "pl_status plan = None" "pl_identity plan = ''srv''" "pl_max_age plan = 60 * second"
    and "fst w = MemRev new_local_revocation_store"
  shows "\<exists>res w'. chain (trust_prims trust_did) id (main_deps demo_platform plan cfg) 300 trust_bundle w = (Some res, w') \<and> Valid res"
proof -
  let ?d = "main_deps demo_platform plan cfg"
  obtain w1 where "resolve_issuers_parallel id (Resolve ?d) (issuer_dids [trust_root trust_did] (trust_invocation trust_did)) w =
      (Some (Inr [trust_did \<mapsto> replicate 32 0]), w1)" "fst w1 = fst w"
    using demo_main_resolved [OF assms(1)] by blast
  with demo_main_unrevoked [of w1 plan cfg "[trust_root trust_did]"] assms(2,5)
  have "accepts (trust_prims trust_did) id ?d 300 trust_bundle w"
    by (intro trust_accepts [OF list_lru_ok demo_main_view [OF assms(1)]]) (simp_all add: main_deps_def assms(3,4))
  then show ?thesis
    unfolding accepts_def by (cases "chain (trust_prims trust_did) id ?d 300 trust_bundle w") (auto split: option.splits)
qed

theorem program_acceptance_sound_witness:
  "\<exists>plan cfg w res. boot demo_platform demo_conf demo_boot = Inr (plan, cfg, w) \<and>
     tr_calls (traffic_run (demo_main plan cfg) (replicate (8 + 4 * maxChainDepth) (0, demo_occasion 300 300))
       (arrivals w (demo_nonces []) [demo_request ''/verify''])) = [(demo_request ''/verify'', Answered (Some (200, VerifyBody res)))] \<and>
     authentic (trust_prims trust_did) trust_bundle [trust_root trust_did]"
proof -
  obtain plan cfg w where start: "boot demo_platform demo_conf demo_boot = Inr (plan, cfg, w)"
      "pl_status plan = None" "pl_identity plan = ''srv''" "pl_max_age plan = 60 * second"
      "fst w = MemRev new_local_revocation_store"
    by (rule demo_boots)
  obtain res where run: "Valid res"
      "tr_calls (traffic_run (demo_main plan cfg) (replicate (8 + 4 * maxChainDepth) (0, demo_occasion 300 300))
         (arrivals w (demo_nonces []) [demo_request ''/verify''])) =
       [(demo_request ''/verify'', Answered (Some (200, VerifyBody res)))]"
    using demo_main_accepts [OF start] demo_main_claim [of plan cfg w _ _ demo_conf] by (metis traffic.select_convs(3))
  have lru: "lru_ok (pf_keys demo_platform) list_look" by (simp add: list_lru_ok)
  have "authentic (trust_prims trust_did) trust_bundle [trust_root trust_did]"
    using program_acceptance_sound [OF lru start(1), where i = 0 and rs = "[demo_request ''/verify'']" and check = nonce_check
        and evs = "replicate (8 + 4 * maxChainDepth) (0, demo_occasion 300 300)" and n = "demo_nonces []", OF _ _ run(1)] run(2)
    by (simp add: trust_decoded del: split_paired_Ex)
  with start(1) run(2) show ?thesis by blast
qed

section \<open>A revocation that overtakes a verification\<close>

text \<open>The verification arrives and resolves, then the revocation is confirmed.\<close>

definition demo_race :: "(nat \<times> write_behaviour occasion) list" where
  "demo_race = [(1, demo_occasion 300 300), (1, demo_occasion 300 300), (0, demo_occasion 300 300)]"

abbreviation demo_rivals :: "request list" where
  "demo_rivals \<equiv> [demo_request ''/admin/revoke'', demo_request ''/verify'']"

lemma demo_main_first:
  "first_phase (demo_main plan cfg) (demo_request p) = Resolving trust_request [trust_root trust_did] (trust_invocation trust_did)"
  by (simp add: first_phase_def trust_block_a trust_decoded trust_block_b)

lemma demo_main_admin:
  assumes "fst w = MemRev new_local_revocation_store"
  shows "\<exists>w'. local_rev_is_revoked 7 (fst w') \<and>
    other_endpoint (demo_main plan cfg) (demo_occasion 300 300) (demo_request ''/admin/revoke'') (w, n) =
      (Some (200, RevokedIndex 7), w', n)"
proof -
  obtain s where "w = (MemRev new_local_revocation_store, s)" using assms by (cases w) simp
  then show ?thesis
    by (simp add: other_endpoint_def admin_handler_def admin_revoke_handler_def demo_request_headers on_first_def local_revoke_def
        new_local_revocation_store_def Let_def local_is_revoked_def)
      (simp add: main_server_def demo_platform_def demo_conf_def on_first_def local_revoke_def local_is_revoked_def)
qed

lemma demo_main_revoked:
  assumes "local_rev_is_revoked 7 (fst w)" and "pl_status plan = None"
  shows "phase_step (demo_main plan cfg) oc r (Revoking req rs todo) (w, n) = (Screening req rs rs, w, n)"
    and "phase_step (demo_main plan cfg) oc r (Screening req rs [trust_root trust_did]) (w, n) = (rejection REVOKED, w, n)"
  using assms demo_index by (simp_all add: main_deps_def local_revocation_def guard_err_def trust_root_def)

lemma demo_race_run:
  assumes "boot demo_platform demo_conf demo_boot = Inr (plan, cfg, w)"
    and "pl_status plan = None" "pl_identity plan = ''srv''" "pl_max_age plan = 60 * second"
    and "fst w = MemRev new_local_revocation_store"
  shows "\<exists>w'. local_rev_is_revoked 7 (fst w') \<and>
    traffic_run (demo_main plan cfg) demo_race (arrivals w n demo_rivals) =
    \<lparr>tr_world = w', tr_nonces = n,
     tr_calls = [(demo_request ''/admin/revoke'', Answered (Some (200, RevokedIndex 7))),
                 (demo_request ''/verify'', Checking trust_request [trust_root trust_did] (trust_invocation trust_did)
                    [trust_did \<mapsto> replicate 32 0])]\<rparr>"
proof -
  let ?d = "main_deps demo_platform plan cfg"
  obtain w1 where
      res: "resolve_issuers_parallel id (Resolve ?d) (issuer_dids [trust_root trust_did] (trust_invocation trust_did)) w =
        (Some (Inr [trust_did \<mapsto> replicate 32 0]), w1)" and "fst w1 = fst w"
    using demo_main_resolved [OF assms(1)] by blast
  with assms(5) have "fst w1 = MemRev new_local_revocation_store" by simp
  from demo_main_admin [OF this, of plan cfg n] obtain w2 where "local_rev_is_revoked 7 (fst w2)"
      "other_endpoint (demo_main plan cfg) (demo_occasion 300 300) (demo_request ''/admin/revoke'') (w1, n) =
        (Some (200, RevokedIndex 7), w2, n)" by blast
  with res show ?thesis
    by (simp add: demo_race_def traffic_step_def crashed_def arrivals_def demo_main_first del: split_paired_Ex)
      (simp add: demo_occasion_def del: split_paired_Ex)
qed

theorem program_revocation_final_witness:
  "\<exists>plan cfg w res. boot demo_platform demo_conf demo_boot = Inr (plan, cfg, w) \<and>
     snd (tr_calls (traffic_run (demo_main plan cfg) (demo_race @ replicate 3 (1, demo_occasion 300 300))
       (arrivals w (demo_nonces []) demo_rivals)) ! 1) = Answered (Some (200, VerifyBody res)) \<and> \<not> Valid res"
proof -
  obtain plan cfg w where start: "boot demo_platform demo_conf demo_boot = Inr (plan, cfg, w)"
      "pl_status plan = None" "pl_identity plan = ''srv''" "pl_max_age plan = 60 * second"
      "fst w = MemRev new_local_revocation_store"
    by (rule demo_boots)
  obtain w' where race: "local_rev_is_revoked 7 (fst w')"
      "traffic_run (demo_main plan cfg) demo_race (arrivals w (demo_nonces []) demo_rivals) =
       \<lparr>tr_world = w', tr_nonces = demo_nonces [],
        tr_calls = [(demo_request ''/admin/revoke'', Answered (Some (200, RevokedIndex 7))),
                    (demo_request ''/verify'', Checking trust_request [trust_root trust_did] (trust_invocation trust_did)
                       [trust_did \<mapsto> replicate 32 0])]\<rparr>"
    using demo_race_run [OF start] by blast
  have cde: "blocks_cde (trust_prims trust_did) (main_deps demo_platform plan cfg) 300 [trust_did \<mapsto> replicate 32 0]
      trust_bundle [trust_root trust_did] (trust_invocation trust_did) = None"
    by (rule trust_cde) (simp_all add: main_deps_def start(3,4))
  have final: "snd (tr_calls (traffic_run (demo_main plan cfg) (demo_race @ replicate 3 (1, demo_occasion 300 300))
      (arrivals w (demo_nonces []) demo_rivals)) ! 1) = Answered (Some (200, VerifyBody (invalid_result REVOKED)))"
    using cde
    by (simp add: race(2) numeral_3_eq_3 traffic_step_def crashed_def demo_main_revoked [OF race(1) start(2)]
        rejection_def demo_occasion_def del: phase_step.simps(4,5))
  have "\<not> Valid (invalid_result REVOKED)"
    by (rule program_revocation_final [where a = 0 and j = 1 and k = 7 and req = trust_request and xs = "[trust_root trust_did]"
          and x = "trust_root trust_did", OF _ _ _ _ _ _ _ _ final])
      (simp_all add: race(2) trust_decoded trust_root_def demo_index)
  with start(1) final show ?thesis by blast
qed

section \<open>Receipts on disk\<close>

definition disk_conf :: config where
  "disk_conf = demo_conf\<lparr>StoreDir := ''/data''\<rparr>"

lemma disk_boots:
  obtains plan cfg w s where "boot demo_platform disk_conf demo_boot = Inr (plan, cfg, w)"
    "pl_status plan = None" "pl_identity plan = ''srv''" "pl_max_age plan = 60 * second"
    "fst w = MemRev new_local_revocation_store" "sh_store (snd w) = FsStore s"
proof -
  have "\<exists>plan cfg w s. boot demo_platform disk_conf demo_boot = Inr (plan, cfg, w) \<and>
      pl_status plan = None \<and> pl_identity plan = ''srv'' \<and> pl_max_age plan = 60 * second \<and>
      fst w = MemRev new_local_revocation_store \<and> sh_store (snd w) = FsStore s"
    by (simp add: boot_def demo_platform_def disk_conf_def demo_conf_def demo_boot_def boot_resolver_def boot_revocation_def
        boot_store_def choose_store_def boot_status_def new_with_circuit_breaker_def new_resolver_def list_lru_def
        circuitStateCacheSize_def new_filesystem_store_def no_faults_def startup_def startup_error_def
        guard_err_def Let_def seconds_duration_def second_def)
  with that show thesis by blast
qed

lemma trust_stored:
  "\<exists>s'. store_put demo_platform trust_hash jwt (FsStore s, e) = (None, FsStore s', e)"
proof -
  have "hex_encode [0xaa] = ''aa''" by code_simp
  then have "hex_encode (replicate 32 0xaa) = concat (replicate 32 ''aa'')" by (simp add: hex_encode_def map_replicate)
  then have "trust_hash = demo_key" by (simp add: trust_hash_def demo_key_def demo_digest_def numeral_eq_Suc)
  then show ?thesis
    by (simp add: store_put_def fs_put_def demo_path demo_platform_def) (simp add: no_faults_def)
qed

theorem accepted_receipts_stay_on_disk_witness:
  "\<exists>plan cfg w st. boot demo_platform disk_conf demo_boot = Inr (plan, cfg, w) \<and>
     traffic_run (main_on disk_conf plan cfg) (replicate (8 + 4 * maxChainDepth) (0, demo_occasion 300 300))
       (arrivals w (demo_nonces []) [demo_request ''/verify'']) = st \<and>
     disk_view (sh_store (snd (tr_world st))) (receipt_slot demo_platform (demo_jwt ''AQ'')) = Some (demo_jwt ''AQ'')"
proof -
  obtain plan cfg w s where start: "boot demo_platform disk_conf demo_boot = Inr (plan, cfg, w)"
      "pl_status plan = None" "pl_identity plan = ''srv''" "pl_max_age plan = 60 * second"
      "fst w = MemRev new_local_revocation_store" "sh_store (snd w) = FsStore s"
    by (rule disk_boots)
  let ?d = "main_deps demo_platform plan cfg"
  obtain w1 where res: "resolve_issuers_parallel id (Resolve ?d) (issuer_dids [trust_root trust_did] (trust_invocation trust_did)) w =
      (Some (Inr [trust_did \<mapsto> replicate 32 0]), w1)" and keep: "fst w1 = fst w" "sh_store (snd w1) = sh_store (snd w)"
    using demo_main_resolved [OF start(1)] by blast
  have f: "block_f ?d [trust_root trust_did] w1 = (None, w1)"
    using demo_main_unrevoked [OF keep(1) [unfolded start(5)] start(2)] .
  have cde: "blocks_cde (trust_prims trust_did) ?d 300 [trust_did \<mapsto> replicate 32 0] trust_bundle
      [trust_root trust_did] (trust_invocation trust_did) = None"
    by (rule trust_cde) (simp_all add: main_deps_def start(3,4))
  have "compute_chain_hash (trust_prims trust_did) (demo_jwt ''AQ'') = trust_hash"
    by (simp add: compute_chain_hash_def trust_prims_def trust_hash_def)
  moreover obtain s' where "store_put demo_platform trust_hash (demo_jwt ''AQ'') (FsStore s, sh_env (snd w1)) =
      (None, FsStore s', sh_env (snd w1))"
    using trust_stored by blast
  ultimately obtain w' where
      "finish_chain (trust_prims trust_did) ?d (Receipts trust_bundle) [trust_root trust_did] w1 =
        (valid_result (success_context [trust_root trust_did]), w')"
    using keep(2) start(6)
    by (simp add: finish_chain_def main_deps_def trust_bundle_def on_store_def valid_result_def)
  with res f cde have run: "chain (trust_prims trust_did) id ?d 300 trust_bundle w =
      (Some (valid_result (success_context [trust_root trust_did])), w')"
    by (simp add: chain_def chain_decoded_def trust_block_a trust_decoded trust_block_b)
  let ?run = "traffic_run (main_on disk_conf plan cfg) (replicate (8 + 4 * maxChainDepth) (0, demo_occasion 300 300))
      (arrivals w (demo_nonces []) [demo_request ''/verify''])"
  have answered: "tr_calls ?run ! 0 =
      (demo_request ''/verify'', Answered (Some (200, VerifyBody (valid_result (success_context [trust_root trust_did])))))"
    using demo_main_claim [OF run, of disk_conf] by (auto simp: valid_result_def)
  have "disk_view (sh_store (snd (tr_world ?run))) (receipt_slot demo_platform (demo_jwt ''AQ'')) = Some (demo_jwt ''AQ'')"
    by (rule accepted_receipts_stay_on_disk [OF start(1) _ _ _ answered, where req = trust_request])
      (simp_all add: disk_conf_def receipts_of_def trust_bundle_def valid_result_def whole_files_def,
        simp add: demo_platform_def no_faults_def)
  with start(1) show ?thesis by blast
qed

end
