(* ===== verification/DRS_StatusFlight.thy ===== *)
theory DRS_StatusFlight
  imports DRS_Status
begin

text \<open>
  Overlapping calls of \<^verbatim>\<open>IsRevoked\<close> and \<^verbatim>\<open>WarmUp\<close> of \<^verbatim>\<open>pkg/revocation/status.go\<close>. A call is cut at
  every lock operation and around every HTTP request; \<^verbatim>\<open>initMu\<close> and \<^verbatim>\<open>refreshMu\<close> have an owner, and
  the sections under \<^verbatim>\<open>mu\<close> are single steps.
\<close>

section \<open>Calls and their steps\<close>

datatype status_call = Ask "string option" uint64 | Warm

datatype status_reply = Verdict bool | Failure string | Warmed

datatype ask_pc =
    Entering
  | WantInit | HoldInit | InitFetch | InitPublish "byte list" | InitRelease "string option"
  | CheckExpiry
  | WantRefresh | HoldRefresh | RefreshFetch | RefreshPublish "byte list" | RefreshRelease
  | ReadBit
  | Replied status_reply

record ask_state =
  as_cache :: status_cache
  as_init :: "nat option"
  as_refresh :: "nat option"
  as_calls :: "(status_call \<times> ask_pc) list"

text \<open>Where a call goes when \<^verbatim>\<open>ensureInitialSnapshot\<close> has returned.\<close>

fun after_init :: "status_call \<Rightarrow> string option \<Rightarrow> ask_pc" where
  "after_init Warm None = Replied Warmed"
| "after_init Warm (Some e) = Replied (Failure e)"
| "after_init (Ask _ _) None = CheckExpiry"
| "after_init (Ask _ _) (Some e) =
     Replied (Failure (''revocation: no valid status list snapshot available: '' @ e))"

fun reply_of :: "string + bool \<Rightarrow> status_reply" where
  "reply_of (Inl e) = Failure e"
| "reply_of (Inr b) = Verdict b"

definition published :: "byte list \<Rightarrow> int \<Rightarrow> status_cache \<Rightarrow> status_cache" where
  "published buf now s = s\<lparr>bitstring := buf, fetchedAt := now, hasSnapshot := True\<rparr>"

definition expired :: "int \<Rightarrow> status_cache \<Rightarrow> bool" where
  "expired now s = (sc_ttl s < now - fetchedAt s)"

text \<open>The first step of \<open>refresh\<close>, where no response is needed, and the step of the response.\<close>

definition fetch_start :: "(string \<Rightarrow> string option) \<Rightarrow> string \<Rightarrow> (string + byte list) option" where
  "fetch_start req url =
     (if url = '''' then Some (Inr [])
      else map_option (\<lambda>e. Inl (''building request for '' @ url @ '': '' @ e)) (req url))"

fun init_fetched :: "string + byte list \<Rightarrow> ask_pc" where
  "init_fetched (Inl e) = InitRelease (Some e)"
| "init_fetched (Inr buf) = InitPublish buf"

fun refresh_fetched :: "string + byte list \<Rightarrow> ask_pc" where
  "refresh_fetched (Inl e) = RefreshRelease"
| "refresh_fetched (Inr buf) = RefreshPublish buf"

text \<open>
  A step of call \<open>i\<close> at clock reading \<open>now\<close>, on the cache and the owners of the two locks;
  \<open>None\<close> means that the call is blocked on a lock, waits for a response, or has returned.
\<close>

fun ask_move ::
  "(string \<Rightarrow> string option) \<Rightarrow> nat \<Rightarrow> int \<Rightarrow> status_call \<Rightarrow> ask_pc \<Rightarrow> status_cache \<times> nat option \<times> nat option \<Rightarrow>
   (ask_pc \<times> status_cache \<times> nat option \<times> nat option) option" where
  "ask_move req i now c Entering (s, im, rm) =
     Some (case c of
             Ask (Some e) _ \<Rightarrow> Replied (Failure e)
           | Ask None _ \<Rightarrow> if ready s then CheckExpiry else WantInit
           | Warm \<Rightarrow> WantInit, s, im, rm)"
| "ask_move req i now c WantInit (s, im, rm) = (if im = None then Some (HoldInit, s, Some i, rm) else None)"
| "ask_move req i now c HoldInit (s, im, rm) =
     Some (if ready s then InitRelease None else InitFetch, s, im, rm)"
| "ask_move req i now c InitFetch (s, im, rm) =
     map_option (\<lambda>out. (init_fetched out, s, im, rm)) (fetch_start req (baseURL s))"
| "ask_move req i now c (InitPublish buf) (s, im, rm) = Some (InitRelease None, published buf now s, im, rm)"
| "ask_move req i now c (InitRelease err) (s, im, rm) = Some (after_init c err, s, None, rm)"
| "ask_move req i now c CheckExpiry (s, im, rm) =
     Some (if expired now s then WantRefresh else ReadBit, s, im, rm)"
| "ask_move req i now c WantRefresh (s, im, rm) =
     (if rm = None then Some (HoldRefresh, s, im, Some i) else None)"
| "ask_move req i now c HoldRefresh (s, im, rm) =
     Some (if expired now s then RefreshFetch else RefreshRelease, s, im, rm)"
| "ask_move req i now c RefreshFetch (s, im, rm) =
     map_option (\<lambda>out. (refresh_fetched out, s, im, rm)) (fetch_start req (baseURL s))"
| "ask_move req i now c (RefreshPublish buf) (s, im, rm) = Some (RefreshRelease, published buf now s, im, rm)"
| "ask_move req i now c RefreshRelease (s, im, rm) = Some (ReadBit, s, im, None)"
| "ask_move req i now c ReadBit (s, im, rm) =
     (case c of
        Ask _ index \<Rightarrow> Some (Replied (reply_of (lookup_bit index (bitstring s))), s, im, rm)
      | Warm \<Rightarrow> None)"
| "ask_move req i now c (Replied r) (s, im, rm) = None"

text \<open>The response to a request that is under way.\<close>

fun ask_fetched :: "string + byte list \<Rightarrow> ask_pc \<Rightarrow> ask_pc option" where
  "ask_fetched out InitFetch = Some (init_fetched out)"
| "ask_fetched out RefreshFetch = Some (refresh_fetched out)"
| "ask_fetched out _ = None"

datatype ask_event = Arrive status_call | Move nat int | Reply nat status_response

definition with_call :: "ask_state \<Rightarrow> nat \<Rightarrow> ask_pc \<times> status_cache \<times> nat option \<times> nat option \<Rightarrow> ask_state" where
  "with_call st i p =
     \<lparr>as_cache = fst (snd p), as_init = fst (snd (snd p)), as_refresh = snd (snd (snd p)),
      as_calls = (as_calls st)[i := (fst (as_calls st ! i), fst p)]\<rparr>"

fun ask_step :: "(string \<Rightarrow> string option) \<Rightarrow> ask_event \<Rightarrow> ask_state \<Rightarrow> ask_state option" where
  "ask_step req (Arrive c) st = Some (st\<lparr>as_calls := as_calls st @ [(c, Entering)]\<rparr>)"
| "ask_step req (Move i now) st =
     (if i < length (as_calls st)
      then map_option (with_call st i)
             (ask_move req i now (fst (as_calls st ! i)) (snd (as_calls st ! i)) (as_cache st, as_init st, as_refresh st))
      else None)"
| "ask_step req (Reply i resp) st =
     (if i < length (as_calls st) \<and> fetch_start req (baseURL (as_cache st)) = None
      then map_option (\<lambda>pc. with_call st i (pc, as_cache st, as_init st, as_refresh st))
             (ask_fetched (check_response (baseURL (as_cache st)) resp) (snd (as_calls st ! i)))
      else None)"

definition no_asks :: "string \<Rightarrow> int \<Rightarrow> ask_state" where
  "no_asks url ttl = \<lparr>as_cache = new_status_cache url ttl, as_init = None, as_refresh = None, as_calls = []\<rparr>"

inductive ask_run :: "(string \<Rightarrow> string option) \<Rightarrow> string \<Rightarrow> int \<Rightarrow> ask_event list \<Rightarrow> ask_state \<Rightarrow> bool"
  for req url ttl where
  start: "ask_run req url ttl [] (no_asks url ttl)"
| go_on: "ask_run req url ttl evs st \<Longrightarrow> ask_step req ev st = Some st' \<Longrightarrow> ask_run req url ttl (evs @ [ev]) st'"

text \<open>A successful step, as an elimination rule.\<close>

lemma ask_step_cases:
  assumes "ask_step req ev st = Some st'"
  obtains (arrive) c where "ev = Arrive c" "st' = st\<lparr>as_calls := as_calls st @ [(c, Entering)]\<rparr>"
  | (move) i now c pc p where "ev = Move i now" "i < length (as_calls st)" "as_calls st ! i = (c, pc)"
      "ask_move req i now c pc (as_cache st, as_init st, as_refresh st) = Some p" "st' = with_call st i p"
  | (reply) i resp c pc pc' where "ev = Reply i resp" "i < length (as_calls st)" "as_calls st ! i = (c, pc)"
      "fetch_start req (baseURL (as_cache st)) = None"
      "ask_fetched (check_response (baseURL (as_cache st)) resp) pc = Some pc'"
      "st' = with_call st i (pc', as_cache st, as_init st, as_refresh st)"
proof (cases ev)
  case (Move i now)
  obtain c pc where "as_calls st ! i = (c, pc)" by (cases "as_calls st ! i")
  with Move assms move [of i now c pc] show ?thesis by (auto split: if_splits)
next
  case (Reply i resp)
  obtain c pc where "as_calls st ! i = (c, pc)" by (cases "as_calls st ! i")
  with Reply assms reply [of i resp c pc] show ?thesis by (auto split: if_splits)
qed (use assms arrive in simp)

section \<open>Mutual exclusion\<close>

fun init_section :: "ask_pc \<Rightarrow> bool" where
  "init_section HoldInit = True"
| "init_section InitFetch = True"
| "init_section (InitPublish _) = True"
| "init_section (InitRelease _) = True"
| "init_section _ = False"

fun refresh_section :: "ask_pc \<Rightarrow> bool" where
  "refresh_section HoldRefresh = True"
| "refresh_section RefreshFetch = True"
| "refresh_section (RefreshPublish _) = True"
| "refresh_section RefreshRelease = True"
| "refresh_section _ = False"

definition locks_ok :: "ask_state \<Rightarrow> bool" where
  "locks_ok st =
     ((\<forall>i. as_init st = Some i \<longleftrightarrow> i < length (as_calls st) \<and> init_section (snd (as_calls st ! i))) \<and>
      (\<forall>i. as_refresh st = Some i \<longleftrightarrow> i < length (as_calls st) \<and> refresh_section (snd (as_calls st ! i))))"

text \<open>A lock changes its owner only through the steps of that owner.\<close>

definition owner_after :: "bool \<Rightarrow> bool \<Rightarrow> nat \<Rightarrow> nat option \<Rightarrow> nat option" where
  "owner_after before after i l = (if after then Some i else if before then None else l)"

lemma fetched_sections [simp]:
  "init_section (init_fetched out)" "\<not> refresh_section (init_fetched out)"
  "refresh_section (refresh_fetched out)" "\<not> init_section (refresh_fetched out)"
  by (cases out; simp)+

lemma after_init_sections [simp]: "\<not> init_section (after_init c e)" "\<not> refresh_section (after_init c e)"
  by (cases "(c, e)" rule: after_init.cases; simp)+

lemma ask_move_locks:
  assumes "ask_move req i now c pc (s, im, rm) = Some (pc', s', im', rm')"
    and "im = Some i \<longleftrightarrow> init_section pc" and "rm = Some i \<longleftrightarrow> refresh_section pc"
  shows "im' = owner_after (init_section pc) (init_section pc') i im \<and> (init_section pc' \<longrightarrow> init_section pc \<or> im = None) \<and>
    rm' = owner_after (refresh_section pc) (refresh_section pc') i rm \<and> (refresh_section pc' \<longrightarrow> refresh_section pc \<or> rm = None)"
proof (cases pc)
  case Entering
  with assms show ?thesis by (auto simp: owner_after_def split: status_call.splits option.splits if_splits)
next
  case ReadBit
  with assms show ?thesis by (auto simp: owner_after_def split: status_call.splits)
qed (use assms in \<open>auto simp: owner_after_def split: if_splits\<close>)

lemma owner_update:
  assumes "\<forall>j. l = Some j \<longleftrightarrow> j < length cs \<and> P (snd (cs ! j))" and "i < length cs"
    and "P pc \<longrightarrow> P (snd (cs ! i)) \<or> l = None"
  shows "owner_after (P (snd (cs ! i))) (P pc) i l = Some j \<longleftrightarrow>
    j < length (cs[i := (c, pc)]) \<and> P (snd (cs[i := (c, pc)] ! j))"
proof -
  have eq: "l = Some k \<longleftrightarrow> k < length cs \<and> P (snd (cs ! k))" for k using assms(1) by blast
  show ?thesis
  proof (cases "i = j")
    case False
    then show ?thesis using eq [of i] eq [of j] assms(2,3) by (auto simp: owner_after_def)
  next
    case True
    then show ?thesis using eq [of i] assms(2,3) by (simp add: owner_after_def)
  qed
qed

lemma ask_step_locks:
  assumes "ask_step req ev st = Some st'" and "locks_ok st"
  shows "locks_ok st'"
  using assms(1)
proof (cases rule: ask_step_cases)
  case (arrive c)
  with assms(2) show ?thesis by (auto simp: locks_ok_def nth_append less_Suc_eq)
next
  case (move i now c pc p)
  obtain pc' s' im' rm' where p: "p = (pc', s', im', rm')" by (cases p) auto
  have "as_init st = Some i \<longleftrightarrow> init_section pc" "as_refresh st = Some i \<longleftrightarrow> refresh_section pc"
    using assms(2) move(2,3) by (auto simp: locks_ok_def)
  from ask_move_locks [OF move(4) [unfolded p] this] have owner:
      "im' = owner_after (init_section (snd (as_calls st ! i))) (init_section pc') i (as_init st)"
      "rm' = owner_after (refresh_section (snd (as_calls st ! i))) (refresh_section pc') i (as_refresh st)"
    and free: "init_section pc' \<longrightarrow> init_section (snd (as_calls st ! i)) \<or> as_init st = None"
      "refresh_section pc' \<longrightarrow> refresh_section (snd (as_calls st ! i)) \<or> as_refresh st = None"
    by (simp_all add: move(3))
  let ?cs = "(as_calls st)[i := (fst (as_calls st ! i), pc')]"
  have "im' = Some j \<longleftrightarrow> j < length ?cs \<and> init_section (snd (?cs ! j))" for j
    unfolding owner(1) by (rule owner_update [OF _ move(2) free(1)]) (use assms(2) in \<open>simp add: locks_ok_def\<close>)
  moreover have "rm' = Some j \<longleftrightarrow> j < length ?cs \<and> refresh_section (snd (?cs ! j))" for j
    unfolding owner(2) by (rule owner_update [OF _ move(2) free(2)]) (use assms(2) in \<open>simp add: locks_ok_def\<close>)
  ultimately show ?thesis by (simp add: locks_ok_def move(5) p with_call_def)
next
  case (reply i resp c pc pc')
  then have same: "init_section pc' = init_section pc" "refresh_section pc' = refresh_section pc"
    by (cases pc; auto)+
  have "P (snd (as_calls st ! j)) = P (snd ((as_calls st)[i := (fst (as_calls st ! i), pc')] ! j))"
    if "P pc' = P pc" for P j
    using that reply(2,3) by (cases "i = j") auto
  from this [of init_section, OF same(1)] this [of refresh_section, OF same(2)] assms(2) show ?thesis
    by (simp add: locks_ok_def reply(6) with_call_def)
qed

section \<open>What the phases know\<close>

text \<open>The status lists that responses have delivered.\<close>

definition delivered :: "string \<Rightarrow> ask_event list \<Rightarrow> byte list \<Rightarrow> bool" where
  "delivered url evs buf = (\<exists>i resp. Reply i resp \<in> set evs \<and> check_response url resp = Inr buf)"

fun asks :: "status_call \<Rightarrow> bool" where
  "asks (Ask ctx index) = (ctx = None)"
| "asks Warm = False"

definition fit :: "status_call \<Rightarrow> bool" where
  "fit c = (asks c \<or> c = Warm)"

definition is_bit :: "status_call \<Rightarrow> bool \<Rightarrow> byte list \<Rightarrow> bool" where
  "is_bit c b buf =
     (\<exists>index. c = Ask None index \<and> unat index < length (bits_of buf) \<and> b = bits_of buf ! unat index)"

fun pc_ok :: "(byte list \<Rightarrow> bool) \<Rightarrow> bool \<Rightarrow> status_call \<Rightarrow> ask_pc \<Rightarrow> bool" where
  "pc_ok D pub c InitFetch = (\<not> pub \<and> fit c)"
| "pc_ok D pub c (InitPublish buf) = (\<not> pub \<and> fit c \<and> D buf)"
| "pc_ok D pub c (InitRelease err) = (fit c \<and> (err = None \<longrightarrow> pub))"
| "pc_ok D pub c (RefreshPublish buf) = (pub \<and> asks c \<and> D buf)"
| "pc_ok D pub c (Replied (Verdict b)) = (\<exists>buf. D buf \<and> is_bit c b buf)"
| "pc_ok D pub c (Replied Warmed) = pub"
| "pc_ok D pub c pc =
     ((pc \<in> {WantInit, HoldInit} \<longrightarrow> fit c) \<and>
      (pc \<in> {CheckExpiry, WantRefresh, HoldRefresh, RefreshFetch, RefreshRelease, ReadBit} \<longrightarrow> pub \<and> asks c))"

lemma pc_ok_mono:
  assumes "pc_ok D pub c pc" and "\<And>buf. D buf \<Longrightarrow> D' buf" and "pub \<Longrightarrow> pub'" and "init_section pc \<Longrightarrow> pub' = pub"
  shows "pc_ok D' pub' c pc"
  using assms by (cases "(D, pub, c, pc)" rule: pc_ok.cases) auto

lemma pc_ok_fetched:
  "pc_ok D pub c InitFetch \<Longrightarrow> (\<And>buf. out = Inr buf \<Longrightarrow> D buf) \<Longrightarrow> pc_ok D pub c (init_fetched out)"
  "pc_ok D pub c RefreshFetch \<Longrightarrow> (\<And>buf. out = Inr buf \<Longrightarrow> D buf) \<Longrightarrow> pc_ok D pub c (refresh_fetched out)"
  by (cases out; simp)+

lemma pc_ok_after_init: "pc_ok D pub c (InitRelease err) \<Longrightarrow> pc_ok D pub c (after_init c err)"
  by (cases "(c, err)" rule: after_init.cases) (auto simp: fit_def)

definition cache_ok :: "(byte list \<Rightarrow> bool) \<Rightarrow> string \<Rightarrow> int \<Rightarrow> status_cache \<Rightarrow> bool" where
  "cache_ok D url ttl s = (snapshot_ok url ttl s \<and> (hasSnapshot s \<longrightarrow> D (bitstring s)))"

lemma published_snapshot [simp]: "hasSnapshot (published buf now s)"
  by (simp add: published_def)

lemma published_ok:
  "cache_ok D url ttl s \<Longrightarrow> D buf \<Longrightarrow> buf \<noteq> [] \<Longrightarrow> length buf \<le> maxStatusListBytes \<Longrightarrow>
    cache_ok D url ttl (published buf now s)"
  by (simp add: cache_ok_def snapshot_ok_def published_def)

lemma ask_move_ok:
  assumes "ask_move req i now c pc (s, im, rm) = Some (pc', s', im', rm')" and "url \<noteq> ''''"
    and "pc_ok D (hasSnapshot s) c pc" and "cache_ok D url ttl s"
    and "\<And>buf. D buf \<Longrightarrow> buf \<noteq> [] \<and> length buf \<le> maxStatusListBytes"
  shows "pc_ok D (hasSnapshot s') c pc' \<and> cache_ok D url ttl s' \<and>
    (s' = s \<or> init_section pc \<and> hasSnapshot s' \<or> hasSnapshot s \<and> hasSnapshot s')"
proof (cases pc)
  case Entering
  with assms(1,3,4) show ?thesis by (auto simp: ready_def fit_def split: status_call.splits option.splits)
next
  case HoldInit
  with assms(1,3,4) show ?thesis by (auto simp: ready_def)
next
  case InitFetch
  with assms(1-4) show ?thesis
    by (auto simp: fetch_start_def cache_ok_def snapshot_ok_def intro!: pc_ok_fetched)
next
  case (InitPublish buf)
  with assms show ?thesis by (auto simp: published_ok)
next
  case (InitRelease err)
  with assms(1,3,4) pc_ok_after_init show ?thesis by auto
next
  case RefreshFetch
  with assms(1-4) show ?thesis
    by (auto simp: fetch_start_def cache_ok_def snapshot_ok_def)
next
  case (RefreshPublish buf)
  with assms show ?thesis by (auto simp: published_ok)
next
  case ReadBit
  with assms(3) obtain index where c: "c = Ask None index" "hasSnapshot s" by (cases c) auto
  with assms(4,5) have ne: "bitstring s \<noteq> []" "D (bitstring s)" by (auto simp: cache_ok_def snapshot_ok_def)
  show ?thesis
  proof (cases "lookup_bit index (bitstring s)")
    case (Inr b)
    with assms(1,4) ReadBit c ne lookup_bit_Inr [OF ne(1) Inr] show ?thesis by (auto simp: is_bit_def)
  qed (use assms(1,4) ReadBit c in auto)
qed (use assms in \<open>auto split: if_splits\<close>)

definition ask_ok :: "(byte list \<Rightarrow> bool) \<Rightarrow> string \<Rightarrow> int \<Rightarrow> ask_state \<Rightarrow> bool" where
  "ask_ok D url ttl st =
     (cache_ok D url ttl (as_cache st) \<and> locks_ok st \<and>
      (\<forall>i < length (as_calls st). pc_ok D (hasSnapshot (as_cache st)) (fst (as_calls st ! i)) (snd (as_calls st ! i))))"

lemma delivered_mono: "delivered url evs buf \<Longrightarrow> delivered url (evs @ evs') buf"
  by (auto simp: delivered_def)

lemma delivered_list: "delivered url evs buf \<Longrightarrow> buf \<noteq> [] \<and> length buf \<le> maxStatusListBytes"
  using check_response_list unfolding delivered_def by blast

lemma ask_ok_mono:
  assumes "ask_ok D url ttl st" and "\<And>buf. D buf \<Longrightarrow> D' buf"
  shows "ask_ok D' url ttl st"
  using assms(1) pc_ok_mono [of D _ _ _ D', OF _ assms(2)] by (auto simp: ask_ok_def cache_ok_def assms(2))

lemma one_init_section:
  "locks_ok st \<Longrightarrow> i < length (as_calls st) \<Longrightarrow> j < length (as_calls st) \<Longrightarrow>
    init_section (snd (as_calls st ! i)) \<Longrightarrow> init_section (snd (as_calls st ! j)) \<Longrightarrow> i = j"
  unfolding locks_ok_def by (metis option.inject)

lemma one_refresh_section:
  "locks_ok st \<Longrightarrow> i < length (as_calls st) \<Longrightarrow> j < length (as_calls st) \<Longrightarrow>
    refresh_section (snd (as_calls st ! i)) \<Longrightarrow> refresh_section (snd (as_calls st ! j)) \<Longrightarrow> i = j"
  unfolding locks_ok_def by (metis option.inject)

lemma ask_step_ok:
  assumes "ask_step req ev st = Some st'" and "url \<noteq> ''''" and "ask_ok (delivered url evs) url ttl st"
  shows "ask_ok (delivered url (evs @ [ev])) url ttl st'"
proof -
  let ?D = "delivered url (evs @ [ev])"
  have ok: "ask_ok ?D url ttl st" using ask_ok_mono [OF assms(3)] delivered_mono by blast
  have locks: "locks_ok st'" using ask_step_locks [OF assms(1)] ok by (simp add: ask_ok_def)
  have others: "ask_ok ?D url ttl st'"
    if "st' = with_call st i (pc', s', im', rm')" "i < length (as_calls st)" "as_calls st ! i = (c, pc)"
      "pc_ok ?D (hasSnapshot s') c pc'" "cache_ok ?D url ttl s'"
      "s' = as_cache st \<or> init_section pc \<and> hasSnapshot s' \<or> hasSnapshot (as_cache st) \<and> hasSnapshot s'"
    for i c pc pc' s' im' rm'
  proof -
    have "pc_ok ?D (hasSnapshot s') (fst (as_calls st ! j)) (snd (as_calls st ! j))"
      if "j < length (as_calls st)" "j \<noteq> i" for j
    proof (rule pc_ok_mono)
      show "pc_ok ?D (hasSnapshot (as_cache st)) (fst (as_calls st ! j)) (snd (as_calls st ! j))"
        using ok that by (simp add: ask_ok_def)
      assume "init_section (snd (as_calls st ! j))"
      then have "\<not> init_section pc"
        using ok one_init_section [of st i j] that \<open>i < length (as_calls st)\<close> \<open>as_calls st ! i = (c, pc)\<close>
        by (auto simp: ask_ok_def)
      with \<open>s' = as_cache st \<or> _\<close> show "hasSnapshot s' = hasSnapshot (as_cache st)" by auto
    qed (use \<open>s' = as_cache st \<or> _\<close> in auto)
    with that locks show ?thesis by (auto simp: ask_ok_def with_call_def nth_list_update)
  qed
  show ?thesis
    using assms(1)
  proof (cases rule: ask_step_cases)
    case (arrive c)
    with ok locks show ?thesis by (auto simp: ask_ok_def nth_append less_Suc_eq)
  next
    case (move i now c pc p)
    obtain pc' s' im' rm' where p: "p = (pc', s', im', rm')" by (cases p) auto
    have "pc_ok ?D (hasSnapshot (as_cache st)) c pc" "cache_ok ?D url ttl (as_cache st)"
      using ok move(2,3) by (auto simp: ask_ok_def)
    from ask_move_ok [OF move(4) [unfolded p] assms(2) this] delivered_list [of url "evs @ [ev]"]
    show ?thesis by (intro others [OF move(5) [unfolded p] move(2,3)]) blast+
  next
    case (reply i resp c pc pc')
    have call: "pc_ok ?D (hasSnapshot (as_cache st)) c pc" "cache_ok ?D url ttl (as_cache st)" "baseURL (as_cache st) = url"
      using ok reply(2,3) by (auto simp: ask_ok_def cache_ok_def snapshot_ok_def)
    have "?D buf" if "check_response url resp = Inr buf" for buf using that reply(1) by (auto simp: delivered_def)
    with call reply(5) have "pc_ok ?D (hasSnapshot (as_cache st)) c pc'"
      by (cases pc) (auto intro: pc_ok_fetched)
    then show ?thesis by (intro others [OF reply(6,2,3)]) (simp_all add: call)
  qed
qed

lemma ask_run_ok: "ask_run req url ttl evs st \<Longrightarrow> url \<noteq> '''' \<Longrightarrow> ask_ok (delivered url evs) url ttl st"
proof (induction rule: ask_run.induct)
  case start
  then show ?case
    by (simp add: ask_ok_def no_asks_def cache_ok_def snapshot_ok_def new_status_cache_def locks_ok_def)
qed (blast intro: ask_step_ok)

section \<open>Safety\<close>

fun fetching :: "ask_pc \<Rightarrow> bool" where
  "fetching InitFetch = True"
| "fetching (InitPublish _) = True"
| "fetching RefreshFetch = True"
| "fetching (RefreshPublish _) = True"
| "fetching _ = False"

lemma fetching_section:
  "fetching pc \<Longrightarrow> pc_ok D pub c pc \<Longrightarrow> init_section pc \<and> \<not> pub \<or> refresh_section pc \<and> pub"
  by (cases pc) auto

text \<open>
  C13. Overlapping lookups in the status list cache neither stampede nor guess. At every moment at
  most one call, over both locks, is fetching or publishing a list. And a verdict is only given to
  a call whose context was alive when it entered; it is a bit of a list that a complete, not
  empty 200 response has delivered during the run, at an index inside that list.
\<close>

theorem overlapping_lookups_safe:
  assumes "ask_run req url ttl evs st" and "url \<noteq> ''''" and "i < length (as_calls st)"
  shows "(fetching (snd (as_calls st ! i)) \<longrightarrow>
       (\<forall>j < length (as_calls st). fetching (snd (as_calls st ! j)) \<longrightarrow> j = i)) \<and>
    (\<forall>c b. as_calls st ! i = (c, Replied (Verdict b)) \<longrightarrow>
       (\<exists>index buf. c = Ask None index \<and> delivered url evs buf \<and> unat index < length (bits_of buf) \<and>
          b = bits_of buf ! unat index))"
proof -
  have ok: "ask_ok (delivered url evs) url ttl st" by (rule ask_run_ok [OF assms(1,2)])
  then have "locks_ok st" and
      pc: "\<And>j. j < length (as_calls st) \<Longrightarrow>
        pc_ok (delivered url evs) (hasSnapshot (as_cache st)) (fst (as_calls st ! j)) (snd (as_calls st ! j))"
    by (auto simp: ask_ok_def)
  then have "j = i" if "fetching (snd (as_calls st ! i))" "j < length (as_calls st)" "fetching (snd (as_calls st ! j))" for j
    using that assms(3) fetching_section [OF _ pc] one_init_section [of st] one_refresh_section [of st] by metis
  then show ?thesis using pc [OF assms(3)] by (force simp: is_bit_def)
qed

section \<open>Every call returns\<close>

fun ask_rank :: "ask_pc \<Rightarrow> nat" where
  "ask_rank Entering = 13"
| "ask_rank WantInit = 12"
| "ask_rank HoldInit = 11"
| "ask_rank InitFetch = 10"
| "ask_rank (InitPublish _) = 9"
| "ask_rank (InitRelease _) = 8"
| "ask_rank CheckExpiry = 7"
| "ask_rank WantRefresh = 6"
| "ask_rank HoldRefresh = 5"
| "ask_rank RefreshFetch = 4"
| "ask_rank (RefreshPublish _) = 3"
| "ask_rank RefreshRelease = 2"
| "ask_rank ReadBit = 1"
| "ask_rank (Replied _) = 0"

definition total_rank :: "ask_state \<Rightarrow> nat" where
  "total_rank st = sum_list (map (\<lambda>c. ask_rank (snd c)) (as_calls st))"

lemma init_fetched_rank: "ask_rank (init_fetched out) < 10" and refresh_fetched_rank: "ask_rank (refresh_fetched out) < 4"
  by (cases out; simp)+

lemma after_init_rank: "ask_rank (after_init c e) < 8"
  by (cases "(c, e)" rule: after_init.cases) auto

lemma ask_move_rank:
  "ask_move req i now c pc (s, im, rm) = Some (pc', s', im', rm') \<Longrightarrow> ask_rank pc' < ask_rank pc"
  by (cases pc) (auto simp: init_fetched_rank refresh_fetched_rank after_init_rank
      split: if_splits status_call.splits option.splits)

fun is_arrival :: "ask_event \<Rightarrow> bool" where
  "is_arrival (Arrive _) = True"
| "is_arrival _ = False"

lemma with_call_rank:
  assumes "i < length (as_calls st)" and "ask_rank (fst p) < ask_rank (snd (as_calls st ! i))"
  shows "total_rank (with_call st i p) < total_rank st"
  using sum_rank_update [OF assms(1), of "\<lambda>c. ask_rank (snd c)" "(fst (as_calls st ! i), fst p)"] assms(2)
  by (simp add: total_rank_def with_call_def)

lemma ask_step_rank:
  assumes "ask_step req ev st = Some st'"
  shows "if is_arrival ev then total_rank st' = total_rank st + 13 else total_rank st' < total_rank st"
  using assms
proof (cases rule: ask_step_cases)
  case (move i now c pc p)
  then have "ask_rank (fst p) < ask_rank pc" by (cases p) (auto dest: ask_move_rank)
  with move show ?thesis by (simp add: with_call_rank)
next
  case (reply i resp c pc pc')
  then have "ask_rank pc' < ask_rank pc" by (cases pc) (auto simp: init_fetched_rank refresh_fetched_rank)
  with reply show ?thesis by (simp add: with_call_rank)
qed (simp add: total_rank_def)

lemma ask_run_rank:
  "ask_run req url ttl evs st \<Longrightarrow>
    total_rank st + length (filter (\<lambda>ev. \<not> is_arrival ev) evs) \<le> 13 * length (filter is_arrival evs)"
proof (induction rule: ask_run.induct)
  case (go_on evs st ev st')
  with ask_step_rank [OF go_on(2)] show ?case by (auto split: if_splits)
qed (simp add: total_rank_def no_asks_def)

text \<open>An event by which call \<open>i\<close> goes on: a step, or the response to its request.\<close>

fun event_of :: "ask_event \<Rightarrow> nat option" where
  "event_of (Arrive _) = None"
| "event_of (Move i _) = Some i"
| "event_of (Reply i _) = Some i"

lemma fetching_goes_on:
  assumes "i < length (as_calls st)" and "snd (as_calls st ! i) = InitFetch \<or> snd (as_calls st ! i) = RefreshFetch"
  shows "ask_step req (Move i now) st \<noteq> None \<or> ask_step req (Reply i resp) st \<noteq> None"
  using assms by (cases "fetch_start req (baseURL (as_cache st))") auto

lemma section_goes_on:
  assumes "i < length (as_calls st)" and "init_section (snd (as_calls st ! i)) \<or> refresh_section (snd (as_calls st ! i))"
  shows "ask_step req (Move i now) st \<noteq> None \<or> ask_step req (Reply i resp) st \<noteq> None"
  using assms fetching_goes_on [OF assms(1), of req now resp]
  by (cases "snd (as_calls st ! i)") auto

lemma call_goes_on:
  assumes "ask_ok D url ttl st" and "i < length (as_calls st)" and "\<nexists>r. snd (as_calls st ! i) = Replied r"
  shows "\<exists>j. ask_step req (Move j now) st \<noteq> None \<or> ask_step req (Reply j resp) st \<noteq> None"
proof -
  obtain c pc where at_i: "as_calls st ! i = (c, pc)" by (cases "as_calls st ! i")
  have ok: "pc_ok D (hasSnapshot (as_cache st)) c pc" and locks: "locks_ok st"
    using assms(1,2) at_i by (auto simp: ask_ok_def)
  show ?thesis
  proof (cases pc)
    case WantInit
    show ?thesis
    proof (cases "as_init st")
      case (Some j)
      then have "j < length (as_calls st)" "init_section (snd (as_calls st ! j))" using locks by (auto simp: locks_ok_def)
      with section_goes_on show ?thesis by blast
    qed (use at_i WantInit assms(2) in \<open>auto intro!: exI [of _ i]\<close>)
  next
    case WantRefresh
    show ?thesis
    proof (cases "as_refresh st")
      case (Some j)
      then have "j < length (as_calls st)" "refresh_section (snd (as_calls st ! j))" using locks by (auto simp: locks_ok_def)
      with section_goes_on show ?thesis by blast
    qed (use at_i WantRefresh assms(2) in \<open>auto intro!: exI [of _ i]\<close>)
  next
    case ReadBit
    with ok have "asks c" by simp
    with at_i ReadBit assms(2) show ?thesis by (cases c) (auto intro!: exI [of _ i])
  next
    case InitFetch
    with at_i show ?thesis by (intro exI [of _ i] fetching_goes_on assms(2)) simp
  next
    case RefreshFetch
    with at_i show ?thesis by (intro exI [of _ i] fetching_goes_on assms(2)) simp
  qed (use at_i assms(2,3) in \<open>auto intro!: exI [of _ i]\<close>)
qed

text \<open>
  C23. No lookup hangs. However calls of \<^verbatim>\<open>IsRevoked\<close> and \<^verbatim>\<open>WarmUp\<close> overlap, they take together at
  most thirteen steps per call, and as long as one of them has not returned, at every clock
  reading and for every response some call can go on: there is no deadlock between the two locks,
  and a lock is released whether the fetch under it succeeds or fails.
\<close>

theorem overlapping_lookups_return:
  assumes "ask_run req url ttl evs st" and "url \<noteq> ''''"
  shows "length (filter (\<lambda>ev. \<not> is_arrival ev) evs) \<le> 13 * length (filter is_arrival evs) \<and>
    ((\<forall>call \<in> set (as_calls st). \<exists>r. snd call = Replied r) \<or>
     (\<forall>now resp. \<exists>j. ask_step req (Move j now) st \<noteq> None \<or> ask_step req (Reply j resp) st \<noteq> None))"
proof -
  have "length (filter (\<lambda>ev. \<not> is_arrival ev) evs) \<le> 13 * length (filter is_arrival evs)"
    using ask_run_rank [OF assms(1)] by simp
  moreover have "\<exists>j. ask_step req (Move j now) st \<noteq> None \<or> ask_step req (Reply j resp) st \<noteq> None"
    if "call \<in> set (as_calls st)" "\<nexists>r. snd call = Replied r" for call now resp
    using that call_goes_on [OF ask_run_ok [OF assms]] by (metis in_set_conv_nth)
  ultimately show ?thesis by blast
qed

section \<open>A call that runs alone\<close>

inductive goes :: "(string \<Rightarrow> string option) \<Rightarrow> ask_state \<Rightarrow> ask_state \<Rightarrow> bool" for req where
  stays: "goes req st st"
| steps: "ask_step req ev st = Some st1 \<Longrightarrow> goes req st1 st2 \<Longrightarrow> goes req st st2"

definition one_call :: "status_call \<Rightarrow> status_cache \<Rightarrow> nat option \<times> nat option \<Rightarrow> ask_pc \<Rightarrow> ask_state" where
  "one_call c s l pc = \<lparr>as_cache = s, as_init = fst l, as_refresh = snd l, as_calls = [(c, pc)]\<rparr>"

lemma goes_trans: "goes req st st1 \<Longrightarrow> goes req st1 st2 \<Longrightarrow> goes req st st2"
  by (induction rule: goes.induct) (auto intro: goes.steps)

lemma one_call_moves:
  assumes "ask_move req 0 now c pc (s, l) = Some (pc', s', l')" and "goes req (one_call c s' l' pc') st"
  shows "goes req (one_call c s l pc) st"
proof (rule goes.steps [OF _ assms(2)])
  show "ask_step req (Move 0 now) (one_call c s l pc) = Some (one_call c s' l' pc')"
    using assms(1) by (simp add: one_call_def with_call_def)
qed

lemma one_call_reply:
  assumes "ask_fetched (check_response (baseURL s) resp) pc = Some pc'" and "fetch_start req (baseURL s) = None"
    and "goes req (one_call c s l pc') st"
  shows "goes req (one_call c s l pc) st"
proof (rule goes.steps [OF _ assms(3)])
  show "ask_step req (Reply 0 resp) (one_call c s l pc) = Some (one_call c s l pc')"
    using assms(1,2) by (simp add: one_call_def with_call_def)
qed

text \<open>\<open>refresh\<close> under either lock.\<close>

lemma published_publish: "publish E buf (s, n) = (s', n') \<Longrightarrow> \<exists>now. s' = published buf now s"
  by (auto simp: publish_def published_def split: prod.splits)

lemma refresh_outcome:
  assumes "refresh E (s, n) = (e, (s', n'))"
  shows "\<exists>out. (fetch_start (se_request E) (baseURL s) = Some out \<or>
      fetch_start (se_request E) (baseURL s) = None \<and> (\<exists>resp. check_response (baseURL s) resp = out)) \<and>
    (case out of Inl m \<Rightarrow> e = Some m \<and> s' = s | Inr buf \<Rightarrow> e = None \<and> (\<exists>now. s' = published buf now s))"
proof (cases "fetch_start (se_request E) (baseURL s)")
  case (Some out)
  with assms published_publish [of E _ s n s' n'] show ?thesis
    by (auto simp: refresh_def fetch_start_def split: if_splits)
next
  case None
  obtain resp n1 where get: "se_get E (baseURL s) n = (resp, n1)" by (cases "se_get E (baseURL s) n")
  with None assms published_publish [of E _ s n1 s' n'] show ?thesis
    by (cases "check_response (baseURL s) resp") (fastforce simp: refresh_def fetch_start_def split: if_splits)+
qed

lemma fetch_goes:
  assumes "refresh E (s, n) = (e, (s', n'))"
  shows "goes (se_request E) (one_call c s l InitFetch) (one_call c s' l (InitRelease e))"
    and "goes (se_request E) (one_call c s l RefreshFetch) (one_call c s' l RefreshRelease)"
proof -
  obtain im rm where l: "l = (im, rm)" by (cases l)
  obtain out where fetch: "fetch_start (se_request E) (baseURL s) = Some out \<or>
      fetch_start (se_request E) (baseURL s) = None \<and> (\<exists>resp. check_response (baseURL s) resp = out)"
    and out: "case out of Inl m \<Rightarrow> e = Some m \<and> s' = s | Inr buf \<Rightarrow> e = None \<and> (\<exists>now. s' = published buf now s)"
    using refresh_outcome [OF assms] by blast
  have after: "goes (se_request E) (one_call c s l (init_fetched out)) (one_call c s' l (InitRelease e)) \<and>
    goes (se_request E) (one_call c s l (refresh_fetched out)) (one_call c s' l RefreshRelease)"
  proof (cases out)
    case (Inr buf)
    with out obtain now where s': "e = None" "s' = published buf now s" by auto
    show ?thesis by (auto simp: Inr s' l intro: goes.stays one_call_moves [where now = now])
  qed (use out in \<open>auto intro: goes.stays\<close>)
  show "goes (se_request E) (one_call c s l InitFetch) (one_call c s' l (InitRelease e))"
    using fetch after by (auto simp: l intro: one_call_moves [where now = 0] one_call_reply)
  show "goes (se_request E) (one_call c s l RefreshFetch) (one_call c s' l RefreshRelease)"
    using fetch after by (auto simp: l intro: one_call_moves [where now = 0] one_call_reply)
qed

lemma init_goes:
  assumes "ensure_initial_snapshot E (s, n) = (e, (s', n'))"
  shows "goes (se_request E) (one_call c s (None, rm) WantInit) (one_call c s' (None, rm) (after_init c e))"
proof -
  have "goes (se_request E) (one_call c s (Some 0, rm) HoldInit) (one_call c s' (Some 0, rm) (InitRelease e))"
  proof (cases "hasSnapshot s")
    case True
    with assms show ?thesis
      by (auto simp: ensure_initial_snapshot_def ready_def intro: goes.stays one_call_moves [where now = 0])
  next
    case False
    with assms fetch_goes(1) [of E s n e s' n' c "(Some 0, rm)"] show ?thesis
      by (auto simp: ensure_initial_snapshot_def ready_def intro: one_call_moves [where now = 0])
  qed
  moreover have "goes (se_request E) (one_call c s' (Some 0, rm) (InitRelease e)) (one_call c s' (None, rm) (after_init c e))"
    by (auto intro: goes.stays one_call_moves [where now = 0])
  ultimately show ?thesis by (auto intro: goes_trans one_call_moves [where now = 0])
qed

lemma expiry_goes:
  assumes "refresh_if_expired E (s, n) = (s', n')"
  shows "goes (se_request E) (one_call c s (im, None) CheckExpiry) (one_call c s' (im, None) ReadBit)"
proof -
  obtain t1 n1 where c1: "se_clock E n = (t1, n1)" by (cases "se_clock E n")
  obtain t2 n2 where c2: "se_clock E n1 = (t2, n2)" by (cases "se_clock E n1")
  show ?thesis
  proof (cases "expired t1 s")
    case False
    with assms c1 show ?thesis
      by (auto simp: refresh_if_expired_def expired_def not_less split: if_splits
          intro: goes.stays one_call_moves [where now = t1])
  next
    case True
    have "goes (se_request E) (one_call c s (im, Some 0) HoldRefresh) (one_call c s' (im, Some 0) RefreshRelease)"
    proof (cases "expired t2 s")
      case late: True
      then have "\<exists>e. refresh E (s, n2) = (e, (s', n'))"
        using assms True c1 c2 by (cases "refresh E (s, n2)") (auto simp: refresh_if_expired_def expired_def)
      with late fetch_goes(2) show ?thesis by (fastforce intro: one_call_moves [where now = t2])
    next
      case False
      then have "s' = s" using assms True c1 c2 by (auto simp: refresh_if_expired_def expired_def)
      with False show ?thesis by (auto intro: goes.stays one_call_moves [where now = t2])
    qed
    moreover have "goes (se_request E) (one_call c s' (im, Some 0) RefreshRelease) (one_call c s' (im, None) ReadBit)"
      by (auto intro: goes.stays one_call_moves [where now = 0])
    ultimately have "goes (se_request E) (one_call c s (im, None) WantRefresh) (one_call c s' (im, None) ReadBit)"
      by (auto intro: goes_trans one_call_moves [where now = 0])
    with True show ?thesis by (auto intro: one_call_moves [where now = t1])
  qed
qed

text \<open>
  The steps refine the operation: a call of \<^verbatim>\<open>IsRevoked\<close> that nobody disturbs goes from its
  entry to its reply with exactly the answer and the cache of \<open>status_is_revoked\<close>, and leaves both
  locks free.
\<close>

theorem lookup_alone:
  assumes "status_is_revoked E ctx i (s, n) = (v, (s', n'))"
  shows "goes (se_request E) (one_call (Ask ctx i) s (None, None) Entering)
    (one_call (Ask ctx i) s' (None, None) (Replied (reply_of v)))"
proof (cases ctx)
  case (Some e)
  with assms have "v = Inl e" "s' = s" by (simp_all add: status_is_revoked_def)
  with Some show ?thesis by (auto intro!: one_call_moves [where now = 0, OF _ goes.stays])
next
  case None
  obtain e s1 n1 where en: "ensure_initial_snapshot E (s, n) = (e, (s1, n1))" by (cases "ensure_initial_snapshot E (s, n)") auto
  have init: "goes (se_request E) (one_call (Ask ctx i) s (None, None) Entering)
      (one_call (Ask ctx i) s1 (None, None) (after_init (Ask ctx i) e))"
  proof (cases "hasSnapshot s")
    case True
    with en None show ?thesis
      by (auto simp: ensure_initial_snapshot_def ready_def intro: goes.stays one_call_moves [where now = 0])
  next
    case False
    with None init_goes [OF en] show ?thesis by (auto simp: ready_def intro: one_call_moves [where now = 0])
  qed
  show ?thesis
  proof (cases e)
    case (Some m)
    with init assms en None show ?thesis by (auto simp: status_is_revoked_def)
  next
    case e: None
    with assms en None have r: "refresh_if_expired E (s1, n1) = (s', n')" "v = lookup_bit i (bitstring s')"
      by (auto simp: status_is_revoked_def Let_def)
    have "goes (se_request E) (one_call (Ask ctx i) s' (None, None) ReadBit)
        (one_call (Ask ctx i) s' (None, None) (Replied (reply_of v)))"
      by (auto simp: r(2) intro: goes.stays one_call_moves [where now = 0])
    with init expiry_goes [OF r(1), of "Ask ctx i" None] show ?thesis by (auto simp: e intro: goes_trans)
  qed
qed

section \<open>A failing endpoint\<close>

fun ask_moves :: "(string \<Rightarrow> string option) \<Rightarrow> ask_event list \<Rightarrow> ask_state \<Rightarrow> ask_state option" where
  "ask_moves req [] st = Some st"
| "ask_moves req (ev # evs) st = (case ask_step req ev st of None \<Rightarrow> None | Some st' \<Rightarrow> ask_moves req evs st')"

lemma ask_moves_append [simp]:
  "ask_moves req (evs @ evs') st = (case ask_moves req evs st of None \<Rightarrow> None | Some st' \<Rightarrow> ask_moves req evs' st')"
  by (induction evs arbitrary: st) (simp_all split: option.split)

lemma ask_moves_run: "ask_run req url ttl evs st \<Longrightarrow> ask_moves req evs' st = Some st' \<Longrightarrow> ask_run req url ttl (evs @ evs') st'"
proof (induction evs' arbitrary: evs st)
  case (Cons ev evs')
  then obtain st1 where "ask_step req ev st = Some st1" "ask_moves req evs' st1 = Some st'" by (auto split: option.splits)
  with Cons.IH [OF ask_run.go_on [OF Cons.prems(1)]] show ?case by fastforce
qed simp

text \<open>A list is published at \<open>t\<close>; later, at \<open>now\<close>, calls find it expired and queue up for \<^verbatim>\<open>refreshMu\<close>.\<close>

definition warmed_up :: "status_response \<Rightarrow> int \<Rightarrow> ask_event list" where
  "warmed_up good t = [Arrive Warm, Move 0 t, Move 0 t, Move 0 t, Reply 0 good, Move 0 t, Move 0 t]"

definition queued :: "int \<Rightarrow> uint64 \<Rightarrow> nat \<Rightarrow> ask_event list" where
  "queued now index k = concat (map (\<lambda>j. [Arrive (Ask None index), Move (Suc j) now, Move (Suc j) now]) [0..<k])"

text \<open>The turn of one of them: lock, check, the failing request, unlock, answer.\<close>

definition failed_turn :: "int \<Rightarrow> status_response \<Rightarrow> nat \<Rightarrow> ask_event list" where
  "failed_turn now bad j = [Move j now, Move j now, Reply j bad, Move j now, Move j now]"

definition stale_calls :: "uint64 \<Rightarrow> status_reply \<Rightarrow> nat \<Rightarrow> nat \<Rightarrow> (status_call \<times> ask_pc) list" where
  "stale_calls index r m k =
     (Warm, Replied Warmed) # replicate m (Ask None index, Replied r) @ replicate k (Ask None index, WantRefresh)"

definition stale_state :: "status_cache \<Rightarrow> uint64 \<Rightarrow> status_reply \<Rightarrow> nat \<Rightarrow> nat \<Rightarrow> ask_state" where
  "stale_state s index r m k = \<lparr>as_cache = s, as_init = None, as_refresh = None, as_calls = stale_calls index r m k\<rparr>"

lemma stale_calls_update:
  "stale_calls index r m (Suc k) ! Suc m = (Ask None index, WantRefresh)"
  "length (stale_calls index r m k) = Suc (m + k)"
  "(stale_calls index r m (Suc k))[Suc m := (Ask None index, Replied r)] = stale_calls index r (Suc m) k"
  by (simp_all add: stale_calls_def nth_append list_update_append replicate_app_Cons_same)

lemma failed_turn_moves:
  assumes "url \<noteq> ''''" "req url = None" "check_response url bad = Inl e" "baseURL s = url" "expired now s"
    and "r = reply_of (lookup_bit index (bitstring s))"
  shows "ask_moves req (failed_turn now bad (Suc m)) (stale_state s index r m (Suc k)) = Some (stale_state s index r (Suc m) k)"
proof -
  have "fetch_start req (baseURL s) = None" using assms(1,2,4) by (simp add: fetch_start_def)
  with assms(3-6) show ?thesis
    by (simp add: failed_turn_def stale_state_def with_call_def stale_calls_update)
qed

lemma failed_turns_moves:
  assumes "url \<noteq> ''''" "req url = None" "check_response url bad = Inl e" "baseURL s = url" "expired now s"
    and "r = reply_of (lookup_bit index (bitstring s))"
  shows "ask_moves req (concat (map (\<lambda>j. failed_turn now bad (Suc j)) [0..<m])) (stale_state s index r 0 (m + k)) =
    Some (stale_state s index r m k)"
proof (induction m arbitrary: k)
  case (Suc m)
  from Suc.IH [of "Suc k"] failed_turn_moves [where req = req and url = url, OF assms] show ?case by simp
qed simp

lemma queued_moves:
  assumes "hasSnapshot s" and "expired now s"
  shows "ask_moves req (queued now index k) (stale_state s index r 0 0) = Some (stale_state s index r 0 k)"
proof (induction k)
  case (Suc k)
  have "ask_moves req [Arrive (Ask None index), Move (Suc k) now, Move (Suc k) now] (stale_state s index r 0 k) =
      Some (stale_state s index r 0 (Suc k))"
    using assms
    by (simp add: stale_state_def stale_calls_def with_call_def ready_def nth_append list_update_append
        flip: replicate_append_same)
  with Suc show ?case by (simp add: queued_def)
qed (simp add: queued_def)

lemma warmed_up_moves:
  assumes "url \<noteq> ''''" "req url = None" "check_response url good = Inr buf"
  shows "ask_moves req (warmed_up good t) (no_asks url ttl) =
    Some (stale_state (published buf t (new_status_cache url ttl)) index r 0 0)"
  using assms
  by (simp add: warmed_up_def no_asks_def stale_state_def stale_calls_def with_call_def ready_def fetch_start_def
      new_status_cache_def)

text \<open>
  One such run, for every number \<open>k\<close> of calls that find the list expired and queue up for
  \<^verbatim>\<open>refreshMu\<close>: each in turn makes a request that fails, and answers from the stale list.
\<close>

theorem failing_refresh_run:
  assumes "url \<noteq> ''''" and "req url = None" and "check_response url good = Inr buf"
    and "check_response url bad = Inl e" and "ttl < now - t"
  shows "\<exists>st. ask_run req url ttl
      (warmed_up good t @ queued now index k @ concat (map (\<lambda>j. failed_turn now bad (Suc j)) [0..<k])) st \<and>
    as_calls st = (Warm, Replied Warmed) # replicate k (Ask None index, Replied (reply_of (lookup_bit index buf)))"
proof -
  let ?s = "published buf t (new_status_cache url ttl)" and ?r = "reply_of (lookup_bit index buf)"
  have s: "hasSnapshot ?s" "baseURL ?s = url" "expired now ?s" "?r = reply_of (lookup_bit index (bitstring ?s))"
    using assms(5) by (simp_all add: published_def new_status_cache_def expired_def)
  have "ask_moves req (warmed_up good t @ queued now index k @ concat (map (\<lambda>j. failed_turn now bad (Suc j)) [0..<k]))
      (no_asks url ttl) = Some (stale_state ?s index ?r k 0)"
    using warmed_up_moves [where req = req, OF assms(1-3), of t ttl index ?r] queued_moves [OF s(1,3), of req index k ?r]
      failed_turns_moves [where req = req, OF assms(1,2,4) s(2,3,4), of k 0] by simp
  from ask_moves_run [OF ask_run.start this] show ?thesis
    by (auto simp: stale_state_def stale_calls_def)
qed

text \<open>
  The phases of a run in which no list arrives, on the cache \<open>s\<close> with an expired list: the phases that
  any call can be in, and those of a lookup that arrived during the run and has made \<open>n\<close> requests.
\<close>

fun calm :: "ask_pc \<Rightarrow> bool" where
  "calm InitFetch = False"
| "calm (InitPublish _) = False"
| "calm (RefreshPublish _) = False"
| "calm _ = True"

fun stale_phase :: "status_cache \<Rightarrow> uint64 \<Rightarrow> nat \<Rightarrow> ask_pc \<Rightarrow> bool" where
  "stale_phase s index n Entering = (n = 0)"
| "stale_phase s index n CheckExpiry = (n = 0)"
| "stale_phase s index n WantRefresh = (n = 0)"
| "stale_phase s index n HoldRefresh = (n = 0)"
| "stale_phase s index n RefreshFetch = (n = 0)"
| "stale_phase s index n RefreshRelease = (n = 1)"
| "stale_phase s index n ReadBit = (n = 1)"
| "stale_phase s index n (Replied r) = (n = 1 \<and> r = reply_of (lookup_bit index (bitstring s)))"
| "stale_phase s index n _ = False"

definition requests :: "nat \<Rightarrow> ask_event list \<Rightarrow> nat" where
  "requests i evs = length (filter (\<lambda>ev. case ev of Reply j _ \<Rightarrow> j = i | _ \<Rightarrow> False) evs)"

lemma requests_simps [simp]:
  "requests i [] = 0"
  "requests i (evs @ [Arrive c]) = requests i evs"
  "requests i (evs @ [Move j now]) = requests i evs"
  "requests i (evs @ [Reply j resp]) = (if j = i then Suc (requests i evs) else requests i evs)"
  by (simp_all add: requests_def)

fun without_list :: "string \<Rightarrow> status_cache \<Rightarrow> ask_event \<Rightarrow> bool" where
  "without_list url s (Arrive c) = True"
| "without_list url s (Move i now) = expired now s"
| "without_list url s (Reply i resp) = (\<exists>e. check_response url resp = Inl e)"

definition stale_ok :: "status_cache \<Rightarrow> nat \<Rightarrow> ask_event list \<Rightarrow> ask_state \<Rightarrow> bool" where
  "stale_ok s n evs st =
     (as_cache st = s \<and> n \<le> length (as_calls st) \<and> (\<forall>i \<ge> length (as_calls st). requests i evs = 0) \<and>
      (\<forall>i < length (as_calls st). calm (snd (as_calls st ! i)) \<and>
         (n \<le> i \<longrightarrow> (\<forall>index. fst (as_calls st ! i) = Ask None index \<longrightarrow>
            stale_phase s index (requests i evs) (snd (as_calls st ! i))))))"

lemma after_init_calm: "calm (after_init c e)"
  by (cases "(c, e)" rule: after_init.cases) auto

lemma ask_move_stale:
  assumes "ask_move req i now c pc (s, im, rm) = Some (pc', s', im', rm')"
    and "calm pc" and "hasSnapshot s" and "expired now s" and "fetch_start req (baseURL s) = None"
  shows "s' = s \<and> calm pc' \<and>
    (\<forall>index m. c = Ask None index \<longrightarrow> stale_phase s index m pc \<longrightarrow> stale_phase s index m pc')"
proof (cases pc)
  case Entering
  with assms show ?thesis by (auto simp: ready_def split: status_call.splits option.splits)
next
  case ReadBit
  with assms show ?thesis by (auto split: status_call.splits)
next
  case (InitRelease err)
  with assms after_init_calm show ?thesis by auto
qed (use assms in \<open>auto simp: ready_def split: if_splits\<close>)

lemma stale_ok_call:
  assumes "stale_ok s n evs st" and "i < length (as_calls st)" and "as_calls st ! i = (c, pc)"
  shows "calm pc" and "n \<le> i \<Longrightarrow> c = Ask None index \<Longrightarrow> stale_phase s index (requests i evs) pc" and "as_cache st = s"
  using assms by (auto simp: stale_ok_def)

lemma ask_step_stale:
  assumes "ask_step req ev st = Some st'" and "stale_ok s n evs st" and "without_list url s ev"
    and "hasSnapshot s" and "baseURL s = url" and "url \<noteq> ''''" and "req url = None"
  shows "stale_ok s n (evs @ [ev]) st'"
proof -
  have none: "fetch_start req (baseURL s) = None" using assms(5-7) by (simp add: fetch_start_def)
  show ?thesis
    using assms(1)
  proof (cases rule: ask_step_cases)
    case (arrive c)
    with assms(2) show ?thesis by (auto simp: stale_ok_def nth_append less_Suc_eq)
  next
    case (move i now c pc p)
    obtain pc' s' im' rm' where p: "p = (pc', s', im', rm')" by (cases p) auto
    note call = stale_ok_call [OF assms(2) move(2,3)]
    from ask_move_stale [OF move(4) [unfolded p call(3)] call(1) assms(4) _ none] assms(3) move(1)
    have next_ok: "s' = s" "calm pc'"
      "\<And>index m. c = Ask None index \<Longrightarrow> stale_phase s index m pc \<Longrightarrow> stale_phase s index m pc'" by auto
    with call assms(2) move(1,2,3) show ?thesis
      by (auto simp: stale_ok_def move(5) p with_call_def nth_list_update)
  next
    case (reply i resp c pc pc')
    note call = stale_ok_call [OF assms(2) reply(2,3)]
    obtain e where e: "check_response (baseURL (as_cache st)) resp = Inl e" using assms(3,5) reply(1) call(3) by auto
    with reply(5) call(1) have pc: "pc = RefreshFetch" "pc' = RefreshRelease" by (cases pc; auto)+
    with call assms(2) reply(1,2,3) show ?thesis
      by (auto simp: stale_ok_def reply(6) with_call_def nth_list_update)
  qed
qed

lemma ask_moves_stale:
  assumes "ask_moves req evs st = Some st'" and "stale_ok s n evs0 st" and "\<forall>ev \<in> set evs. without_list url s ev"
    and "hasSnapshot s" and "baseURL s = url" and "url \<noteq> ''''" and "req url = None"
  shows "stale_ok s n (evs0 @ evs) st'"
  using assms(1-3)
proof (induction evs arbitrary: st evs0)
  case (Cons ev evs)
  then obtain st1 where step: "ask_step req ev st = Some st1" "ask_moves req evs st1 = Some st'"
    by (auto split: option.splits)
  have "stale_ok s n (evs0 @ [ev]) st1"
    by (rule ask_step_stale [OF step(1) Cons.prems(2) _ assms(4-7)]) (use Cons.prems(3) in simp)
  with Cons.IH [OF step(2), of "evs0 @ [ev]"] Cons.prems(3) show ?case by simp
qed simp

text \<open>
  C39. While the endpoint fails, every lookup fetches for itself. Take any reachable moment at which
  a list is published and none has just been fetched, and any continuation, in any interleaving, in
  which the clock is past the expiry of this list and every response is a failure. The list stays;
  and each lookup that arrives in the continuation and is answered in it has made exactly one
  request of its own before its answer, a bit of the stale list, even if many others have failed
  for the same list while it waited for the lock. Since the requests are made under the lock, they are
  made one after the other.
\<close>

theorem failing_refresh_is_repeated:
  assumes "ask_run req url ttl evs0 st0" and "ask_moves req evs st0 = Some st"
    and "url \<noteq> ''''" and "req url = None"
    and "hasSnapshot (as_cache st0)" and "\<And>c buf. (c, RefreshPublish buf) \<notin> set (as_calls st0)"
    and "\<And>i now. Move i now \<in> set evs \<Longrightarrow> expired now (as_cache st0)"
    and "\<And>i resp. Reply i resp \<in> set evs \<Longrightarrow> \<exists>e. check_response url resp = Inl e"
  shows "as_cache st = as_cache st0 \<and>
    (\<forall>i index r. length (as_calls st0) \<le> i \<and> i < length (as_calls st) \<and> as_calls st ! i = (Ask None index, Replied r) \<longrightarrow>
       length (filter (\<lambda>ev. case ev of Reply j _ \<Rightarrow> j = i | _ \<Rightarrow> False) evs) = 1 \<and>
       r = reply_of (lookup_bit index (bitstring (as_cache st0))))"
proof -
  have ok: "ask_ok (delivered url evs0) url ttl st0" by (rule ask_run_ok [OF assms(1,3)])
  have "calm (snd (as_calls st0 ! i))" if "i < length (as_calls st0)" for i
  proof -
    obtain c pc where call: "as_calls st0 ! i = (c, pc)" by (cases "as_calls st0 ! i")
    with ok that assms(5) have "pc_ok (delivered url evs0) True c pc" by (auto simp: ask_ok_def)
    moreover have "(c, pc) \<in> set (as_calls st0)" using call that by (metis nth_mem)
    ultimately show ?thesis using call assms(6) by (cases pc) auto
  qed
  then have start: "stale_ok (as_cache st0) (length (as_calls st0)) [] st0" by (simp add: stale_ok_def)
  have "without_list url (as_cache st0) ev" if "ev \<in> set evs" for ev
  proof (cases ev)
    case (Move i now)
    with assms(7) that show ?thesis by simp
  next
    case (Reply i resp)
    with assms(8) that show ?thesis by simp
  qed simp
  moreover have "baseURL (as_cache st0) = url" using ok by (simp add: ask_ok_def cache_ok_def snapshot_ok_def)
  ultimately have "stale_ok (as_cache st0) (length (as_calls st0)) evs st"
    using ask_moves_stale [OF assms(2) start _ assms(5) _ assms(3,4)] by simp
  then show ?thesis by (fastforce simp: stale_ok_def requests_def)
qed

section \<open>Witnesses\<close>

definition good_response :: status_response where
  "good_response = StatusResponse 200 '''' (Inr [0x80, 0])"

definition bad_response :: status_response where
  "bad_response = StatusResponse 503 '''' (Inr [])"

lemma demo_responses:
  "check_response url good_response = Inr [0x80, 0]"
  "\<exists>e. check_response url bad_response = Inl e"
  by (simp_all add: check_response_def good_response_def bad_response_def maxStatusListBytes_def)

lemma demo_queue:
  "\<exists>st. ask_run (\<lambda>_. None) ''u'' 300
      (warmed_up good_response 0 @ queued 301 0 2 @ concat (map (\<lambda>j. failed_turn 301 bad_response (Suc j)) [0..<2])) st \<and>
    as_calls st = (Warm, Replied Warmed) # replicate 2 (Ask None 0, Replied (Verdict True))"
proof -
  let ?s = "published [0x80, 0] 0 (new_status_cache ''u'' 300)"
  obtain e where bad: "check_response ''u'' bad_response = Inl e" using demo_responses(2) by blast
  have s: "hasSnapshot ?s" "baseURL ?s = ''u''" "expired 301 ?s" "Verdict True = reply_of (lookup_bit 0 (bitstring ?s))"
    by (simp_all add: published_def new_status_cache_def expired_def lookup_bit_def get_bit_def)
  have "ask_moves (\<lambda>_. None) (warmed_up good_response 0 @ queued 301 0 2 @
        concat (map (\<lambda>j. failed_turn 301 bad_response (Suc j)) [0..<2])) (no_asks ''u'' 300) =
      Some (stale_state ?s 0 (Verdict True) 2 0)"
    using warmed_up_moves [where req = "\<lambda>_. None", OF _ _ demo_responses(1), of "''u''" 0 300 0 "Verdict True"]
      queued_moves [OF s(1,3), of "\<lambda>_. None" 0 2 "Verdict True"]
      failed_turns_moves [where req = "\<lambda>_. None", OF _ _ bad s(2,3,4), of 2 0] by simp
  from ask_moves_run [OF ask_run.start this] show ?thesis by (auto simp: stale_state_def stale_calls_def)
qed

theorem overlapping_lookups_safe_witness:
  "\<exists>evs buf. delivered ''u'' evs buf \<and> unat (0 :: uint64) < length (bits_of buf) \<and> True = bits_of buf ! unat (0 :: uint64)"
proof -
  obtain evs st where run: "ask_run (\<lambda>_. None) ''u'' 300 evs st"
    "as_calls st = (Warm, Replied Warmed) # replicate 2 (Ask None 0, Replied (Verdict True))"
    using demo_queue by blast
  have "1 < length (as_calls st)" and call: "as_calls st ! 1 = (Ask None 0, Replied (Verdict True))"
    by (simp_all add: run(2) numeral_2_eq_2)
  from overlapping_lookups_safe [OF run(1) _ this(1)] call show ?thesis by auto
qed

theorem overlapping_lookups_return_witness:
  "\<exists>evs st. ask_run (\<lambda>_. None) ''u'' 300 evs st \<and> length (as_calls st) = 3 \<and>
     length (filter (\<lambda>ev. \<not> is_arrival ev) evs) \<le> 13 * length (filter is_arrival evs)"
proof -
  obtain evs st where run: "ask_run (\<lambda>_. None) ''u'' 300 evs st"
    "as_calls st = (Warm, Replied Warmed) # replicate 2 (Ask None 0, Replied (Verdict True))"
    using demo_queue by blast
  then have "length (as_calls st) = 3" by simp
  with overlapping_lookups_return [OF run(1)] run(1) show ?thesis by blast
qed

theorem lookup_alone_witness:
  "\<exists>s'. goes (\<lambda>_. None) (one_call (Ask None 0) (new_status_cache ''u'' 300) (None, None) Entering)
     (one_call (Ask None 0) s' (None, None) (Replied (Verdict True)))"
proof -
  have "status_is_revoked demo_status_env None 0 (new_status_cache ''u'' 300, 0) =
      (Inr True, (\<lparr>bitstring = [0x80, 0], fetchedAt = 0, hasSnapshot = True, sc_ttl = 300, baseURL = ''u''\<rparr>, 2))"
    using demo_refresh
    by (simp add: status_is_revoked_def ensure_initial_snapshot_def)
      (simp add: new_status_cache_def refresh_if_expired_def demo_status_env_def lookup_bit_def get_bit_def)
  from lookup_alone [OF this] show ?thesis by (auto simp: demo_status_env_def)
qed

text \<open>Five lookups find the list expired; the last is answered after five failed requests, of which one is its own.\<close>

theorem failing_refresh_is_repeated_witness:
  "\<exists>st. ask_moves (\<lambda>_. None) (queued 301 0 5 @ concat (map (\<lambda>j. failed_turn 301 bad_response (Suc j)) [0..<5]))
       (stale_state (published [0x80, 0] 0 (new_status_cache ''u'' 300)) 0 (Verdict True) 0 0) = Some st \<and>
     length (as_calls st) = 6 \<and> as_calls st ! 5 = (Ask None 0, Replied (Verdict True)) \<and>
     length (filter (\<lambda>ev. case ev of Reply j _ \<Rightarrow> j = 5 | _ \<Rightarrow> False)
       (queued 301 0 5 @ concat (map (\<lambda>j. failed_turn 301 bad_response (Suc j)) [0..<5]))) = 1"
proof -
  let ?s = "published [0x80, 0] 0 (new_status_cache ''u'' 300)"
  let ?evs = "queued 301 0 5 @ concat (map (\<lambda>j. failed_turn 301 bad_response (Suc j)) [0..<5])"
  let ?before = "stale_state ?s 0 (Verdict True) 0 0" and ?after = "stale_state ?s 0 (Verdict True) 5 0"
  obtain e where bad: "check_response ''u'' bad_response = Inl e" using demo_responses(2) by blast
  have s: "hasSnapshot ?s" "baseURL ?s = ''u''" "expired 301 ?s" "Verdict True = reply_of (lookup_bit 0 (bitstring ?s))"
    by (simp_all add: published_def new_status_cache_def expired_def lookup_bit_def get_bit_def)
  have run0: "ask_run (\<lambda>_. None) ''u'' 300 (warmed_up good_response 0) ?before"
    using ask_moves_run [OF ask_run.start warmed_up_moves [where req = "\<lambda>_. None", OF _ _ demo_responses(1)]]
    by simp
  have moves: "ask_moves (\<lambda>_. None) ?evs ?before = Some ?after"
    using queued_moves [OF s(1,3), of "\<lambda>_. None" 0 5 "Verdict True"]
      failed_turns_moves [where req = "\<lambda>_. None", OF _ _ bad s(2,3,4), of 5 0] by simp
  have call: "length (as_calls ?after) = 6" "as_calls ?after ! 5 = (Ask None 0, Replied (Verdict True))"
    by (simp_all add: stale_state_def stale_calls_def nth_append)
  have "length (filter (\<lambda>ev. case ev of Reply j _ \<Rightarrow> j = 5 | _ \<Rightarrow> False) ?evs) = 1"
  proof -
    have "as_cache ?after = as_cache ?before \<and>
      (\<forall>i index r. length (as_calls ?before) \<le> i \<and> i < length (as_calls ?after) \<and> as_calls ?after ! i = (Ask None index, Replied r) \<longrightarrow>
         length (filter (\<lambda>ev. case ev of Reply j _ \<Rightarrow> j = i | _ \<Rightarrow> False) ?evs) = 1 \<and>
         r = reply_of (lookup_bit index (bitstring (as_cache ?before))))"
    proof (rule failing_refresh_is_repeated [OF run0 moves])
      show "expired now (as_cache ?before)" if "Move i now \<in> set ?evs" for i now
        using that s(3) by (auto simp: stale_state_def queued_def failed_turn_def)
      show "\<exists>e. check_response ''u'' resp = Inl e" if "Reply i resp \<in> set ?evs" for i resp
        using that bad by (auto simp: queued_def failed_turn_def)
    qed (simp_all add: stale_state_def stale_calls_def s(1))
    with call show ?thesis by (auto simp: stale_state_def stale_calls_def)
  qed
  with moves call show ?thesis by blast
qed

end
