(* ===== verification/DRS_Answers.thy ===== *)
theory DRS_Answers
  imports DRS_Demo
begin

text \<open>
  The shape of what the server answers: which status codes go with which bodies on which path, and
  when the fields of a verification result are set.
\<close>

section \<open>Results\<close>

definition result_ok :: "verification_result \<Rightarrow> bool" where
  "result_ok res =
     ((Valid res \<longleftrightarrow> Error res = None) \<and> (Valid res \<longleftrightarrow> Context res \<noteq> None) \<and>
      (\<not> Valid res \<longrightarrow> Timestamps res = [] \<and> StoreWarnings res = [] \<and> Binding res = BindNone))"

lemma result_ok_simps [simp]:
  "result_ok (invalid_result code)" "result_ok (fst (finish_chain pr d jwts rs w))"
  "result_ok (res\<lparr>Binding := l\<rparr>) \<longleftrightarrow> (if Valid res then result_ok res else l = BindNone \<and> result_ok (res\<lparr>Binding := BindNone\<rparr>))"
  by (auto simp: result_ok_def invalid_result_def finish_chain_def split_beta Let_def valid_result_def)

lemma chain_result_ok:
  assumes "chain pr sched d now b w = (Some res, w')"
  shows "result_ok res"
proof -
  have "result_ok r" if "finish_chain pr d jwts rs w1 = (r, w2)" for r jwts rs w1 w2
    using that result_ok_simps(2) [of pr d jwts rs w1] by simp
  then show ?thesis
    using assms by (auto simp: chain_def chain_decoded_def Let_def split: option.splits sum.splits prod.splits)
qed

section \<open>Answers\<close>

definition error_codes :: "nat set" where
  "error_codes = {400, 401, 404, 405, 409, 413, 429, 500, 503}"

fun typed_payload :: "string \<Rightarrow> nat \<Rightarrow> payload \<Rightarrow> bool" where
  "typed_payload path code NoPayload = (path = ''/admin/revoke'' \<and> code = 405)"
| "typed_payload path code (ErrorText e) = (code \<in> error_codes)"
| "typed_payload path code (VerifyBody res) = (path = ''/verify'' \<and> code = 200 \<and> result_ok res)"
| "typed_payload path code (HealthBody t) =
     (path = ''/healthz'' \<and> code = 200 \<or> path = ''/readyz'' \<and> code \<in> {200, 503})"
| "typed_payload path code (RevokedIndex i) = (path = ''/admin/revoke'' \<and> code = 200)"
| "typed_payload path code (AppBody t) = False"

text \<open>No response at all is a crash of the process.\<close>

definition typed_answer :: "string \<Rightarrow> response option \<Rightarrow> bool" where
  "typed_answer path resp =
     (case resp of None \<Rightarrow> path = ''/verify'' | Some (code, p) \<Rightarrow> typed_payload path code p)"

lemma typed_answer_simps [simp]:
  "typed_answer path None \<longleftrightarrow> path = ''/verify''" "typed_answer path (Some (code, p)) \<longleftrightarrow> typed_payload path code p"
  by (simp_all add: typed_answer_def)

lemma check_nonce_replay_typed:
  "check_nonce_replay js jwt ns n = (Some resp, n') \<Longrightarrow> typed_answer path (Some resp)"
  by (auto simp: check_nonce_replay_def error_codes_def split: option.splits prod.splits nonce_error.splits if_splits)

lemma verify_handler_typed:
  "verify_handler pr js vj sched now d ns mb r s = (resp, s') \<Longrightarrow> typed_answer ''/verify'' resp"
  by (auto simp: verify_handler_def error_codes_def Let_def
      split: sum.splits decode_error.splits prod.splits option.splits if_splits
      dest: chain_result_ok check_nonce_replay_typed [of js _ ns _ _ _ "''/verify''"])

lemma admin_revoke_typed:
  "typed_answer ''/admin/revoke'' (Some (fst (admin_revoke_handler sha decode revoke token r s)))"
  by (auto simp: admin_revoke_handler_def error_codes_def split: sum.split prod.split option.split)

lemma serve_typed: "serve S oc r st = (resp, st') \<Longrightarrow> typed_answer (rq_path r) resp"
proof -
  have limited: "typed_answer path (Some reject_too_many_requests)" for path
    by (simp add: reject_too_many_requests_def error_codes_def)
  obtain rl adm s rl' adm' s' where st: "st = (rl, adm, s)" "st' = (rl', adm', s')" by (cases st; cases st') auto
  assume "serve S oc r st = (resp, st')"
  from rate_middleware_pass [OF this [unfolded serve_def st]]
  consider "resp = Some reject_too_many_requests" | (mux) "serve_mux S oc r (adm, s) = (resp, (adm', s'))" by auto
  then show ?thesis
  proof cases
    case mux
    consider "rq_path r = ''/verify''" | "rq_path r = ''/admin/revoke''" | "rq_path r \<notin> {''/verify'', ''/admin/revoke''}"
      by blast
    then show ?thesis
    proof cases
      case 1
      with mux show ?thesis by (auto simp: serve_mux_def intro: verify_handler_typed split: prod.splits)
    next
      case 2
      with mux have "rate_middleware (sv_limiter S) (sv_lru S) (sv_oor S) (sv_parse_ip S) (oc_admin oc)
          (admin_handler S oc) r (adm, s) = (resp, (adm', s'))" by (simp add: serve_mux_def)
      from rate_middleware_pass [OF this] 2 limited admin_revoke_typed show ?thesis
        by (auto simp: admin_handler_def split_beta Let_def)
    next
      case 3
      with mux show ?thesis
        by (auto simp: serve_mux_def liveness_def readiness_def error_codes_def split: if_splits)
    qed
  qed (simp add: limited)
qed

text \<open>
  C34. Every answer of the server is well formed. A run answers its requests in order, each with a
  status code and a body that belong to its path: a verification result only from \<^verbatim>\<open>/verify\<close> with
  200, with an error code exactly when it is not valid and a context exactly when it is, and
  without timestamps, warnings or a binding label when it is not; a revoked index only from
  \<^verbatim>\<open>/admin/revoke\<close> with 200; everything else is an error text with an error status. No answer is
  missing except after a crash, which only \<^verbatim>\<open>/verify\<close> can cause and which ends the run.
\<close>

theorem server_answers_typed:
  "case serve_all S calls st of (resps, st') \<Rightarrow>
     length resps \<le> length calls \<and> (None \<notin> set resps \<longrightarrow> length resps = length calls) \<and>
     (\<forall>i < length resps. typed_answer (rq_path (snd (calls ! i))) (resps ! i) \<and>
        (resps ! i = None \<longrightarrow> Suc i = length resps))"
proof (induction calls arbitrary: st)
  case (Cons c calls)
  obtain oc r where c: "c = (oc, r)" by (cases c)
  obtain resp st1 where step: "serve S oc r st = (resp, st1)" by (cases "serve S oc r st")
  show ?case
  proof (cases resp)
    case None
    with step serve_typed [OF step] c show ?thesis by simp
  next
    case (Some a)
    with step serve_typed [OF step] c Cons.IH [of st1] show ?thesis
      by (auto simp: All_less_Suc2 split: prod.splits)
  qed
qed simp

theorem server_answers_typed_witness:
  "\<exists>st. serve_all (demo_server demo_deps (\<lambda>_ _ w. (None, w)))
      [(demo_occasion 290 290, demo_request ''/verify'')] (demo_limiter, demo_limiter, (), nonce_new 5 (60 * second)) =
    ([Some (200, VerifyBody demo_result)], st) \<and> result_ok demo_result"
proof -
  obtain n' where "nonce_check 290 ''inv:1'' (nonce_new 5 (60 * second)) = (None, n')"
    by (simp add: nonce_check_def nonce_insert_def nonce_evict_def nonce_new_def Let_def)
  from demo_serve_verify [OF this, of 290 "\<lambda>_ _ w. (None, w)" demo_limiter demo_limiter "()"] obtain st where
      "serve_all (demo_server demo_deps (\<lambda>_ _ w. (None, w)))
        [(demo_occasion 290 290, demo_request ''/verify'')] (demo_limiter, demo_limiter, (), nonce_new 5 (60 * second)) =
       ([Some (200, VerifyBody demo_result)], st)"
    by auto
  note run = this
  have "result_ok demo_result"
    using server_answers_typed [where S = "demo_server demo_deps (\<lambda>_ _ w. (None, w))"
        and st = "(demo_limiter, demo_limiter, (), nonce_new 5 (60 * second))"
        and calls = "[(demo_occasion 290 290, demo_request ''/verify'')]"] run
    by (auto simp del: serve_all.simps)
  with run show ?thesis by blast
qed

end
