(* ===== verification/DRS_Metrics.thy ===== *)
theory DRS_Metrics
  imports DRS_Answers
begin

text \<open>
  \<^verbatim>\<open>pkg/metrics/metrics.go\<close> and the places that count: \<^verbatim>\<open>CheckNonceReplay\<close>, \<^verbatim>\<open>checkRequestBinding\<close> and
  \<^verbatim>\<open>verifyHandler\<close>. The Prometheus registry is a map from the name of a series and its label values to
  a count; of the histogram the observations are kept. The counted versions are shown to do what the
  uncounted ones do.
\<close>

section \<open>The metrics\<close>

record metric =
  Namespace :: string
  Subsystem :: string
  Name :: string
  Labels :: "string list"

definition Verifications :: metric where
  "Verifications = \<lparr>Namespace = ''drs'', Subsystem = ''verify'', Name = ''verifications_total'', Labels = [''result'']\<rparr>"

definition DIDResolutions :: metric where
  "DIDResolutions =
     \<lparr>Namespace = ''drs'', Subsystem = ''resolver'', Name = ''resolutions_total'', Labels = [''method'', ''result'']\<rparr>"

definition RevocationLookups :: metric where
  "RevocationLookups =
     \<lparr>Namespace = ''drs'', Subsystem = ''revocation'', Name = ''lookups_total'', Labels = [''source'', ''revoked'']\<rparr>"

definition NonceChecks :: metric where
  "NonceChecks = \<lparr>Namespace = ''drs'', Subsystem = ''nonce'', Name = ''checks_total'', Labels = [''result'']\<rparr>"

definition BindingChecks :: metric where
  "BindingChecks = \<lparr>Namespace = ''drs'', Subsystem = ''binding'', Name = ''checks_total'', Labels = [''result'']\<rparr>"

definition RequestDuration :: metric where
  "RequestDuration =
     \<lparr>Namespace = ''drs'', Subsystem = ''http'', Name = ''request_duration_seconds'', Labels = [''endpoint'']\<rparr>"

text \<open>\<^verbatim>\<open>prometheus.BuildFQName\<close>; \<^verbatim>\<open>promauto\<close> panics when one name is registered twice.\<close>

definition fq_name :: "metric \<Rightarrow> string" where
  "fq_name M = Namespace M @ ''_'' @ Subsystem M @ ''_'' @ Name M"

definition registered :: "metric list" where
  "registered = [Verifications, DIDResolutions, RevocationLookups, NonceChecks, BindingChecks, RequestDuration]"

lemma fq_names [simp]:
  "fq_name Verifications = ''drs_verify_verifications_total''"
  "fq_name DIDResolutions = ''drs_resolver_resolutions_total''"
  "fq_name RevocationLookups = ''drs_revocation_lookups_total''"
  "fq_name NonceChecks = ''drs_nonce_checks_total''"
  "fq_name BindingChecks = ''drs_binding_checks_total''"
  "fq_name RequestDuration = ''drs_http_request_duration_seconds''"
  by (simp_all add: fq_name_def Verifications_def DIDResolutions_def RevocationLookups_def NonceChecks_def
      BindingChecks_def RequestDuration_def)

lemma registration_succeeds: "distinct (map fq_name registered)"
  by (simp add: registered_def)

record metrics =
  counts :: "string \<Rightarrow> string list \<Rightarrow> nat"
  observations :: "string \<Rightarrow> string list \<Rightarrow> int list"

definition no_metrics :: metrics where
  "no_metrics = \<lparr>counts = (\<lambda>_ _. 0), observations = (\<lambda>_ _. [])\<rparr>"

text \<open>\<^verbatim>\<open>WithLabelValues\<close> panics when the number of values is not that of the labels.\<close>

definition labels_fit :: "metric \<Rightarrow> string list \<Rightarrow> bool" where
  "labels_fit M ls = (length ls = length (Labels M))"

definition inc :: "metric \<Rightarrow> string list \<Rightarrow> metrics \<Rightarrow> metrics" where
  "inc M ls m = m\<lparr>counts := (counts m)(fq_name M := (counts m (fq_name M))(ls := Suc (counts m (fq_name M) ls)))\<rparr>"

definition observe :: "metric \<Rightarrow> string list \<Rightarrow> int \<Rightarrow> metrics \<Rightarrow> metrics" where
  "observe M ls v m =
     m\<lparr>observations := (observations m)(fq_name M := (observations m (fq_name M))(ls := v # observations m (fq_name M) ls))\<rparr>"

definition count :: "metrics \<Rightarrow> metric \<Rightarrow> string list \<Rightarrow> nat" where
  "count m M ls = counts m (fq_name M) ls"

definition observed :: "metrics \<Rightarrow> metric \<Rightarrow> string list \<Rightarrow> int list" where
  "observed m M ls = observations m (fq_name M) ls"

lemma metrics_simps [simp]:
  "count (inc M ls m) M' ls' = (if fq_name M = fq_name M' \<and> ls = ls' then Suc (count m M' ls') else count m M' ls')"
  "count (observe M ls v m) M' ls' = count m M' ls'"
  "observed (observe M ls v m) M' ls' =
     (if fq_name M = fq_name M' \<and> ls = ls' then v # observed m M' ls' else observed m M' ls')"
  "observed (inc M ls m) M' ls' = observed m M' ls'"
  "count no_metrics M' ls' = 0" "observed no_metrics M' ls' = []"
  by (auto simp: inc_def observe_def count_def observed_def no_metrics_def)

section \<open>The counting operations\<close>


definition check_request_binding_counted ::
  "json_ops \<Rightarrow> request \<Rightarrow> string \<Rightarrow> string \<Rightarrow> metrics \<Rightarrow> (response + request) \<times> metrics" where
  "check_request_binding_counted js r invocation mode m =
     (if mode = BindingModeOff then (Inr r, inc BindingChecks [''off''] m)
      else case read_all (max_bytes_reader maxBindingBodyBytes (rq_body r)) of
             Inl TooLarge \<Rightarrow> (Inl (413, ErrorText ''BINDING_BODY_TOO_LARGE''), inc BindingChecks [''body_too_large''] m)
           | Inl _ \<Rightarrow> (Inl (400, ErrorText ''BINDING_BODY_READ_ERROR''), inc BindingChecks [''read_error''] m)
           | Inr body \<Rightarrow>
               let r' = r\<lparr>rq_body := (body, AtEOF)\<rparr> in
               (case decode_invocation_args js invocation of
                  None \<Rightarrow> (if mode = BindingModeEnforced then Inl (400, ErrorText ''BINDING_INVALID_INVOCATION'') else Inr r',
                           inc BindingChecks [''invalid_body''] m)
                | Some a \<Rightarrow>
                    (case binding_check js body a of
                       Some _ \<Rightarrow>
                         if mode = BindingModeEnforced
                         then (Inl (403, ErrorText ''BINDING_MISMATCH''), inc BindingChecks [''mismatch_enforced''] m)
                         else (Inr r', inc BindingChecks [''mismatch_lenient''] m)
                     | None \<Rightarrow>
                         (Inr r', if length (trim_space body) = 0 \<and> is_empty_args a
                                  then inc BindingChecks [''empty_match''] m
                                  else inc BindingChecks [''match''] m))))"

fun binding_text :: "binding_label \<Rightarrow> string" where
  "binding_text BindNone = ''''"
| "binding_text BindMatch = ''match''"
| "binding_text BindMismatch = ''mismatch''"
| "binding_text BindEmptyMatch = ''empty_match''"
| "binding_text BindInvalidBody = ''invalid_body''"






section \<open>Counting does not interfere\<close>

text \<open>The label of a nonce check can be read off its answer.\<close>

definition nonce_text :: "response option \<Rightarrow> string" where
  "nonce_text resp =
     (case resp of
        None \<Rightarrow> ''accepted''
      | Some (code, p) \<Rightarrow>
          if code = 409 then ''replay''
          else if code = 503
          then if p = ErrorText ''NONCE_REPLAY_PROTECTION_UNAVAILABLE'' then ''disabled'' else ''exhausted''
          else if p = ErrorText ''cannot decode invocation JTI'' then ''decode_error'' else ''missing_jti'')"


lemma check_request_binding_erase:
  "fst (check_request_binding_counted js r jwt mode m) = check_request_binding js r jwt mode"
  by (simp add: check_request_binding_def check_request_binding_counted_def Let_def
      split: sum.split stream_end.split option.split)







section \<open>The books\<close>

definition valid_answer :: "response option \<Rightarrow> bool" where
  "valid_answer resp = (case resp of Some (code, VerifyBody res) \<Rightarrow> code = 200 \<and> Valid res | _ \<Rightarrow> False)"

definition invalid_answer :: "response option \<Rightarrow> bool" where
  "invalid_answer resp = (case resp of Some (code, VerifyBody res) \<Rightarrow> code = 200 \<and> \<not> Valid res | _ \<Rightarrow> False)"

lemma answer_simps [simp]:
  "c \<noteq> 200 \<Longrightarrow> \<not> valid_answer (Some (c, p))" "c \<noteq> 200 \<Longrightarrow> \<not> invalid_answer (Some (c, p))"
  "valid_answer (Some (200, VerifyBody res)) \<longleftrightarrow> Valid res"
  "invalid_answer (Some (200, VerifyBody res)) \<longleftrightarrow> \<not> Valid res"
  "\<not> valid_answer None" "\<not> invalid_answer None"
  by (simp_all add: valid_answer_def invalid_answer_def split: payload.split)

definition nonce_labels :: "string list" where
  "nonce_labels = [''accepted'', ''replay'', ''exhausted'', ''missing_jti'', ''decode_error'', ''disabled'']"

definition binding_labels :: "string list" where
  "binding_labels = ['''', ''match'', ''mismatch'', ''empty_match'', ''invalid_body'']"

definition total :: "metrics \<Rightarrow> metric \<Rightarrow> string list \<Rightarrow> nat" where
  "total m M labels = sum_list (map (\<lambda>l. count m M [l]) labels)"

lemma total_absent: "l \<notin> set labels \<Longrightarrow> total (inc M [l] m) M labels = total m M labels"
  by (induction labels) (simp_all add: total_def)

lemma total_inc:
  "distinct labels \<Longrightarrow> l \<in> set labels \<Longrightarrow> total (inc M [l] m) M labels = Suc (total m M labels)"
proof (induction labels)
  case (Cons x labels)
  then show ?case using total_absent [of l labels M m] by (auto simp: total_def)
qed simp

lemma total_other [simp]:
  "fq_name M \<noteq> fq_name M' \<Longrightarrow> total (inc M ls m) M' labels = total m M' labels"
  "total (observe M ls v m) M' labels = total m M' labels"
  by (simp_all add: total_def)

lemma labels_distinct [simp]: "distinct nonce_labels" "distinct binding_labels"
  by (simp_all add: nonce_labels_def binding_labels_def)

lemma nonce_text_label [simp]: "nonce_text resp \<in> set nonce_labels"
  by (simp add: nonce_text_def nonce_labels_def split: option.split prod.split)

lemma binding_text_label [simp]: "binding_text l \<in> set binding_labels"
  by (cases l) (simp_all add: binding_labels_def)

lemma nonce_text_accepted [simp]: "nonce_text resp = ''accepted'' \<longleftrightarrow> resp = None"
  by (simp add: nonce_text_def split: option.split prod.split)




lemma nonce_total_inc [simp]:
  "total (inc NonceChecks [nonce_text nr] m) NonceChecks nonce_labels = Suc (total m NonceChecks nonce_labels)"
  "total (inc BindingChecks [binding_text l] m) BindingChecks binding_labels = Suc (total m BindingChecks binding_labels)"
  by (rule total_inc; simp)+







end
