(* ===== verification/DRS_Flight.thy ===== *)
theory DRS_Flight
  imports DRS_Resolver
begin

text \<open>
  \<^verbatim>\<open>Resolve\<close> of \<^verbatim>\<open>pkg/resolver/did.go\<close> under concurrency: calls that overlap, the cache and the
  \<^verbatim>\<open>inflight\<close> map that lets calls wait for a resolution under way. Each step is one critical
  section, one wait or one resolution; \<open>fetch did out\<close> says that \<^verbatim>\<open>resolveUncached\<close> may give \<open>out\<close>,
  \<open>ctx i\<close> that the context of call \<open>i\<close> is cancelled while it waits. Expiry and eviction are
  nondeterministic: a lookup may miss, an insertion may drop entries.
\<close>

section \<open>State and steps\<close>

datatype call_pc =
    Lookup
  | Missed
  | Waiting nat
  | Fetching nat
  | Published nat resolve_outcome
  | Removed resolve_outcome
  | Returned resolve_outcome

record flight_call =
  fc_did :: string
  fc_pc :: call_pc

record flight =
  fl_cache :: "string \<rightharpoonup> byte list"
  fl_inflight :: "string \<rightharpoonup> nat"
  fl_entries :: "resolve_outcome option list"
  fl_calls :: "flight_call list"

abbreviation call_at :: "flight \<Rightarrow> nat \<Rightarrow> string \<Rightarrow> call_pc \<Rightarrow> bool" where
  "call_at s i did pc \<equiv> i < length (fl_calls s) \<and> fl_calls s ! i = \<lparr>fc_did = did, fc_pc = pc\<rparr>"

definition goto :: "nat \<Rightarrow> call_pc \<Rightarrow> flight \<Rightarrow> flight" where
  "goto i pc s = s\<lparr>fl_calls := (fl_calls s)[i := (fl_calls s ! i)\<lparr>fc_pc := pc\<rparr>]\<rparr>"

definition cancelled :: resolve_outcome where
  "cancelled = ResolveError ''context canceled''"

inductive flight_step ::
  "(string \<Rightarrow> resolve_outcome \<Rightarrow> bool) \<Rightarrow> (nat \<Rightarrow> bool) \<Rightarrow> flight \<Rightarrow> flight \<Rightarrow> bool" for fetch ctx where
  hit: "call_at s i did Lookup \<Longrightarrow> fl_cache s did = Some key \<Longrightarrow>
    flight_step fetch ctx s (goto i (Returned (Resolved key)) s)"
| miss: "call_at s i did Lookup \<Longrightarrow>
    flight_step fetch ctx s (goto i Missed (s\<lparr>fl_cache := (fl_cache s)(did := None)\<rparr>))"
| join: "call_at s i did Missed \<Longrightarrow> fl_inflight s did = Some a \<Longrightarrow> flight_step fetch ctx s (goto i (Waiting a) s)"
| lead: "call_at s i did Missed \<Longrightarrow> fl_inflight s did = None \<Longrightarrow> a = length (fl_entries s) \<Longrightarrow>
    flight_step fetch ctx s (goto i (Fetching a)
      (s\<lparr>fl_entries := fl_entries s @ [None], fl_inflight := (fl_inflight s)(did \<mapsto> a)\<rparr>))"
| cancel: "call_at s i did (Waiting a) \<Longrightarrow> ctx i \<Longrightarrow> flight_step fetch ctx s (goto i (Returned cancelled) s)"
| wake: "call_at s i did (Waiting a) \<Longrightarrow> fl_entries s ! a = Some out \<Longrightarrow> flight_step fetch ctx s (goto i (Returned out) s)"
| publish: "call_at s i did (Fetching a) \<Longrightarrow> fetch did out \<Longrightarrow>
    flight_step fetch ctx s (goto i (Published a out) (s\<lparr>fl_entries := (fl_entries s)[a := Some out]\<rparr>))"
| unlist: "call_at s i did (Published a out) \<Longrightarrow>
    flight_step fetch ctx s (goto i (Removed out) (s\<lparr>fl_inflight := (fl_inflight s)(did := None)\<rparr>))"
| store: "call_at s i did (Removed (Resolved key)) \<Longrightarrow> c did = Some key \<Longrightarrow> c \<subseteq>\<^sub>m (fl_cache s)(did \<mapsto> key) \<Longrightarrow>
    flight_step fetch ctx s (goto i (Returned (Resolved key)) (s\<lparr>fl_cache := c\<rparr>))"
| fail: "call_at s i did (Removed out) \<Longrightarrow> \<forall>key. out \<noteq> Resolved key \<Longrightarrow>
    flight_step fetch ctx s (goto i (Returned out) s)"

inductive flight_steps ::
  "(string \<Rightarrow> resolve_outcome \<Rightarrow> bool) \<Rightarrow> (nat \<Rightarrow> bool) \<Rightarrow> nat \<Rightarrow> flight \<Rightarrow> flight \<Rightarrow> bool" for fetch ctx where
  none: "flight_steps fetch ctx 0 s s"
| more: "flight_steps fetch ctx n s s' \<Longrightarrow> flight_step fetch ctx s' s'' \<Longrightarrow> flight_steps fetch ctx (Suc n) s s''"

text \<open>The calls arrive at an idle resolver whose cache holds earlier results.\<close>

definition arriving :: "(string \<rightharpoonup> byte list) \<Rightarrow> string list \<Rightarrow> flight" where
  "arriving c dids =
     \<lparr>fl_cache = c, fl_inflight = Map.empty, fl_entries = [],
      fl_calls = map (\<lambda>d. \<lparr>fc_did = d, fc_pc = Lookup\<rparr>) dids\<rparr>"

section \<open>The invariant\<close>

fun call_ok :: "(string \<Rightarrow> resolve_outcome \<Rightarrow> bool) \<Rightarrow> flight \<Rightarrow> string \<Rightarrow> call_pc \<Rightarrow> bool" where
  "call_ok fetch s did Lookup = True"
| "call_ok fetch s did Missed = True"
| "call_ok fetch s did (Waiting a) =
     (a < length (fl_entries s) \<and>
      (case fl_entries s ! a of Some out \<Rightarrow> fetch did out | None \<Rightarrow> fl_inflight s did = Some a))"
| "call_ok fetch s did (Fetching a) =
     (a < length (fl_entries s) \<and> fl_entries s ! a = None \<and> fl_inflight s did = Some a)"
| "call_ok fetch s did (Published a out) =
     (a < length (fl_entries s) \<and> fl_entries s ! a = Some out \<and> fl_inflight s did = Some a \<and> fetch did out)"
| "call_ok fetch s did (Removed out) = fetch did out"
| "call_ok fetch s did (Returned out) = (fetch did out \<or> out = cancelled)"

fun leads :: "call_pc \<Rightarrow> nat \<Rightarrow> bool" where
  "leads (Fetching a) b = (a = b)"
| "leads (Published a out) b = (a = b)"
| "leads _ b = False"

definition flight_ok :: "(string \<Rightarrow> resolve_outcome \<Rightarrow> bool) \<Rightarrow> flight \<Rightarrow> bool" where
  "flight_ok fetch s =
     ((\<forall>did key. fl_cache s did = Some key \<longrightarrow> fetch did (Resolved key)) \<and>
      (\<forall>i did pc. call_at s i did pc \<longrightarrow> call_ok fetch s did pc) \<and>
      (\<forall>did a. fl_inflight s did = Some a \<longrightarrow> (\<exists>i pc. call_at s i did pc \<and> leads pc a)) \<and>
      (\<forall>i j did did' pc pc' a. call_at s i did pc \<longrightarrow> call_at s j did' pc' \<longrightarrow> leads pc a \<longrightarrow> leads pc' a \<longrightarrow> i = j))"

lemma at_goto:
  "call_at (goto i pc s) j did pc' \<longleftrightarrow>
     (if i = j then i < length (fl_calls s) \<and> fc_did (fl_calls s ! i) = did \<and> pc' = pc else call_at s j did pc')"
  by (cases "fl_calls s ! i") (auto simp: goto_def nth_list_update)

lemma at_update [simp]:
  "call_at (s\<lparr>fl_cache := c\<rparr>) i did pc = call_at s i did pc" "call_at (s\<lparr>fl_entries := e\<rparr>) i did pc = call_at s i did pc"
  "call_at (s\<lparr>fl_inflight := f\<rparr>) i did pc = call_at s i did pc"
  by simp_all

lemma goto_simps [simp]:
  "fl_cache (goto i pc s) = fl_cache s" "fl_inflight (goto i pc s) = fl_inflight s"
  "fl_entries (goto i pc s) = fl_entries s"
  by (simp_all add: goto_def)

lemma call_ok_goto [simp]: "call_ok fetch (goto i pc s) did pc' = call_ok fetch s did pc'"
  by (cases pc') (simp_all split: option.split)

text \<open>A step changes one call; this is what has to be shown for it.\<close>

lemma flight_ok_goto:
  assumes "flight_ok fetch s" and "call_at s i did pc"
    and same: "fl_calls s' = fl_calls s"
    and cache: "\<And>d key. fl_cache s' d = Some key \<Longrightarrow> fetch d (Resolved key)"
    and others: "\<And>j d p. j \<noteq> i \<Longrightarrow> call_at s j d p \<Longrightarrow> call_ok fetch s d p \<Longrightarrow> call_ok fetch s' d p"
    and mine: "call_ok fetch s' did pc'"
    and listed: "\<And>d a. fl_inflight s' d = Some a \<Longrightarrow>
       d = did \<and> leads pc' a \<or> fl_inflight s d = Some a \<and> \<not> (leads pc a)"
    and unique: "\<And>a j d p. leads pc' a \<Longrightarrow> leads pc a \<or> \<not> (call_at s j d p \<and> leads p a)"
  shows "flight_ok fetch (goto i pc' s')"
proof -
  have at': "call_at s' j d p \<longleftrightarrow> call_at s j d p" for j d p using same by simp
  have i: "i < length (fl_calls s')" "fc_did (fl_calls s' ! i) = did" using assms(2) same by auto
  note ok = assms(1) [unfolded flight_ok_def]
  have atg: "call_at (goto i pc' s') j d p \<longleftrightarrow> (if i = j then d = did \<and> p = pc' else call_at s j d p)" for j d p
    using at_goto [where i = i and pc = pc' and s = s' and j = j and did = d and pc' = p] i at' by auto
  show ?thesis
    unfolding flight_ok_def atg
  proof (intro conjI allI impI)
    fix d key assume "fl_cache (goto i pc' s') d = Some key"
    with cache show "fetch d (Resolved key)" by simp
  next
    fix j d p assume "if i = j then d = did \<and> p = pc' else call_at s j d p"
    then show "call_ok fetch (goto i pc' s') d p"
      using mine others [of j d p] ok by (auto split: if_splits)
  next
    fix d a assume "fl_inflight (goto i pc' s') d = Some a"
    then consider "d = did" "leads pc' a" | "fl_inflight s d = Some a" "\<not> leads pc a" using listed by auto
    then show "\<exists>j p. (if i = j then d = did \<and> p = pc' else call_at s j d p) \<and> leads p a"
    proof cases
      case 2
      then obtain j p where "call_at s j d p" "leads p a" using ok by blast
      with 2 assms(2) have "j \<noteq> i" by auto
      with \<open>call_at s j d p\<close> \<open>leads p a\<close> show ?thesis by auto
    qed auto
  next
    fix j k d d' p p' a
    assume a: "if i = j then d = did \<and> p = pc' else call_at s j d p" "if i = k then d' = did \<and> p' = pc' else call_at s k d' p'"
      "leads p a" "leads p' a"
    show "j = k"
    proof (cases "i = j"; cases "i = k")
      assume "i = j" "i \<noteq> k"
      with a have "leads pc' a" "call_at s k d' p'" by simp_all
      with unique [of a k d' p'] a(4) have "leads pc a" by blast
      with ok assms(2) \<open>call_at s k d' p'\<close> a(4) have "i = k" by blast
      with \<open>i = j\<close> show ?thesis by simp
    next
      assume "i \<noteq> j" "i = k"
      with a have "leads pc' a" "call_at s j d p" by simp_all
      with unique [of a j d p] a(3) have "leads pc a" by blast
      with ok assms(2) \<open>call_at s j d p\<close> a(3) have "i = j" by blast
      with \<open>i = k\<close> show ?thesis by simp
    next
      assume "i \<noteq> j" "i \<noteq> k"
      with a have "call_at s j d p" "call_at s k d' p'" by simp_all
      with a(3,4) ok show ?thesis by blast
    qed simp
  qed
qed

lemma flight_step_ok:
  assumes "flight_step fetch ctx s s'" and ok: "flight_ok fetch s"
  shows "flight_ok fetch s'"
proof -
  have c: "\<And>d key. fl_cache s d = Some key \<Longrightarrow> fetch d (Resolved key)"
    and calls: "\<And>i did pc. call_at s i did pc \<Longrightarrow> call_ok fetch s did pc"
    and led: "\<And>did a. fl_inflight s did = Some a \<Longrightarrow> \<exists>i pc. call_at s i did pc \<and> leads pc a"
    and uniq: "\<And>i j did did' pc pc' a. call_at s i did pc \<Longrightarrow> call_at s j did' pc' \<Longrightarrow> leads pc a \<Longrightarrow> leads pc' a \<Longrightarrow> i = j"
    using ok unfolding flight_ok_def by blast+
  have inj: "d = d'" if h: "fl_inflight s d = Some a" "fl_inflight s d' = Some a" for d d' a
  proof -
    obtain i pc j pc' where "call_at s i d pc" "leads pc a" "call_at s j d' pc'" "leads pc' a"
      using led [OF h(1)] led [OF h(2)] by blast
    with uniq [of i d pc j d' pc' a] show ?thesis by auto
  qed
  show ?thesis
    using assms(1)
  proof cases
    case (hit i did key)
    show ?thesis unfolding hit(1) by (rule flight_ok_goto [OF ok hit(2)]) (use c hit(3) in auto)
  next
    case (miss i did)
    have eq: "call_ok fetch (s\<lparr>fl_cache := x\<rparr>) d p = call_ok fetch s d p" for x d p
      by (cases p) (simp_all split: option.split)
    show ?thesis
      unfolding miss(1)
      by (rule flight_ok_goto [OF ok miss(2)]) (use c in \<open>auto simp: eq split: if_splits\<close>)
  next
    case (join i did a)
    obtain j p where j: "call_at s j did p" "leads p a" using led [OF join(3)] by blast
    then have w: "call_ok fetch s did (Waiting a)" using calls [OF j(1)] by (cases p) auto
    show ?thesis unfolding join(1) by (rule flight_ok_goto [OF ok join(2)]) (use c w in auto)
  next
    case (lead i did a)
    have old: "b < length (fl_entries s)" if "call_at s j d p" "leads p b" for j d p b
      using calls [OF that(1)] that(2) by (cases p) auto
    have keep: "call_ok fetch (s\<lparr>fl_entries := fl_entries s @ [None], fl_inflight := (fl_inflight s)(did \<mapsto> a)\<rparr>) d p"
      if "call_ok fetch s d p" for d p
      using that lead(3) by (cases p) (auto simp: nth_append split: option.splits)
    show ?thesis
      unfolding lead(1)
    proof (rule flight_ok_goto [OF ok lead(2)], goal_cases)
      case (5 d b)
      then show ?case using lead(3) led by (auto split: if_splits)
    next
      case (6 b j d p)
      then show ?case using old [of j d p b] lead(4) by auto
    qed (use c keep lead(4) in auto)
  next
    case (cancel i did a)
    show ?thesis unfolding cancel(1) by (rule flight_ok_goto [OF ok cancel(2)]) (use c in auto)
  next
    case (wake i did a out)
    have f: "fetch did out" using calls [OF wake(2)] wake(3) by simp
    show ?thesis unfolding wake(1) by (rule flight_ok_goto [OF ok wake(2)]) (use c f in auto)
  next
    case (publish i did a out)
    have me: "a < length (fl_entries s)" "fl_entries s ! a = None" "fl_inflight s did = Some a"
      using calls [OF publish(2)] by auto
    have keep: "call_ok fetch (s\<lparr>fl_entries := (fl_entries s)[a := Some out]\<rparr>) d p"
      if "j \<noteq> i" "call_at s j d p" "call_ok fetch s d p" for j d p
    proof (cases p)
      case (Waiting b)
      then show ?thesis using that(3) me inj [of d a did] publish(3)
        by (cases "a = b") (auto simp: nth_list_update split: option.splits)
    next
      case (Fetching b)
      with uniq [OF that(2) publish(2), of a] that(1) have "b \<noteq> a" by auto
      with Fetching that(3) show ?thesis by simp
    next
      case (Published b x)
      with that(3) me(2) have "b \<noteq> a" by auto
      with Published that(3) show ?thesis by simp
    qed (use that(3) in auto)
    show ?thesis
      unfolding publish(1)
    proof (rule flight_ok_goto [OF ok publish(2)], goal_cases)
      case (3 j d p)
      then show ?case by (intro keep)
    next
      case (5 d b)
      then show ?case using inj [of d a did] me(3) by (cases "b = a") auto
    qed (use c me publish(3) in auto)
  next
    case (unlist i did a out)
    have me: "a < length (fl_entries s)" "fl_entries s ! a = Some out" "fl_inflight s did = Some a" "fetch did out"
      using calls [OF unlist(2)] by auto
    have keep: "call_ok fetch (s\<lparr>fl_inflight := (fl_inflight s)(did := None)\<rparr>) d p"
      if "j \<noteq> i" "call_at s j d p" "call_ok fetch s d p" for j d p
    proof (cases "d = did")
      case True
      have "\<not> leads p a" using uniq [OF that(2) unlist(2), of a] that(1) by auto
      with True that(3) me show ?thesis by (cases p) (auto split: option.splits)
    next
      case False
      with that(3) show ?thesis by (cases p) (auto split: option.splits)
    qed
    show ?thesis
      unfolding unlist(1)
    proof (rule flight_ok_goto [OF ok unlist(2)], goal_cases)
      case (3 j d p)
      then show ?case by (intro keep)
    next
      case (5 d b)
      then show ?case using inj [of d b did] me(3) by (auto split: if_splits)
    qed (use c me in auto)
  next
    case (store i did key ca)
    have eq: "call_ok fetch (s\<lparr>fl_cache := x\<rparr>) d p = call_ok fetch s d p" for x d p
      by (cases p) (simp_all split: option.split)
    have f: "fetch did (Resolved key)" using calls [OF store(2)] by simp
    have new: "fetch d (Resolved k)" if "ca d = Some k" for d k
      using map_le_Some [OF store(4) that] f c by (auto split: if_splits)
    show ?thesis unfolding store(1) by (rule flight_ok_goto [OF ok store(2)]) (use f new in \<open>auto simp: eq\<close>)
  next
    case (fail i did out)
    have f: "fetch did out" using calls [OF fail(2)] fail(3) by simp
    show ?thesis unfolding fail(1) by (rule flight_ok_goto [OF ok fail(2)]) (use c f in auto)
  qed
qed

lemma arriving_ok:
  assumes "\<And>did key. c did = Some key \<Longrightarrow> fetch did (Resolved key)"
  shows "flight_ok fetch (arriving c dids)"
  using assms by (auto simp: flight_ok_def arriving_def)

lemma flight_steps_ok: "flight_steps fetch ctx n s s' \<Longrightarrow> flight_ok fetch s \<Longrightarrow> flight_ok fetch s'"
  by (induction rule: flight_steps.induct) (auto intro: flight_step_ok)

section \<open>Every call returns\<close>

fun pc_rank :: "call_pc \<Rightarrow> nat" where
  "pc_rank Lookup = 5"
| "pc_rank Missed = 4"
| "pc_rank (Fetching a) = 3"
| "pc_rank (Published a out) = 2"
| "pc_rank (Waiting a) = 1"
| "pc_rank (Removed out) = 1"
| "pc_rank (Returned out) = 0"

definition flight_rank :: "flight \<Rightarrow> nat" where
  "flight_rank s = sum_list (map (\<lambda>c. pc_rank (fc_pc c)) (fl_calls s))"

lemma flight_rank_goto:
  assumes "call_at s i did pc" and "fl_calls s' = fl_calls s" and "pc_rank pc' < pc_rank pc"
  shows "flight_rank (goto i pc' s') < flight_rank s"
  using assms sum_rank_update [of i "fl_calls s" "\<lambda>c. pc_rank (fc_pc c)" "\<lparr>fc_did = did, fc_pc = pc'\<rparr>"]
  by (simp add: flight_rank_def goto_def)

lemma flight_step_rank: "flight_step fetch ctx s s' \<Longrightarrow> flight_rank s' < flight_rank s"
  by (induction rule: flight_step.induct) (erule flight_rank_goto; simp)+

lemma flight_steps_rank: "flight_steps fetch ctx n s s' \<Longrightarrow> flight_rank s' + n \<le> flight_rank s"
  by (induction rule: flight_steps.induct) (auto dest: flight_step_rank)

lemma flight_step_dids: "flight_step fetch ctx s s' \<Longrightarrow> map fc_did (fl_calls s') = map fc_did (fl_calls s)"
proof -
  have "map fc_did (fl_calls (goto i pc s)) = map fc_did (fl_calls s)" for i pc s
    by (cases "i < length (fl_calls s)") (simp_all add: goto_def map_update list_update_beyond list_update_same_conv)
  then show "flight_step fetch ctx s s' \<Longrightarrow> map fc_did (fl_calls s') = map fc_did (fl_calls s)"
    by (auto elim!: flight_step.cases)
qed

lemma flight_steps_dids: "flight_steps fetch ctx n s s' \<Longrightarrow> map fc_did (fl_calls s') = map fc_did (fl_calls s)"
  by (induction rule: flight_steps.induct) (simp_all add: flight_step_dids)

lemma arriving_rank: "flight_rank (arriving c dids) = 5 * length dids"
  by (simp add: flight_rank_def arriving_def comp_def sum_list_triv)

lemma flight_progress:
  assumes ok: "flight_ok fetch s" and "i < length (fl_calls s)" and "\<forall>out. fc_pc (fl_calls s ! i) \<noteq> Returned out"
    and total: "\<And>c. c \<in> set (fl_calls s) \<Longrightarrow> \<exists>out. fetch (fc_did c) out"
  shows "\<exists>s'. flight_step fetch ctx s s'"
proof -
  obtain did pc where at_i: "call_at s i did pc" using assms(2) by (cases "fl_calls s ! i") auto
  have publishing: "\<exists>s'. flight_step fetch ctx s s'" if "call_at s j d (Fetching a)" for j d a
  proof -
    have "\<exists>out. fetch (fc_did (fl_calls s ! j)) out" by (rule total) (use that nth_mem in blast)
    with that obtain out where "fetch d out" by auto
    with that show ?thesis by (blast intro: flight_step.publish)
  qed
  show ?thesis
  proof (cases pc)
    case (Waiting a)
    show ?thesis
    proof (cases "fl_entries s ! a")
      case None
      have "call_ok fetch s did pc" using ok at_i unfolding flight_ok_def by blast
      with Waiting None have "fl_inflight s did = Some a" by simp
      then obtain j p where j: "call_at s j did p" "leads p a" using ok unfolding flight_ok_def by blast
      moreover have "call_ok fetch s did p" using ok j(1) unfolding flight_ok_def by blast
      ultimately have "p = Fetching a" using None by (cases p) auto
      with j publishing show ?thesis by blast
    qed (use at_i Waiting in \<open>blast intro: flight_step.wake\<close>)
  next
    case (Removed out)
    show ?thesis
    proof (cases "\<exists>key. out = Resolved key")
      case True
      then obtain key where "out = Resolved key" by blast
      with at_i Removed show ?thesis
        by (intro exI) (rule flight_step.store [where c = "(fl_cache s)(did \<mapsto> key)"], auto)
    qed (use at_i Removed in \<open>blast intro: flight_step.fail\<close>)
  next
    case Missed
    then show ?thesis using at_i by (cases "fl_inflight s did") (blast intro: flight_step.join flight_step.lead)+
  next
    case (Returned out)
    with assms(3) at_i show ?thesis by simp
  qed (use at_i publishing in \<open>blast intro: flight_step.miss flight_step.unlist\<close>)+
qed

section \<open>Concurrent resolution\<close>

text \<open>What \<^verbatim>\<open>resolveUncached\<close> can return, in some state of the circuit breakers and the network.\<close>

definition uncached_outcome ::
  "'n net \<Rightarrow> (nat, 'd) lru \<Rightarrow> resolver_config \<Rightarrow> 'c itself \<Rightarrow> string \<Rightarrow> resolve_outcome \<Rightarrow> bool" where
  "uncached_outcome N CS cfg ty did out =
     (out \<noteq> ResolvePanic \<and>
      (\<exists>(r :: ('c, 'd, 'n) resolver) r'. resolve_uncached N CS cfg did r = (out, r')))"

text \<open>
  C20. Overlapping calls of \<^verbatim>\<open>Resolve\<close> never mix results up: whatever the interleaving, a call
  returns an outcome of a resolution of its own DID (made by itself, by the call it waited for, or
  earlier and cached) or the error of its cancelled context, and no two resolutions of one DID are
  under way at the same time.
\<close>

theorem concurrent_resolution_sound:
  assumes "flight_steps (uncached_outcome N CS cfg ty) ctx n (arriving c dids) s"
    and "\<And>did key. c did = Some key \<Longrightarrow> uncached_outcome N CS cfg ty did (Resolved key)"
  shows "(\<forall>i did out. call_at s i did (Returned out) \<longrightarrow>
       uncached_outcome N CS cfg ty did out \<or> out = cancelled) \<and>
    (\<forall>i j did a b. call_at s i did (Fetching a) \<longrightarrow> call_at s j did (Fetching b) \<longrightarrow> i = j)"
proof -
  have ok: "flight_ok (uncached_outcome N CS cfg ty) s"
    using flight_steps_ok [OF assms(1) arriving_ok] assms(2) by blast
  have "i = j" if "call_at s i did (Fetching a)" "call_at s j did (Fetching b)" for i j did a b
  proof -
    have "a = b" using ok that unfolding flight_ok_def by (metis call_ok.simps(4) option.inject)
    with ok that show ?thesis unfolding flight_ok_def by (metis leads.simps(1))
  qed
  then show ?thesis using ok unfolding flight_ok_def by (metis call_ok.simps(7))
qed

text \<open>
  C21. Every call returns: however the calls interleave, a run takes at most five steps per call,
  and as long as one has not returned some call can go on, provided that resolving the DIDs gives
  an answer at all. No call waits for a resolution that nobody carries out.
\<close>

theorem concurrent_resolution_live:
  assumes "flight_steps (uncached_outcome N CS cfg ty) ctx n (arriving c dids) s"
    and "\<And>did key. c did = Some key \<Longrightarrow> uncached_outcome N CS cfg ty did (Resolved key)"
    and "\<And>did. did \<in> set dids \<Longrightarrow> \<exists>out. uncached_outcome N CS cfg ty did out"
  shows "n \<le> 5 * length dids \<and>
    ((\<forall>call \<in> set (fl_calls s). \<exists>out. fc_pc call = Returned out) \<or>
     (\<exists>s'. flight_step (uncached_outcome N CS cfg ty) ctx s s'))"
proof -
  have ok: "flight_ok (uncached_outcome N CS cfg ty) s"
    using flight_steps_ok [OF assms(1) arriving_ok] assms(2) by blast
  have "map fc_did (fl_calls s) = dids"
    using flight_steps_dids [OF assms(1)] by (simp add: arriving_def comp_def)
  then have total: "\<exists>out. uncached_outcome N CS cfg ty (fc_did call) out" if "call \<in> set (fl_calls s)" for call
    using assms(3) that by force
  have "n \<le> 5 * length dids" using flight_steps_rank [OF assms(1)] by (simp add: arriving_rank)
  moreover have "\<exists>s'. flight_step (uncached_outcome N CS cfg ty) ctx s s'"
    if "call \<in> set (fl_calls s)" "\<nexists>out. fc_pc call = Returned out" for call
    using that flight_progress [OF ok _ _ total] by (auto simp: in_set_conv_nth)
  ultimately show ?thesis by blast
qed

section \<open>Two overlapping calls\<close>

definition two_calls :: "string \<Rightarrow> call_pc \<Rightarrow> call_pc \<Rightarrow> nat option \<Rightarrow> resolve_outcome option list \<Rightarrow> flight" where
  "two_calls did p q a es =
     \<lparr>fl_cache = Map.empty, fl_inflight = (Map.empty)(did := a), fl_entries = es,
      fl_calls = [\<lparr>fc_did = did, fc_pc = p\<rparr>, \<lparr>fc_did = did, fc_pc = q\<rparr>]\<rparr>"

lemma two_calls_arriving: "arriving Map.empty [did, did] = two_calls did Lookup Lookup None []"
  by (simp add: arriving_def two_calls_def fun_upd_idem)

lemma two_calls_first:
  "flight_step fetch ctx (two_calls did Lookup q a es) (two_calls did Missed q a es)"
  "flight_step fetch ctx (two_calls did Missed q None es)
     (two_calls did (Fetching (length es)) q (Some (length es)) (es @ [None]))"
  "fetch did out \<Longrightarrow> flight_step fetch ctx (two_calls did (Fetching b) q a es)
     (two_calls did (Published b out) q a (es[b := Some out]))"
  "flight_step fetch ctx (two_calls did (Published b out) q a es) (two_calls did (Removed out) q None es)"
  using flight_step.miss [where s = "two_calls did Lookup q a es" and i = 0 and did = did]
    flight_step.lead [where s = "two_calls did Missed q None es" and i = 0 and did = did]
    flight_step.publish [where s = "two_calls did (Fetching b) q a es" and i = 0 and did = did]
    flight_step.unlist [where s = "two_calls did (Published b out) q a es" and i = 0 and did = did]
  by (simp_all add: two_calls_def goto_def fun_upd_idem)

lemma two_calls_second:
  "flight_step fetch ctx (two_calls did p Lookup a es) (two_calls did p Missed a es)"
  "flight_step fetch ctx (two_calls did p Missed (Some b) es) (two_calls did p (Waiting b) (Some b) es)"
  "es ! b = Some out \<Longrightarrow> flight_step fetch ctx (two_calls did p (Waiting b) a es) (two_calls did p (Returned out) a es)"
  "flight_step fetch ctx (two_calls did p Missed None es)
     (two_calls did p (Fetching (length es)) (Some (length es)) (es @ [None]))"
  "fetch did out \<Longrightarrow> flight_step fetch ctx (two_calls did p (Fetching b) a es)
     (two_calls did p (Published b out) a (es[b := Some out]))"
  using flight_step.miss [where s = "two_calls did p Lookup a es" and i = 1 and did = did]
    flight_step.join [where s = "two_calls did p Missed (Some b) es" and i = 1 and did = did]
    flight_step.wake [where s = "two_calls did p (Waiting b) a es" and i = 1 and did = did]
    flight_step.lead [where s = "two_calls did p Missed None es" and i = 1 and did = did]
    flight_step.publish [where s = "two_calls did p (Fetching b) a es" and i = 1 and did = did]
  by (simp_all add: two_calls_def goto_def fun_upd_idem)

lemma shared_run:
  assumes "fetch did out"
  shows "flight_steps fetch ctx 6 (arriving Map.empty [did, did])
     (two_calls did (Published 0 out) (Returned out) (Some 0) [Some out])"
proof -
  note run = flight_steps.none [of fetch ctx "two_calls did Lookup Lookup None []"]
  note run = flight_steps.more [OF run two_calls_first(1)]
  note run = flight_steps.more [OF run two_calls_first(2)]
  note run = flight_steps.more [OF run two_calls_second(1)]
  note run = flight_steps.more [OF run, simplified, OF two_calls_second(2)]
  note run = flight_steps.more [OF run two_calls_first(3) [of fetch did out, OF assms]]
  note run = flight_steps.more [OF run two_calls_second(3) [where out = out]]
  from run show ?thesis by (simp add: two_calls_arriving eval_nat_numeral)
qed

text \<open>
  The deduplication is not complete: two calls of one DID that both missed the cache at the
  same time can resolve it twice, because the second one may look at \<^verbatim>\<open>inflight\<close> only after the first
  one has removed its entry.
\<close>

theorem overlapping_misses_fetch_twice:
  assumes "fetch did out"
  shows "\<exists>m n s s'. flight_steps fetch ctx m (arriving Map.empty [did, did]) s \<and>
    map fc_pc (fl_calls s) = [Missed, Missed] \<and>
    flight_steps fetch ctx n s s' \<and> fl_entries s' = [Some out, Some out]"
proof -
  note run = flight_steps.none [of fetch ctx "two_calls did Lookup Lookup None []"]
  note run = flight_steps.more [OF run two_calls_first(1)]
  note missed = flight_steps.more [OF run two_calls_second(1)]
  note run = flight_steps.none [of fetch ctx "two_calls did Missed Missed None []"]
  note run = flight_steps.more [OF run two_calls_first(2)]
  note run = flight_steps.more [OF run two_calls_first(3) [of fetch did out, OF assms]]
  note run = flight_steps.more [OF run two_calls_first(4)]
  note run = flight_steps.more [OF run two_calls_second(4)]
  note twice = flight_steps.more [OF run two_calls_second(5) [of fetch did out, OF assms]]
  show ?thesis
    unfolding two_calls_arriving
    by (intro exI conjI) (rule missed, simp add: two_calls_def, rule twice, simp add: two_calls_def)
qed

section \<open>Worked resolutions\<close>

abbreviation demo_ty :: "(nat \<times> (string \<times> cache_entry) list) itself" where
  "demo_ty \<equiv> TYPE(nat \<times> (string \<times> cache_entry) list)"

abbreviation demo_fetch :: "string \<Rightarrow> resolve_outcome \<Rightarrow> bool" where
  "demo_fetch \<equiv> uncached_outcome demo_net list_lru demo_config demo_ty"

lemma demo_fetch_x: "demo_fetch ''x'' (unsupported_method demo_net ''x'')"
  unfolding uncached_outcome_def
  by (rule conjI, simp add: unsupported_method_def Let_def,
      rule exI [of _ demo_resolver], rule exI [of _ demo_resolver]) (simp add: resolve_uncached_def)

theorem concurrent_resolution_sound_witness:
  "\<exists>s. flight_steps demo_fetch (\<lambda>i. False) 6 (arriving Map.empty [''x'', ''x'']) s \<and>
     call_at s 1 ''x'' (Returned (unsupported_method demo_net ''x'')) \<and>
     (\<forall>i did out. call_at s i did (Returned out) \<longrightarrow> demo_fetch did out \<or> out = cancelled) \<and>
     (\<forall>i j did a b. call_at s i did (Fetching a) \<longrightarrow> call_at s j did (Fetching b) \<longrightarrow> i = j)"
proof -
  note run = shared_run [of demo_fetch, OF demo_fetch_x]
  note sound = concurrent_resolution_sound [OF run]
  show ?thesis
    by (rule exI, intro conjI, rule run, simp add: two_calls_def, simp add: two_calls_def)
      (use sound in auto)
qed

theorem concurrent_resolution_live_witness:
  "\<exists>s. flight_steps demo_fetch (\<lambda>i. False) 6 (arriving Map.empty [''x'', ''x'']) s \<and> (6 :: nat) \<le> 5 * 2 \<and>
     ((\<forall>call \<in> set (fl_calls s). \<exists>out. fc_pc call = Returned out) \<or>
      (\<exists>s'. flight_step demo_fetch (\<lambda>i. False) s s'))"
proof -
  note run = shared_run [of demo_fetch, OF demo_fetch_x]
  have "\<exists>out. demo_fetch did out" if "did \<in> set [''x'', ''x'']" for did
    using that demo_fetch_x by auto
  note live = concurrent_resolution_live [OF run _ this]
  show ?thesis by (rule exI, rule conjI, rule run) (use live in auto)
qed

end
