(* ===== verification/Spec2Isabelle.thy ===== *)
theory Spec2Isabelle
  imports DRS_Main_Demo DRS_StatusFlight DRS_Metrics DRS_Flight
begin

text \<open>
  This library models \<^verbatim>\<open>drs-verify\<close>, the Go verifier of the delegation receipt standard
  (\<^verbatim>\<open>src/drs-verify\<close>): a server and a middleware library that decide whether an agent's request is
  covered by a chain of signed delegation receipts. All file names below are relative to
  \<^verbatim>\<open>src/drs-verify\<close>.

  \<^bold>\<open>How the program works.\<close> A bundle holds receipts and one invocation, all JWTs.
  \<^verbatim>\<open>pkg/verify\<close> checks it in six blocks: completeness, structure (types, hash and issuer links),
  signatures under the keys that \<^verbatim>\<open>pkg/resolver\<close> finds for the issuer DIDs, semantics
  (\<^verbatim>\<open>pkg/policy\<close>: attenuation from receipt to receipt, evaluation of the arguments), time, and
  revocation (\<^verbatim>\<open>pkg/revocation\<close>: a remote status list and a local store). Accepted receipts go to
  \<^verbatim>\<open>pkg/store\<close>, optionally timestamped by \<^verbatim>\<open>pkg/anchor\<close>. \<^verbatim>\<open>cmd/server\<close> offers this as
  \<^verbatim>\<open>/verify\<close> and \<^verbatim>\<open>pkg/middleware\<close> in front of a handler; both claim the JTI of a valid invocation in
  \<^verbatim>\<open>pkg/nonce\<close>, and the middleware binds the request body to the signed arguments with
  \<^verbatim>\<open>pkg/binding\<close>.

  \<^bold>\<open>Theories and code.\<close>
  \<^item> \<open>DRS_Prelude\<close>, \<open>DRS_Text\<close>: machine integers, durations, float64 comparison, early returns; Go
    strings as byte strings with the functions of the standard library that the code calls.
  \<^item> \<open>DRS_Types\<close>: the structs of \<^verbatim>\<open>pkg/types/types.go\<close>.
  \<^item> \<open>DRS_Policy\<close>: \<open>evaluate\<close>, \<open>check_attenuation\<close> and the resource matcher of
    \<^verbatim>\<open>pkg/policy/evaluate.go\<close>. Evaluation is characterised exactly; attenuation is sound for it.
  \<^item> \<open>DRS_Nonce\<close>: \<^verbatim>\<open>pkg/nonce/store.go\<close> and \<^verbatim>\<open>redis.go\<close>. The \<^verbatim>\<open>Checker\<close> interface is the locale
    \<open>nonce_checker\<close>, from which single use within a TTL follows for any interleaved checks; the
    in-memory store interprets it.
  \<^item> \<open>DRS_LRU\<close>, \<open>DRS_Base58\<close>, \<open>DRS_Resolver\<close>: the interface of the LRU library, \<^verbatim>\<open>base58Decode\<close> with its
    panic, and \<^verbatim>\<open>pkg/resolver/did.go\<close>: did:key, did:web, the SSRF filter, safe dialling, circuit
    breaker and TTL cache. did:key identifiers and keys correspond one to one; caching is transparent
    for them in every reachable state.
  \<^item> \<open>DRS_Flight\<close>: \<^verbatim>\<open>Resolve\<close> for overlapping calls as a step relation on the cache, the inflight map and
    the calls; an invariant by rule induction gives soundness, a rank gives termination, and
    progress holds as long as a call has not returned.
  \<^item> \<open>DRS_Verify\<close>, \<open>DRS_Frame\<close>, \<open>DRS_Trust\<close>: \<^verbatim>\<open>pkg/verify/chain.go\<close>, block by block. \<open>chain_spec\<close> is the
    declarative specification, and the verdict is equivalent to it. \<open>DRS_Trust\<close> runs the chain on the
    resolver of \<open>DRS_Resolver\<close> and shows authenticity, that the verdict on did:key chains depends
    neither on the schedule of the goroutines nor on the history of the resolver, and the crash on
    malformed did:key issuers.
  \<^item> \<open>DRS_Revocation\<close>, \<open>DRS_Status\<close>: \<^verbatim>\<open>pkg/revocation\<close>. The \<^verbatim>\<open>LocalStore\<close> interface is the locale
    \<open>local_store\<close>, interpreted by the in-memory and the file-backed store; restart of the file store
    is a round trip; the status list fails closed.
  \<^item> \<open>DRS_Store\<close>, \<open>DRS_Anchor\<close>: \<^verbatim>\<open>pkg/store\<close> and \<^verbatim>\<open>pkg/anchor\<close>. The \<^verbatim>\<open>Store\<close> interface is the locale
    \<open>receipt_store\<close>, whose abstract state is a map; the file system store refines it, and
    \<open>anchored_store\<close> extends it to the timestamping store.
  \<^item> \<open>DRS_Http\<close>, \<open>DRS_Middleware\<close>, \<open>DRS_RateLimit\<close>: the part of \<^verbatim>\<open>net/http\<close> in use, \<^verbatim>\<open>pkg/binding\<close> and
    \<^verbatim>\<open>pkg/middleware\<close>.
  \<^item> \<open>DRS_Config\<close>, \<open>DRS_Server\<close>: \<^verbatim>\<open>pkg/config\<close>, \<^verbatim>\<open>pkg/operator\<close>, \<^verbatim>\<open>pkg/health\<close> and \<^verbatim>\<open>cmd/server/main.go\<close>:
    endpoints, routing, wiring from the environment, sequences of requests, exit status.
    \<open>DRS_Answers\<close> gives the shape of every answer.
  \<^item> \<open>DRS_Concurrent\<close>: requests to the server that overlap. A request to \<^verbatim>\<open>/verify\<close> is cut into the
    phases, one for every lookup and every access to the store; alone, the phases are the sequential
    handler; in any interleaving, replay protection, the bound of the nonce store and
    revocation hold, and every request is answered.
  \<^item> \<open>DRS_StatusFlight\<close>: overlapping calls of \<^verbatim>\<open>IsRevoked\<close> and \<^verbatim>\<open>WarmUp\<close> in \<^verbatim>\<open>pkg/revocation/status.go\<close> as
    steps between the two mutexes and the fetch: mutual exclusion, sound verdicts, no deadlock,
    refinement of the sequential operation, and the repetition of failing fetches in every run.
  \<^item> \<open>DRS_Metrics\<close>: the counters of \<^verbatim>\<open>pkg/metrics/metrics.go\<close> at the places that count. They change no
    answer and agree with the answers given.
  \<^item> \<open>DRS_Main\<close>: what \<^verbatim>\<open>main\<close> assembles. All components share one state, the interfaces of the code are
    datatypes with a constructor per implementation, and \<open>boot\<close> creates them from a configuration. The
    assumptions of the theorems on servers are facts there.
  \<^item> \<open>DRS_Disk\<close>: the receipts of accepted bundles stay on disk, in every interleaving of requests to the
    assembled program.
  \<^item> \<open>DRS_Demo\<close>, \<open>DRS_Concurrent_Demo\<close>, \<open>DRS_Main_Demo\<close>: servers with concrete parameters, which the
    witnesses run.
  \<^item> This theory: replay, revocation and body binding across components.

  \<^bold>\<open>State and effects.\<close> Operations pass their state explicitly. What the dependencies of a chain share
  is one state \<open>'w\<close>, as the pointers in \<^verbatim>\<open>Deps\<close> do; circuit breakers and token buckets, which the code
  shares through pointers in caches, live in lists of cells and the caches hold addresses. A
  mutex-protected operation is one atomic definition. \<open>DRS_Flight\<close> and \<open>DRS_StatusFlight\<close> model the
  functions that leave their critical sections to wait for the network, \<open>DRS_Concurrent\<close> the
  interleaving of whole requests; there, the resolution of the issuers of one bundle is a single
  step, as is one lookup of one receipt and one access to the store. The goroutines of \<^verbatim>\<open>resolveIssuersParallel\<close> are a permutation
  \<open>sched\<close> of the issuers. Errors are option or sum values, and a panic that nothing recovers is an
  outcome of its own. Integers are 64-bit words wherever the code computes with them;
  \<^verbatim>\<open>time.Duration\<close> and clock readings in seconds are integers with the overflow of the conversion
  written out.

  \<^bold>\<open>Parameters.\<close> Code outside the repository is an argument: SHA-256, Ed25519, JSON decoding, RFC 8785,
  DER and X.509, DNS, HTTP clients, Redis, the LRU and rate packages, the file system, the clock.
  What a theorem needs of them is a named hypothesis that states documented behaviour (\<open>lru_ok\<close>, \<open>json_laws\<close>, \<open>consuming\<close>,
  \<open>deps_frame\<close>, monotone clocks), and its witness instantiates them with concrete functions.

  \<^bold>\<open>Loops and fuel.\<close> All loops are structurally recursive except those over DER content
  (\<open>elements\<close> in \<open>DRS_Anchor\<close>), whose fuel is the number of input bytes; that this is enough for a
  decoder that consumes input, and that more fuel changes nothing, is a theorem.

  The runs of overlapping calls are lists of events of any length; the bounds on steps
  (\<open>8 + 4 * maxChainDepth\<close> per request, thirteen per status lookup) are theorems.

  \<^bold>\<open>Not modelled.\<close> The exposition format and the bucket boundaries of the metrics, log lines, the prose
  of error messages and suggestions, HTTP timeouts and header encoding, the path cleaning of
  \<^verbatim>\<open>http.ServeMux\<close>, and file modes have no influence on verdicts. Cancellation of a context while a
  call waits is a response of the network parameter. The Rust core, the SDKs and the tools in other
  languages are separate programs.
\<close>

section \<open>Laws of the JSON parameters\<close>

text \<open>
  What \<^verbatim>\<open>encoding/json\<close> and RFC 8785 promise. \<open>parse\<close> is \<^verbatim>\<open>json.Unmarshal\<close> into an \<^verbatim>\<open>interface{}\<close> on
  the JSON texts without repeated names and without ill-formed Unicode, as RFC 8785 requires them, and
  undefined elsewhere; values have one zero, so \<^verbatim>\<open>-0\<close> and \<^verbatim>\<open>0\<close> are the same. Texts with the same canonical form have the same value; what \<^verbatim>\<open>json.Marshal\<close>
  writes of a value that came out of a payload reads back as that value (this is only said of decoded
  values, whose numbers are float64); and the two readings of a payload are related. They need
  not agree: the field \<^verbatim>\<open>Args\<close> of \<^verbatim>\<open>types.InvocationReceipt\<close> is a map, into which repeated
  \<^verbatim>\<open>args\<close> members are merged, while the one of \<^verbatim>\<open>argsPayload\<close> keeps the last of them. \<open>single\<close> says of
  a payload that at most one of its members matches \<^verbatim>\<open>args\<close>.
\<close>

fun args_of :: "gval \<Rightarrow> args" where
  "args_of (GMap m) = map_of m"
| "args_of _ = Map.empty"

definition json_laws ::
  "prims \<Rightarrow> json_ops \<Rightarrow> (string \<Rightarrow> gval option) \<Rightarrow> (string \<Rightarrow> bool) \<Rightarrow> bool" where
  "json_laws pr js parse single =
     ((\<forall>a b c v v'. jcs_transform js a = Some c \<longrightarrow> jcs_transform js b = Some c \<longrightarrow>
         parse a = Some v \<longrightarrow> parse b = Some v' \<longrightarrow> v = v') \<and>
      (\<forall>bytes v s. unmarshal_args js bytes = Some v \<longrightarrow> json_marshal js v = Some s \<longrightarrow> parse s = Some v) \<and>
      (\<forall>bytes iv v. unmarshal_invocation pr bytes = Some iv \<longrightarrow> unmarshal_args js bytes = Some v \<longrightarrow>
         args_of v \<subseteq>\<^sub>m inv_Args iv \<and> (single bytes \<longrightarrow> inv_Args iv = args_of v)))"

lemma json_lawsD:
  assumes "json_laws pr js parse single"
  shows "jcs_transform js a = Some c \<Longrightarrow> jcs_transform js b = Some c \<Longrightarrow> parse a = Some v \<Longrightarrow> parse b = Some v' \<Longrightarrow> v = v'"
    and "unmarshal_args js bytes = Some v \<Longrightarrow> json_marshal js v = Some s \<Longrightarrow> parse s = Some v"
    and "unmarshal_invocation pr bytes = Some iv \<Longrightarrow> unmarshal_args js bytes = Some v \<Longrightarrow>
      args_of v \<subseteq>\<^sub>m inv_Args iv \<and> (single bytes \<longrightarrow> inv_Args iv = args_of v)"
  using assms unfolding json_laws_def by blast+

lemma demo_value_args: "args_of demo_value = demo_args"
  by (auto simp: demo_value_def demo_args_def fun_eq_iff)

lemma demo_json_laws: "json_laws demo_prims demo_json demo_parse (\<lambda>_. True)"
  using demo_texts demo_value_args
  by (auto simp: json_laws_def demo_json_def demo_parse_def demo_prims_def demo_invocation_def split: if_splits)

section \<open>Replay\<close>

text \<open>
  C2. Replay, end to end. Take a server with the in-memory nonce store, created with the TTL that
  also bounds the age of invocations, any history before, any requests in between, and two
  requests to \<^verbatim>\<open>/verify\<close> whose invocations carry the same JTI and which are both answered as valid.
  Then they are at least the TTL apart, and, away from int64 overflow, the second one was checked
  for freshness within the TTL of its \<^verbatim>\<open>iat\<close>. For one invocation that was already \<open>a\<close> seconds old
  when it was first claimed, this means that the second request spent at least \<open>a\<close> seconds between
  its freshness check and its claim.
\<close>

theorem server_replay_bounded:
  fixes S :: "('w, nonce_store, 'f, 'c, 'l) server"
  assumes "sv_check S = nonce_check" and "MaxInvocationAge (sv_deps S) = lifetime" and "0 < lifetime"
    and "serve_all S before (rl0, adm0, w0, nonce_new cap lifetime) = (rs0, (rl, adm, w, n))"
    and "serve S oc1 r1 (rl, adm, w, n) = (Some (200, VerifyBody res1), (rl1, adm1, w1, n1))" "Valid res1"
    and "serve_all S between (rl1, adm1, w1, n1) = (rs, (rl2, adm2, w2, n2))"
    and "serve S oc2 r2 (rl2, adm2, w2, n2) = (Some (200, VerifyBody res2), (rl3, adm3, w3, n3))" "Valid res2"
    and "decode_verify (sv_verify_json S) (max_bytes_reader (sint (sv_max_body S)) (rq_body r1)) = Inr req1"
    and "decode_verify (sv_verify_json S) (max_bytes_reader (sint (sv_max_body S)) (rq_body r2)) = Inr req2"
    and "decode_invocation_jti (sv_json S) (Invocation (vr_bundle req1)) =
         decode_invocation_jti (sv_json S) (Invocation (vr_bundle req2))"
    and "decode_jwt_payload (unmarshal_invocation (sv_prims S)) (Invocation (vr_bundle req2)) = Some iv"
    and "\<forall>c \<in> set between. oc_nonce (fst c) \<le> oc_nonce oc2" and "oc_nonce oc1 \<le> oc_nonce oc2"
    and "0 \<le> sint (oc_now oc2)" "sint (oc_now oc2) < 2 ^ 62" "sint (oc_now oc2) - sint (inv_Iat iv) < 2 ^ 63"
  shows "oc_nonce oc1 + duration_secs lifetime \<le> oc_nonce oc2 \<and>
    sint (oc_now oc2) \<le> sint (inv_Iat iv) + duration_secs lifetime \<and>
    oc_nonce oc1 - sint (inv_Iat iv) \<le> oc_nonce oc2 - sint (oc_now oc2)"
proof -
  obtain T where "\<forall>c \<in> set before. oc_nonce (fst c) \<le> T"
    by (meson finite_imageI finite_set Max_ge imageI that)
  from serve_all_nonce [OF assms(4) this] assms(1) have "check_path nonce_check T (nonce_new cap lifetime) n" by simp
  from mem.path_keeps [OF this nonce_new_invar] have n: "nonce_invar n" "duration_secs (ttl n) = duration_secs lifetime"
    by (auto simp: nonce_new_def)
  from serve_valid [OF assms(5)] assms(1,6,10) obtain jti where
      c1: "decode_invocation_jti (sv_json S) (Invocation (vr_bundle req1)) = Some jti"
        "nonce_check (oc_nonce oc1) jti n = (None, n1)" by auto
  from serve_valid [OF assms(8)] assms(1,9,11,12) c1(1) obtain result where
      c2: "nonce_check (oc_nonce oc2) jti n2 = (None, n3)" and
      v: "chain (sv_prims S) (oc_sched oc2) ((sv_deps S)\<lparr>IncludeTimestamps := vr_include_timestamps req2\<rparr>)
        (oc_now oc2) (vr_bundle req2) w2 = (Some result, w3)" "Valid result" by auto
  have "check_path nonce_check (oc_nonce oc2) n1 n2" using serve_all_nonce [OF assms(7,14)] assms(1) by simp
  from mem.no_double_accept_path [OF n(1) c1(2) this c2 assms(15)] n(2)
  have apart: "oc_nonce oc1 + duration_secs lifetime \<le> oc_nonce oc2" by simp
  have "accepts (sv_prims S) (oc_sched oc2) ((sv_deps S)\<lparr>IncludeTimestamps := vr_include_timestamps req2\<rparr>)
      (oc_now oc2) (vr_bundle req2) w2" using v by (simp add: accepts_def)
  then have "check_freshness (oc_now oc2) lifetime (inv_Iat iv) = None"
    using assms(2,13) by (auto elim!: acceptsE simp: chain_spec_def times_ok_def)
  then have "sint (oc_now oc2 - inv_Iat iv) \<le> duration_secs lifetime"
    using assms(3) by (simp add: check_freshness_None)
  moreover have "sint (oc_now oc2 - inv_Iat iv) = sint (oc_now oc2) - sint (inv_Iat iv)"
    using assms(16-18) sint_lt [of "inv_Iat iv"] by (intro sint_diff_exact) (auto simp: sint_greater_eq)
  ultimately show ?thesis using apart by simp
qed

theorem server_replay_bounded_witness:
  "\<exists>rl1 rl2 n1 n2.
     serve (demo_server demo_deps (\<lambda>_ _ w. (None, w))) (demo_occasion 290 290) (demo_request ''/verify'')
       (demo_limiter, demo_limiter, (), nonce_new 5 (60 * second)) = (Some (200, VerifyBody demo_result), (rl1, demo_limiter, (), n1)) \<and>
     serve (demo_server demo_deps (\<lambda>_ _ w. (None, w))) (demo_occasion 350 350) (demo_request ''/verify'')
       (rl1, demo_limiter, (), n1) = (Some (200, VerifyBody demo_result), (rl2, demo_limiter, (), n2)) \<and>
     290 + duration_secs (60 * second) \<le> 350"
proof -
  let ?S = "demo_server (demo_deps :: unit deps) (\<lambda>_ _ w. (None, w))" and ?n = "nonce_new 5 (60 * second)"
  let ?r = "demo_request ''/verify''"
  define n1 where "n1 = ?n\<lparr>seen := [(''inv:1'', 290)]\<rparr>"
  define n2 where "n2 = ?n\<lparr>seen := [(''inv:1'', 350)]\<rparr>"
  have c: "nonce_check 290 ''inv:1'' ?n = (None, n1)" "nonce_check 350 ''inv:1'' n1 = (None, n2)"
    by (simp_all add: nonce_check_def nonce_insert_def nonce_evict_def nonce_new_def Let_def n1_def n2_def)
  obtain rl1 where s1: "serve ?S (demo_occasion 290 290) ?r (demo_limiter, demo_limiter, (), ?n) =
      (Some (200, VerifyBody demo_result), (rl1, demo_limiter, (), n1))"
    using demo_serve_verify [OF c(1), of 290 "\<lambda>_ _ w. (None, w)" demo_limiter demo_limiter "()"] by auto
  obtain rl2 where s2: "serve ?S (demo_occasion 350 350) ?r (rl1, demo_limiter, (), n1) =
      (Some (200, VerifyBody demo_result), (rl2, demo_limiter, (), n2))"
    using demo_serve_verify [OF c(2), of 350 "\<lambda>_ _ w. (None, w)" rl1 demo_limiter "()"] by auto
  have v: "Valid demo_result" by (simp add: demo_result_def)
  have "oc_nonce (demo_occasion 290 290) + duration_secs (60 * second) \<le> oc_nonce (demo_occasion 350 350)"
    by (rule server_replay_bounded [of ?S "60 * second" "[]", OF _ _ _ _ s1 v _ s2 v, of demo_limiter demo_limiter "()" 5 "[]" "[]" "[]",
          where iv = demo_invocation, THEN conjunct1])
      (simp_all add: demo_server_def demo_deps_def demo_occasion_def second_def demo_jti demo_iat,
        simp add: demo_decoded)
  then have "290 + duration_secs (60 * second) \<le> 350" by (simp add: demo_occasion_def)
  with s1 s2 show ?thesis by blast
qed

section \<open>Revocation\<close>

text \<open>
  Revocation is final. Once \<^verbatim>\<open>/admin/revoke\<close> has answered 200 for a status list index on a
  server with the file-backed store, then whatever requests follow, however the storage behaves
  during them, and whatever the remote status list says, no bundle with a receipt of that index is
  answered as valid again. The components that verification calls are only assumed not to write
  into the revocation store.
\<close>

theorem server_revocation_final:
  fixes S :: "(file_store \<times> 'v, 'n, write_behaviour, 'c, 'l) server"
  assumes "sv_revoke S = on_first file_revoke" and "deps_frame (sv_deps S) fst"
    and "LocalRevoked (sv_deps S) = Some (\<lambda>i w. file_is_revoked i (fst w))"
    and "serve S oc1 r1 (rl, adm, w, n) = (Some (200, RevokedIndex i), (rl1, adm1, w1, n1))"
    and "serve_all S calls (rl1, adm1, w1, n1) = (resps, (rl2, adm2, w2, n2))"
    and "serve S oc2 r2 (rl2, adm2, w2, n2) = (Some (200, VerifyBody res), st)"
    and "decode_verify (sv_verify_json S) (max_bytes_reader (sint (sv_max_body S)) (rq_body r2)) = Inr req"
    and "decode_bundle_receipts (sv_prims S) (vr_bundle req) = Some rs" and "r \<in> set rs"
    and "dr_DrsStatusListIndex r = Some i"
  shows "\<not> Valid res"
  using assms by (rule file_revocation.revoked_is_refused)

theorem server_revocation_final_witness:
  "\<exists>rl1 rl2 w1.
     serve (demo_server (demo_deps\<lparr>LocalRevoked := Some (\<lambda>i w. file_is_revoked i (fst w))\<rparr>) (on_first file_revoke))
       (demo_occasion 300 300) (demo_request ''/admin/revoke'')
       (demo_limiter, demo_limiter, (empty_file_store, ()), nonce_new 5 (60 * second)) =
       (Some (200, RevokedIndex 7), (rl1, rl2, w1, nonce_new 5 (60 * second))) \<and>
     \<not> Valid (invalid_result REVOKED)"
proof -
  let ?d = "demo_deps\<lparr>LocalRevoked := Some (\<lambda>i w. file_is_revoked i (fst w))\<rparr> :: (file_store \<times> unit) deps"
  let ?S = "demo_server ?d (on_first file_revoke)" and ?n = "nonce_new 5 (60 * second)"
  define w1 where "w1 = (snd (file_revoke WriteOk 7 empty_file_store), ())"
  have w1: "file_is_revoked 7 (fst w1)" by (simp add: w1_def file_revoke_def empty_file_store_def file_is_revoked_def)
  have adm: "admin_handler ?S (demo_occasion 300 300) (demo_request ''/admin/revoke'') ((empty_file_store, ()), ?n) =
      (Some (200, RevokedIndex 7), (w1, ?n))"
    by (simp add: admin_handler_def admin_revoke_handler_def demo_server_def demo_occasion_def demo_request_headers
        on_first_def w1_def file_revoke_def empty_file_store_def)
  have "\<exists>rl2. serve_mux ?S (demo_occasion 300 300) (demo_request ''/admin/revoke'') (demo_limiter, (empty_file_store, ()), ?n) =
      (Some (200, RevokedIndex 7), (rl2, w1, ?n))"
    using adm by (simp add: serve_mux_def rate_middleware_def split_beta Let_def) (simp add: demo_server_def)
  then obtain rl1 rl2 where s1: "serve ?S (demo_occasion 300 300) (demo_request ''/admin/revoke'')
      (demo_limiter, demo_limiter, (empty_file_store, ()), ?n) = (Some (200, RevokedIndex 7), (rl1, rl2, w1, ?n))"
    using demo_serve [of "''/admin/revoke''"] by fastforce
  have "block_f (?d\<lparr>IncludeTimestamps := False\<rparr>) [demo_root, demo_leaf] w1 = (Some REVOKED, w1)"
    using w1 by (simp add: block_f_def demo_deps_def local_revocation_def demo_receipts guard_err_def)
  then have "chain demo_prims id (?d\<lparr>IncludeTimestamps := False\<rparr>) 300 demo_bundle w1 = (Some (invalid_result REVOKED), w1)"
    by (simp add: demo_chain demo_deps_def)
  then have "serve_mux ?S (demo_occasion 300 300) (demo_request ''/verify'') (rl2, w1, ?n) =
      (Some (200, VerifyBody (invalid_result REVOKED)), (rl2, w1, ?n))"
    by (simp add: serve_mux_def verify_handler_def) (simp add: demo_server_def demo_occasion_def)
  then obtain rl3 where s2: "serve ?S (demo_occasion 300 300) (demo_request ''/verify'') (rl1, rl2, w1, ?n) =
      (Some (200, VerifyBody (invalid_result REVOKED)), (rl3, rl2, w1, ?n))"
    using demo_serve [of "''/verify''"] by fastforce
  have "\<not> Valid (invalid_result REVOKED)"
    by (rule server_revocation_final [of ?S, OF _ _ _ s1 _ s2, where rs = "[demo_root, demo_leaf]" and r = demo_root,
          of "[]" "[]"])
      (simp_all add: demo_server_def demo_deps_def deps_frame_def lookups_frame_def demo_resolve_def demo_index,
        simp add: demo_decoded)
  with s1 show ?thesis by blast
qed

section \<open>The executed body is the signed one\<close>

text \<open>
  C5. With binding enforced, what the protected handler executes is what was signed and allowed.
  Whenever the outcome of a request depends on the protected handler at all, the handler runs on
  the original request. Let \<open>v\<close> be the value of \<^verbatim>\<open>args\<close> in the signed payload. The body is blank and
  \<open>v\<close> is empty, or the body has the canonical form of \<open>v\<close>; then, if it is a text on which JSON
  readers agree, without repeated names or ill-formed Unicode, the handler reads \<open>v\<close>. The command is
  inside the one the root granted, and the arguments that the verifier evaluated satisfy every
  policy of the chain, from the root to the leaf. These are the arguments in the body, provided
  that the signer wrote a single \<^verbatim>\<open>args\<close> member; otherwise they
  extend them. What is assumed of \<^verbatim>\<open>encoding/json\<close> and the canonicalisation is \<open>json_laws\<close>.
\<close>

theorem enforced_body_is_authorised:
  assumes "json_laws pr js parse single"
    and "mcp_middleware pr js sched now d ns ''enforced'' nxt r s \<noteq>
         mcp_middleware pr js sched now d ns ''enforced'' nxt' r s"
  shows "\<exists>b (res :: verification_result) s' iv rs body v payload.
    mcp_middleware pr js sched now d ns ''enforced'' nxt r s = nxt (r\<lparr>rq_context := Context res\<rparr>) s' \<and>
    decode_bundle js (header_get ''X-DRS-Bundle'' r) = Some b \<and>
    decode_jwt_payload Some (Invocation b) = Some payload \<and>
    unmarshal_invocation pr payload = Some iv \<and> unmarshal_args js payload = Some v \<and>
    decode_bundle_receipts pr b = Some rs \<and> rq_body r = (body, AtEOF) \<and>
    (if trim_space body = '''' then is_empty_args v
     else (\<exists>c j. jcs_transform js body = Some c \<and> json_marshal js v = Some j \<and> jcs_transform js j = Some c) \<and>
          (\<forall>v'. parse body = Some v' \<longrightarrow> v' = v)) \<and>
    (\<forall>x \<in> set rs. evaluate (dr_Policy x) (inv_Args iv) = None) \<and>
    args_of v \<subseteq>\<^sub>m inv_Args iv \<and> (single payload \<longrightarrow> inv_Args iv = args_of v) \<and>
    cmd_is_subpath (dr_Cmd (hd rs)) (inv_Cmd iv)"
proof -
  from assms(2) obtain b res s' where adm: "admitted pr js sched now d ns ''enforced'' r s b res s'"
    and next_eq: "mcp_middleware pr js sched now d ns ''enforced'' nxt r s = nxt (r\<lparr>rq_context := Context res\<rparr>) s'"
    by (rule middleware_reaches) blast
  then have chain: "chain pr sched d now b (fst s) = (Some res, fst s')" "Valid res"
      "decode_bundle js (header_get ''X-DRS-Bundle'' r) = Some b"
    by (auto simp: admitted_def header_get_single)
  then have acc: "accepts pr sched d now b (fst s)" by (simp add: accepts_def)
  from acc obtain rs iv keys where spec: "decode_bundle_receipts pr b = Some rs"
      "decode_jwt_payload (unmarshal_invocation pr) (Invocation b) = Some iv" "chain_spec pr d now keys b rs iv"
    by (rule acceptsE)
  from adm obtain body v where bd: "rq_body r = (body, AtEOF)"
      "decode_invocation_args js (Invocation b) = Some v" "binding_check js body v = None"
    by (auto simp: admitted_def)
  from decode_payload_shared [OF spec(2) bd(2)] obtain payload where payload:
      "decode_jwt_payload Some (Invocation b) = Some payload"
      "unmarshal_invocation pr payload = Some iv" "unmarshal_args js payload = Some v" by blast
  have reads: "v' = v" if body: "trim_space body \<noteq> ''''" "parse body = Some v'" for v'
  proof -
    from bd(3) body(1) obtain c j where j: "jcs_transform js body = Some c" "json_marshal js v = Some j" "jcs_transform js j = Some c"
      by (auto simp: binding_check_None)
    show ?thesis by (rule json_lawsD(1) [OF assms(1) j(1,3) body(2) json_lawsD(2) [OF assms(1) payload(3) j(2)]])
  qed
  note facts = json_lawsD(3) [OF assms(1) payload(2,3)] bd(3) [unfolded binding_check_None]
  have "\<forall>x \<in> set rs. evaluate (dr_Policy x) (inv_Args iv) = None"
    "cmd_is_subpath (dr_Cmd (hd rs)) (inv_Cmd iv)"
    using spec(3) chain_spec_cmd [OF spec(3), of "hd rs"] by (auto simp: chain_spec_def semantics_ok_def)
  with next_eq chain(3) payload spec(1) bd(1) facts reads show ?thesis
    by (intro exI [of _ b] exI [of _ res] exI [of _ s'] exI [of _ iv] exI [of _ rs] exI [of _ body] exI [of _ v]
        exI [of _ payload] conjI) (simp_all split: if_splits)
qed

text \<open>The example in the middleware, with any reading of the signed arguments to which the body is bound.\<close>

lemma demo_middleware_runs:
  assumes "binding_check demo_json body v = None" and "length body \<le> 65536"
  shows "mcp_middleware demo_prims (demo_json\<lparr>unmarshal_args := \<lambda>_. Some v\<rparr>) id 300 (demo_deps :: unit deps)
      (Some (nonce_check 300)) ''enforced'' nxt (demo_request ''/tool''\<lparr>rq_body := (body, AtEOF)\<rparr>) ((), nonce_new 5 (60 * second)) =
    nxt (demo_request ''/tool''\<lparr>rq_body := (body, AtEOF), rq_context := Context demo_result\<rparr>)
      ((), (nonce_new 5 (60 * second))\<lparr>seen := [(''inv:1'', 300)]\<rparr>)"
proof -
  let ?n = "nonce_new 5 (60 * second)" and ?js = "demo_json\<lparr>unmarshal_args := \<lambda>_. Some v\<rparr>"
  let ?r = "demo_request ''/tool''\<lparr>rq_body := (body, AtEOF)\<rparr>"
  have header: "header_values ''X-DRS-Bundle'' ?r = [''AA'']"
    using demo_request_headers(1) [of "''/tool''"] by (simp add: header_values_def)
  have dec: "decode_bundle ?js ''AA'' = Some demo_bundle"
    by (simp add: decode_bundle_def maxBundleHeaderBytes_def demo_payloads demo_json_def)
  have jti: "decode_invocation_jti ?js (Invocation demo_bundle) = Some ''inv:1''"
    by (simp add: decode_invocation_jti_def demo_bundle_def demo_payloads demo_json_def)
  have arg: "decode_invocation_args ?js (Invocation demo_bundle) = Some v"
    by (simp add: decode_invocation_args_def demo_bundle_def demo_payloads)
  have "binding_check ?js body v = None" using assms(1) by (simp add: binding_check_None split: if_splits)
  then have bound: "check_request_binding ?js ?r (Invocation demo_bundle) ''enforced'' = Inr ?r"
    by (simp add: check_request_binding_Inr arg assms(2))
  have "nonce_check 300 ''inv:1'' ?n = (None, ?n\<lparr>seen := [(''inv:1'', 300)]\<rparr>)"
    by (simp add: nonce_check_def nonce_insert_def nonce_evict_def nonce_new_def Let_def)
  then show ?thesis
    by (simp add: mcp_middleware_def mcp_middleware_inner_def header header_get_single [OF header] dec demo_verifies
        check_nonce_replay_def jti bound demo_result_def)
qed

lemma demo_bound: "binding_check demo_json demo_body demo_value = None"
  using demo_texts demo_body_size by (simp add: binding_check_None demo_json_def)

theorem enforced_body_is_authorised_witness:
  "evaluate (dr_Policy demo_leaf) (args_of demo_value) = None \<and> demo_parse demo_body = Some demo_value \<and>
   (\<exists>c j. jcs_transform demo_json demo_body = Some c \<and> json_marshal demo_json demo_value = Some j \<and>
      jcs_transform demo_json j = Some c)"
proof -
  have js: "demo_json\<lparr>unmarshal_args := \<lambda>_. Some demo_value\<rparr> = demo_json" by (simp add: demo_json_def)
  have rq: "demo_request ''/tool''\<lparr>rq_body := (demo_body, AtEOF)\<rparr> = demo_request ''/tool''" by (simp add: demo_request_def)
  note runs = demo_middleware_runs [OF demo_bound demo_body_size(1), unfolded js rq]
  have "mcp_middleware demo_prims demo_json id 300 (demo_deps :: unit deps) (Some (nonce_check 300)) ''enforced''
      (\<lambda>_ s. (None, s)) (demo_request ''/tool'') ((), nonce_new 5 (60 * second)) \<noteq>
    mcp_middleware demo_prims demo_json id 300 demo_deps (Some (nonce_check 300)) ''enforced''
      (\<lambda>_ s. (Some liveness, s)) (demo_request ''/tool'') ((), nonce_new 5 (60 * second))" unfolding runs by simp
  from enforced_body_is_authorised [OF demo_json_laws this] show ?thesis
  proof (elim exE conjE, goal_cases)
    case (1 b res s' iv rs body v payload)
    have "decode_bundle demo_json ''AA'' = Some demo_bundle"
      by (simp add: decode_bundle_def maxBundleHeaderBytes_def demo_payloads demo_json_def)
    with 1(2) have "b = demo_bundle" by (simp add: header_get_single [OF demo_request_headers(1)])
    with 1(6) have rs: "demo_leaf \<in> set rs" by (auto simp: demo_decoded)
    have v: "v = demo_value" and body: "body = demo_body" using 1(5,7) by (simp_all add: demo_json_def)
    have "\<exists>v'. demo_parse demo_body = Some v'" by (simp add: demo_parse_def)
    with 1(8) have "demo_parse demo_body = Some demo_value"
      "\<exists>c j. jcs_transform demo_json demo_body = Some c \<and> json_marshal demo_json demo_value = Some j \<and>
         jcs_transform demo_json j = Some c"
      unfolding v body using demo_body_size(2) by auto
    moreover from 1(9,11) rs have "evaluate (dr_Policy demo_leaf) (args_of demo_value) = None" by (simp add: v)
    ultimately show ?case by blast
  qed
qed

text \<open>
  The condition on the \<^verbatim>\<open>args\<close> member is needed. The payload of the example may as well be one with two
  of them, the arguments of the example and then \<^verbatim>\<open>{}\<close>: the laws hold, the verifier evaluates the
  merged arguments, and the handler is given a body with no arguments at all, which the policy
  refuses, since it demands a tool and a cost.
\<close>

theorem duplicate_args_unpoliced:
  "json_laws demo_prims (demo_json\<lparr>unmarshal_args := \<lambda>_. Some (GMap [])\<rparr>) demo_parse (\<lambda>_. False) \<and>
   (\<forall>nxt. mcp_middleware demo_prims (demo_json\<lparr>unmarshal_args := \<lambda>_. Some (GMap [])\<rparr>) id 300 (demo_deps :: unit deps)
        (Some (nonce_check 300)) ''enforced'' nxt (demo_request ''/tool''\<lparr>rq_body := (''{}'', AtEOF)\<rparr>) ((), nonce_new 5 (60 * second)) =
      nxt (demo_request ''/tool''\<lparr>rq_body := (''{}'', AtEOF), rq_context := Context demo_result\<rparr>)
        ((), (nonce_new 5 (60 * second))\<lparr>seen := [(''inv:1'', 300)]\<rparr>)) \<and>
   evaluate (dr_Policy demo_leaf) (args_of (GMap [])) = Some (Missing Cost)"
proof (intro conjI allI)
  show "json_laws demo_prims (demo_json\<lparr>unmarshal_args := \<lambda>_. Some (GMap [])\<rparr>) demo_parse (\<lambda>_. False)"
    using demo_texts by (auto simp: json_laws_def demo_json_def demo_parse_def split: if_splits)
  have "trim_space ''{}'' \<noteq> ''''" by code_simp
  then show "mcp_middleware demo_prims (demo_json\<lparr>unmarshal_args := \<lambda>_. Some (GMap [])\<rparr>) id 300 (demo_deps :: unit deps)
        (Some (nonce_check 300)) ''enforced'' nxt (demo_request ''/tool''\<lparr>rq_body := (''{}'', AtEOF)\<rparr>) ((), nonce_new 5 (60 * second)) =
      nxt (demo_request ''/tool''\<lparr>rq_body := (''{}'', AtEOF), rq_context := Context demo_result\<rparr>)
        ((), (nonce_new 5 (60 * second))\<lparr>seen := [(''inv:1'', 300)]\<rparr>)" for nxt
    using demo_texts by (intro demo_middleware_runs) (auto simp: binding_check_None demo_json_def)
  show "evaluate (dr_Policy demo_leaf) (args_of (GMap [])) = Some (Missing Cost)"
    by (simp add: demo_leaf_def demo_child_def evaluate_def eval_cost_def)
qed

end
